(* ===== verification/Prelude.thy ===== *)
theory Prelude
  imports Main "HOL-Library.Word"
begin

text \<open>
  The prelude of the development: machine integers, the outcome of a C computation,
  byte memory with bounds, and the little-endian layout of integers in memory.

  A C function of the program is a HOL function into \<open>outcome\<close>: \<open>Ret\<close> is a normal
  return, \<open>Exit\<close> is a failed \<open>A\<close>/\<open>AN\<close>/\<open>AZ\<close> check of src/types.h (which prints and calls
  \<open>exit(1)\<close>), and \<open>Fault\<close> is an access that C leaves undefined (outside an array,
  through a null or freed pointer). A theorem that a call is \<open>Ret\<close> is therefore also a
  memory-safety theorem.

  The host is little-endian with 64-bit \<open>long\<close>, as the source's casts presume
  (\<open>CRLF = 0x0a0d\<close> in src/parser.c).
\<close>

unbundle bit_operations_syntax

subsection \<open>Machine integers and outcomes\<close>

type_synonym u8 = "8 word"
type_synonym u16 = "16 word"
type_synonym u32 = "32 word"
type_synonym u64 = "64 word"

lemma unat_u32_less [simp]: "unat (x :: u32) < 4294967296"
  by (rule order_less_le_trans [OF unsigned_less]) simp

lemma unat_of_nat_u32: "n < 4294967296 \<Longrightarrow> unat (of_nat n :: u32) = n"
  by (simp add: unat_of_nat take_bit_nat_eq_self)

lemma of_nat_u32_eq_numeral:
  "n < 4294967296 \<Longrightarrow> numeral k < (4294967296 :: nat) \<Longrightarrow>
     (of_nat n :: u32) = numeral k \<longleftrightarrow> n = numeral k"
  by (metis of_nat_numeral unat_of_nat_u32)

lemma of_int_less_u64:
  "0 \<le> a \<Longrightarrow> a < 2 ^ 63 \<Longrightarrow> 0 \<le> b \<Longrightarrow> b < 2 ^ 63 \<Longrightarrow> (of_int a :: u64) < of_int b \<longleftrightarrow> a < b"
  by (simp add: word_less_alt unsigned_of_int take_bit_int_eq_self)

text \<open>
  \<open>Uninitialised\<close> is a read of a variable never written, and \<open>Diverges\<close> stands for a loop
  that does not end: a call that is not a fault has returned or exited. \<open>Overflow\<close> is an
  overflow of a signed integer, and \<open>Bad_free\<close> a \<open>free\<close> of memory \<open>malloc\<close> did not return.
\<close>

datatype fault = Out_of_bounds | Null_call | Null_deref | Use_after_free | Uninitialised | Diverges
  | Overflow | Bad_free

datatype 'a outcome = Ret 'a | Exit | Fault fault

primrec obind :: "'a outcome \<Rightarrow> ('a \<Rightarrow> 'b outcome) \<Rightarrow> 'b outcome" where
  "obind (Ret x) f = f x"
| "obind Exit f = Exit"
| "obind (Fault e) f = Fault e"

text \<open>\<open>guard\<close> is the check of the \<open>A\<close> macros: the process exits unless it holds.\<close>

definition guard :: "bool \<Rightarrow> unit outcome" where
  "guard b = (if b then Ret () else Exit)"

named_theorems outcome_simps \<open>inversion of returned outcomes\<close>
named_theorems eval_simps \<open>evaluation on concrete inputs\<close>

lemma guard_simps [simp]: "guard True = Ret ()" "guard False = Exit"
  by (simp_all add: guard_def)

lemma guard_eq_Ret [outcome_simps]: "guard b = Ret u \<longleftrightarrow> b"
  by (simp add: guard_def)

lemma obind_eq_Ret [outcome_simps]:
  "obind m f = Ret y \<longleftrightarrow> (\<exists>x. m = Ret x \<and> f x = Ret y)"
  by (cases m) auto

lemma obind_cong [fundef_cong]:
  "m = m' \<Longrightarrow> (\<And>x. m' = Ret x \<Longrightarrow> f x = g x) \<Longrightarrow> obind m f = obind m' g"
  by (cases m') auto

lemma obind_assoc: "obind (obind m f) g = obind m (\<lambda>x. obind (f x) g)"
  by (cases m) auto

lemma obind_if [simp]: "obind (if b then m else n) f = (if b then obind m f else obind n f)"
  by simp

text \<open>
  Total correctness up to exits: \<open>post r Q\<close> holds when the computation does not fault and
  every value it returns satisfies \<open>Q\<close>. The rules in \<open>vcg\<close> take a computation apart.
\<close>

definition post :: "'a outcome \<Rightarrow> ('a \<Rightarrow> bool) \<Rightarrow> bool" where
  "post r Q = (case r of Ret x \<Rightarrow> Q x | Exit \<Rightarrow> True | Fault e \<Rightarrow> False)"

named_theorems vcg \<open>verification conditions of outcomes\<close>

lemma post_simps [simp]: "post (Ret x) Q = Q x" "post Exit Q" "\<not> post (Fault e) Q"
  by (simp_all add: post_def)

lemma post_obind [vcg]: "post m (\<lambda>x. post (f x) Q) \<Longrightarrow> post (obind m f) Q"
  by (cases m) simp_all

lemma post_guard [vcg]: "(b \<Longrightarrow> Q ()) \<Longrightarrow> post (guard b) Q"
  by (cases b) simp_all

lemma post_if [vcg]: "(b \<Longrightarrow> post m Q) \<Longrightarrow> (\<not> b \<Longrightarrow> post n Q) \<Longrightarrow> post (if b then m else n) Q"
  by simp

lemma post_mono: "post m P \<Longrightarrow> (\<And>x. P x \<Longrightarrow> Q x) \<Longrightarrow> post m Q"
  by (cases m) simp_all

lemma post_conj: "post m P \<Longrightarrow> post m Q \<Longrightarrow> post m (\<lambda>x. P x \<and> Q x)"
  by (cases m) simp_all

lemma post_RetD: "post m Q \<Longrightarrow> m = Ret x \<Longrightarrow> Q x"
  by simp

lemma post_no_fault: "post m Q \<Longrightarrow> m \<noteq> Fault e"
  by auto

subsection \<open>Byte memory\<close>

text \<open>An array of bytes; a read or write of \<open>n\<close> bytes at \<open>i\<close> stays inside it or faults.\<close>

definition mem_read :: "u8 list \<Rightarrow> nat \<Rightarrow> nat \<Rightarrow> u8 list outcome" where
  "mem_read m i n = (if i + n \<le> length m then Ret (take n (drop i m)) else Fault Out_of_bounds)"

definition mem_write :: "u8 list \<Rightarrow> nat \<Rightarrow> u8 list \<Rightarrow> u8 list outcome" where
  "mem_write m i bs =
     (if i + length bs \<le> length m then Ret (take i m @ bs @ drop (i + length bs) m)
      else Fault Out_of_bounds)"

definition mem_get :: "u8 list \<Rightarrow> nat \<Rightarrow> u8 outcome" where
  "mem_get m i = (if i < length m then Ret (m ! i) else Fault Out_of_bounds)"

lemma mem_read_0 [simp]: "i \<le> length m \<Longrightarrow> mem_read m i 0 = Ret []"
  by (simp add: mem_read_def)

lemma mem_get_Ret [simp]: "i < length m \<Longrightarrow> mem_get m i = Ret (m ! i)"
  by (simp add: mem_get_def)

lemma mem_get_eq_Ret [outcome_simps]: "mem_get m i = Ret c \<longleftrightarrow> i < length m \<and> c = m ! i"
  by (auto simp: mem_get_def)

lemma length_mem_write: "mem_write m i bs = Ret m' \<Longrightarrow> length m' = length m"
  by (auto simp: mem_write_def split: if_splits)

lemma drop_add_append: "length xs = n \<Longrightarrow> drop (n + k) (xs @ ys) = drop k ys"
  by (simp add: drop_append)

subsection \<open>Integers in memory\<close>

primrec le_bytes :: "nat \<Rightarrow> 'a::len word \<Rightarrow> u8 list" where
  "le_bytes 0 w = []"
| "le_bytes (Suc n) w = ucast w # le_bytes n (drop_bit 8 w)"

primrec of_le :: "u8 list \<Rightarrow> 'a::len word" where
  "of_le [] = 0"
| "of_le (b # bs) = ucast b OR push_bit 8 (of_le bs)"

lemma length_le_bytes [simp]: "length (le_bytes n w) = n"
  by (induction n arbitrary: w) auto

lemma le_bytes_numeral [eval_simps]:
  "le_bytes (numeral k) w = ucast w # le_bytes (pred_numeral k) (drop_bit 8 w)"
  by (simp add: numeral_eq_Suc)

lemma of_le_le_bytes_take: "of_le (le_bytes n w) = take_bit (8 * n) w"
proof (induction n arbitrary: w)
  case 0
  then show ?case by simp
next
  case (Suc n)
  show ?case
    by (rule bit_eqI) (auto simp: Suc bit_simps)
qed

lemma bit_of_le:
  "bit (of_le bs :: 'a::len word) k \<longleftrightarrow>
     k < LENGTH('a) \<and> k < 8 * length bs \<and> bit (bs ! (k div 8)) (k mod 8)"
proof (induction bs arbitrary: k)
  case Nil
  then show ?case by simp
next
  case (Cons b bs)
  show ?case
    by (cases "k < 8")
      (auto simp: Cons bit_simps not_less le_div_geq le_mod_geq dest: bit_imp_le_length)
qed

lemma of_le_bytes2 [simp]: "of_le (le_bytes 2 (w :: u16)) = w"
  and of_le_bytes4 [simp]: "of_le (le_bytes 4 (x :: u32)) = x"
  and of_le_bytes8 [simp]: "of_le (le_bytes 8 (y :: u64)) = y"
  using of_le_le_bytes_take [of 2 w] of_le_le_bytes_take [of 4 x] of_le_le_bytes_take [of 8 y]
  by (simp_all add: take_bit_word_eq_self)

lemma le_bytes_of_le:
  "length bs = n \<Longrightarrow> 8 * n \<le> LENGTH('a::len) \<Longrightarrow> le_bytes n (of_le bs :: 'a word) = bs"
proof (induction n arbitrary: bs)
  case 0
  then show ?case by simp
next
  case (Suc n)
  then obtain b cs where bs: "bs = b # cs" "length cs = n" by (cases bs) auto
  have "ucast (of_le bs :: 'a word) = b"
    using Suc.prems by (intro bit_eqI) (auto simp: bit_simps bit_of_le bs dest: bit_imp_le_length)
  moreover have "drop_bit 8 (of_le bs :: 'a word) = of_le cs"
    using Suc.prems by (intro bit_eqI) (auto simp: bit_simps bit_of_le bs dest: bit_imp_le_length)
  ultimately show ?case
    using Suc bs by simp
qed

text \<open>Byte order conversion of endian.h on this host: the bytes are reversed.\<close>

definition htobe16 :: "u16 \<Rightarrow> u16" where
  "htobe16 w = of_le (rev (le_bytes 2 w))"

definition htobe64 :: "u64 \<Rightarrow> u64" where
  "htobe64 w = of_le (rev (le_bytes 8 w))"

definition be16toh :: "u16 \<Rightarrow> u16" where
  "be16toh w = of_le (rev (le_bytes 2 w))"

definition be64toh :: "u64 \<Rightarrow> u64" where
  "be64toh w = of_le (rev (le_bytes 8 w))"

lemma le_bytes_htobe16: "le_bytes 2 (htobe16 w) = rev (le_bytes 2 w)"
  and le_bytes_htobe64: "le_bytes 8 (htobe64 x) = rev (le_bytes 8 x)"
  unfolding htobe16_def htobe64_def by (rule le_bytes_of_le; simp)+

lemma be16toh_htobe16 [simp]: "be16toh (htobe16 w) = w"
  and be64toh_htobe64 [simp]: "be64toh (htobe64 x) = x"
  unfolding be16toh_def be64toh_def le_bytes_htobe16 le_bytes_htobe64 rev_rev_ident by simp_all

subsection \<open>Text\<close>

abbreviation NUL :: u8 where "NUL \<equiv> 0"
abbreviation HTAB :: u8 where "HTAB \<equiv> 0x09"
abbreviation LF :: u8 where "LF \<equiv> 0x0a"
abbreviation CR :: u8 where "CR \<equiv> 0x0d"
abbreviation SP :: u8 where "SP \<equiv> 0x20"

text \<open>The bytes of a string literal, without the terminating NUL.\<close>

definition bytes :: "string \<Rightarrow> u8 list" where
  "bytes s = map of_char s"

lemma bytes_Nil [simp]: "bytes [] = []"
  by (simp add: bytes_def)

lemma length_bytes [simp]: "length (bytes s) = length s"
  by (simp add: bytes_def)

end
