(* ===== verification/Types.thy ===== *)
theory Types
  imports Prelude
begin

text \<open>
  The data of src/types.h, src/ws.h and src/uri.h: error codes, chunks, the HTTP request,
  the websocket frame, sockets with their protocol and operation tables, the
  configuration, and the globals of the process: those of wsd (src/wschild.c, src/common.c,
  src/pp2.c) and those of wscat (src/wscat.c).

  A C pointer into a byte array is an index into it (\<open>None\<close> is NULL), a pointer to a
  socket is a number looked up in \<open>heap\<close>, and a function pointer is a constructor naming
  the function (\<open>None\<close> is NULL). Sockets are owned by exactly one heap cell, so the two
  buffers of a socket are part of its record.
\<close>

subsection \<open>Error codes\<close>

datatype wsd_err = WSD_CHECKERRNO | WSD_EAGAIN | WSD_EBADREQ | WSD_EEOS | WSD_ECHAR
  | WSD_EINPUT | WSD_ENOMEM | WSD_ENUM | WSD_EOF | WSD_EAI

text \<open>Their numbers, by which they are ordered.\<close>

definition err_code :: "wsd_err \<Rightarrow> nat" where
  "err_code e = (case e of WSD_CHECKERRNO \<Rightarrow> 0 | WSD_EAGAIN \<Rightarrow> 1 | WSD_EBADREQ \<Rightarrow> 2 | WSD_EEOS \<Rightarrow> 3 | WSD_ECHAR \<Rightarrow> 4
     | WSD_EINPUT \<Rightarrow> 5 | WSD_ENOMEM \<Rightarrow> 6 | WSD_ENUM \<Rightarrow> 7 | WSD_EOF \<Rightarrow> 8 | WSD_EAI \<Rightarrow> 9)"

lemma err_code_inj: "err_code e = err_code f \<longleftrightarrow> e = f"
  by (cases e; cases f; simp add: err_code_def)

instantiation wsd_err :: linorder
begin

definition less_eq_wsd_err :: "wsd_err \<Rightarrow> wsd_err \<Rightarrow> bool" where
  "less_eq_wsd_err e f \<longleftrightarrow> err_code e \<le> err_code f"

definition less_wsd_err :: "wsd_err \<Rightarrow> wsd_err \<Rightarrow> bool" where
  "less_wsd_err e f \<longleftrightarrow> err_code e < err_code f"

instance
  by standard (auto simp: less_eq_wsd_err_def less_wsd_err_def simp flip: err_code_inj)

end

datatype sys_err = ECONNREFUSED | EAGAIN | ENETUNREACH | ETIMEDOUT | EINTR | EINPROGRESS
  | Other_errno

subsection \<open>Chunks, requests, frames\<close>

record chunk =
  chunk_p :: "nat option"
  chunk_len :: u32

definition null_chunk :: chunk where
  "null_chunk = \<lparr>chunk_p = None, chunk_len = 0\<rparr>"

record http_req =
  req_method :: chunk
  req_target :: chunk
  req_http_ver :: chunk
  req_host :: chunk
  req_origin :: chunk
  req_user_agent :: chunk
  req_conn :: chunk
  req_conn2 :: chunk
  req_upgrade :: chunk
  req_sec_ws_key :: chunk
  req_sec_ws_ver :: chunk
  req_sec_ws_ext :: chunk
  req_sec_ws_proto :: chunk
  req_is_uri_abs :: bool

definition null_http_req :: http_req where
  "null_http_req = \<lparr>req_method = null_chunk, req_target = null_chunk, req_http_ver = null_chunk,
     req_host = null_chunk, req_origin = null_chunk, req_user_agent = null_chunk,
     req_conn = null_chunk, req_conn2 = null_chunk, req_upgrade = null_chunk,
     req_sec_ws_key = null_chunk, req_sec_ws_ver = null_chunk, req_sec_ws_ext = null_chunk,
     req_sec_ws_proto = null_chunk, req_is_uri_abs = False\<rparr>"

record wsframe =
  wsf_byte1 :: u8
  wsf_byte2 :: u8
  wsf_payload_len :: u64
  wsf_masking_key :: u32

definition null_wsframe :: wsframe where
  "null_wsframe = \<lparr>wsf_byte1 = 0, wsf_byte2 = 0, wsf_payload_len = 0, wsf_masking_key = 0\<rparr>"

subsection \<open>Sockets\<close>

record skb =
  rdpos :: u32
  wrpos :: u32
  skb_data :: "u8 list"

record timespec =
  tv_sec :: int
  tv_nsec :: int

record sockaddr_in =
  sin_addr :: u32
  sin_port :: u16

datatype decode_handshake_fn = Ws_decode_handshake
datatype decode_frame_fn = Ws_decode_frame | Pp2_decode_frame | Wssk_ws_decode_frame
  | Stdin_decode_frame
datatype encode_frame_fn = Ws_encode_frame | Pp2_encode_frame | Wssk_ws_encode_frame
datatype ctl_fn = Ws_ping | Ws_pong | Pp2_nop | Stdin_nop
datatype closing_fn = Ws_start_closing_handshake

record proto =
  decode_handshake :: "decode_handshake_fn option"
  decode_frame :: "decode_frame_fn option"
  encode_frame :: "encode_frame_fn option"
  ping :: "ctl_fn option"
  pong :: "ctl_fn option"
  start_closing_handshake :: "closing_fn option"

definition null_proto :: proto where
  "null_proto = \<lparr>decode_handshake = None, decode_frame = None, encode_frame = None,
     ping = None, pong = None, start_closing_handshake = None\<rparr>"

datatype recv_fn = Http_recv | Ws_recv | Pp2_recv | Wssk_http_recv | Wssk_ws_recv | Stdin_recv
datatype read_fn = Sk_read | Wssk_tls_handshake_read | Wssk_tls_read
datatype write_fn = Sk_write | Wssk_tls_handshake_write | Wssk_tls_write
datatype close_fn = Sk_close | Pp2_close | Wssk_close | Stdin_close
datatype accept_fn = Sk_accept

record ops =
  ops_recv :: "recv_fn option"
  ops_read :: "read_fn option"
  ops_write :: "write_fn option"
  ops_close :: "close_fn option"
  ops_accept :: "accept_fn option"

definition null_ops :: ops where
  "null_ops = \<lparr>ops_recv = None, ops_read = None, ops_write = None, ops_close = None,
     ops_accept = None\<rparr>"

type_synonym ptr = nat

text \<open>
  What the program sets in the TLS connection object of OpenSSL, which is opaque to it: the
  lowest protocol version, whether the certificate of the peer is verified, the host name it has
  to bear, whether partial wildcards match, the descriptor, and the name sent to the server.
\<close>

record tls_conn =
  tls_min_version :: nat
  tls_verify_peer :: bool
  tls_host :: string
  tls_no_partial_wildcards :: bool
  tls_fd :: int
  tls_host_name :: string

record sk =
  sk_fd :: int
  sk_hashval :: u64
  sk_events :: u32
  sk_sendbuf :: skb
  sk_recvbuf :: skb
  sk_proto :: proto
  sk_ops :: ops
  sk_retries :: u8
  sk_close_on_write :: bool
  sk_close_flag :: bool
  sk_closing :: bool
  sk_ts_last_io :: timespec
  sk_ts_closing_handshake_start :: timespec
  sk_src_addr :: sockaddr_in
  sk_dst_addr :: sockaddr_in
  sk_ssl :: "tls_conn option"

subsection \<open>Configuration and globals\<close>

text \<open>The fields from the user agent on belong to wscat only.\<close>

record wsd_config =
  cfg_uid :: u32
  cfg_lfd :: int
  cfg_lport :: int
  cfg_fport :: string
  cfg_fhostname :: "string list"
  cfg_fhostname_num :: u8
  cfg_pidfilename :: "string option"
  cfg_verbose :: u8
  cfg_no_fork :: bool
  cfg_idle_timeout :: int
  cfg_ping_interval :: int
  cfg_closing_handshake_timeout :: int
  cfg_sec_ws_proto :: "string option"
  cfg_user_agent :: string
  cfg_request_target :: string
  cfg_sec_ws_ver :: string
  cfg_sec_ws_key :: string
  cfg_tls :: bool
  cfg_no_check_cert :: bool

text \<open>
  \<open>epoll\<close> is the interest set the kernel keeps for the epoll descriptor: the events
  registered for each file descriptor.
\<close>

record world =
  heap :: "ptr \<Rightarrow> sk option"
  pp2sk :: "ptr option"
  sk_list :: "ptr list"
  work_list :: "ptr list"
  sk_hash :: "ptr list list"
  wsd_errno :: wsd_err
  sys_errno :: sys_err
  host_num :: u32
  epoll :: "int \<Rightarrow> u32 option"
  wsd_done :: bool
  wsd_cfg :: wsd_config
  wssk :: "ptr option"
  fdin :: "ptr option"
  is_json :: bool
  no_handshake :: bool
  repeat_last_num :: int
  repeat_last_armed :: bool
  last_input :: skb

definition EPOLLIN :: u32 where "EPOLLIN = 0x001"
definition EPOLLPRI :: u32 where "EPOLLPRI = 0x002"
definition EPOLLOUT :: u32 where "EPOLLOUT = 0x004"
definition EPOLLERR :: u32 where "EPOLLERR = 0x008"
definition EPOLLHUP :: u32 where "EPOLLHUP = 0x010"
definition EPOLLRDHUP :: u32 where "EPOLLRDHUP = 0x2000"

lemmas epoll_defs = EPOLLIN_def EPOLLPRI_def EPOLLOUT_def EPOLLERR_def EPOLLHUP_def EPOLLRDHUP_def

text \<open>Dereferencing a socket pointer faults when the cell was freed.\<close>

definition deref :: "world \<Rightarrow> ptr \<Rightarrow> sk outcome" where
  "deref w s = (case heap w s of None \<Rightarrow> Fault Use_after_free | Some k \<Rightarrow> Ret k)"

definition put_sk :: "world \<Rightarrow> ptr \<Rightarrow> sk \<Rightarrow> world" where
  "put_sk w s k = w\<lparr>heap := (heap w)(s \<mapsto> k)\<rparr>"

lemma deref_Ret [simp]: "heap w s = Some k \<Longrightarrow> deref w s = Ret k"
  by (simp add: deref_def)

lemma deref_eq_Ret [outcome_simps]: "deref w s = Ret k \<longleftrightarrow> heap w s = Some k"
  by (simp add: deref_def split: option.splits)

lemma heap_put_sk [simp]: "heap (put_sk w s k) = (heap w)(s \<mapsto> k)"
  by (simp add: put_sk_def)

lemma put_sk_other [simp]:
  "pp2sk (put_sk w s k) = pp2sk w" "sk_list (put_sk w s k) = sk_list w"
  "work_list (put_sk w s k) = work_list w" "sk_hash (put_sk w s k) = sk_hash w"
  "wsd_errno (put_sk w s k) = wsd_errno w" "sys_errno (put_sk w s k) = sys_errno w"
  "host_num (put_sk w s k) = host_num w" "epoll (put_sk w s k) = epoll w"
  "wsd_done (put_sk w s k) = wsd_done w" "wsd_cfg (put_sk w s k) = wsd_cfg w"
  "wssk (put_sk w s k) = wssk w" "fdin (put_sk w s k) = fdin w"
  "is_json (put_sk w s k) = is_json w" "no_handshake (put_sk w s k) = no_handshake w"
  "repeat_last_num (put_sk w s k) = repeat_last_num w"
  "repeat_last_armed (put_sk w s k) = repeat_last_armed w"
  "last_input (put_sk w s k) = last_input w"
  by (simp_all add: put_sk_def)

lemma put_sk_put_sk [simp]: "put_sk (put_sk w s k) s k' = put_sk w s k'"
  by (simp add: put_sk_def)

text \<open>The pointer globals are null until set.\<close>

definition deref_global :: "ptr option \<Rightarrow> ptr outcome" where
  "deref_global p = (case p of None \<Rightarrow> Fault Null_deref | Some s \<Rightarrow> Ret s)"

lemma deref_global_Some [simp]: "deref_global (Some s) = Ret s"
  by (simp add: deref_global_def)

lemma deref_global_None [simp]: "deref_global None = Fault Null_deref"
  by (simp add: deref_global_def)

lemma deref_global_eq_Ret [outcome_simps]: "deref_global p = Ret s \<longleftrightarrow> p = Some s"
  by (cases p) auto

text \<open>Assignment through a socket pointer: \<open>s->field = \<dots>\<close>.\<close>

definition upd_sk :: "world \<Rightarrow> ptr \<Rightarrow> (sk \<Rightarrow> sk) \<Rightarrow> world outcome" where
  "upd_sk w s f = obind (deref w s) (\<lambda>k. Ret (put_sk w s (f k)))"

lemma upd_sk_Ret [simp]: "heap w s = Some k \<Longrightarrow> upd_sk w s f = Ret (put_sk w s (f k))"
  by (simp add: upd_sk_def)

lemma upd_sk_eq_Ret [outcome_simps]:
  "upd_sk w s f = Ret w' \<longleftrightarrow> (\<exists>k. heap w s = Some k \<and> w' = put_sk w s (f k))"
  by (auto simp: upd_sk_def deref_def split: option.splits)

lemma post_deref [vcg]: "heap w s = Some k \<Longrightarrow> Q k \<Longrightarrow> post (deref w s) Q"
  by simp

lemma post_upd_sk [vcg]: "heap w s = Some k \<Longrightarrow> Q (put_sk w s (f k)) \<Longrightarrow> post (upd_sk w s f) Q"
  by simp

subsection \<open>Initial values\<close>

text \<open>The configuration of \<open>wsd\<close> started without options, and the globals before any socket exists.\<close>

definition default_cfg :: wsd_config where
  "default_cfg = \<lparr>cfg_uid = 100, cfg_lfd = 3, cfg_lport = 6084, cfg_fport = ''6085'', cfg_fhostname = [''127.0.0.1''],
     cfg_fhostname_num = 1, cfg_pidfilename = None, cfg_verbose = 0, cfg_no_fork = False, cfg_idle_timeout = -1, cfg_ping_interval = -1 * 1000,
     cfg_closing_handshake_timeout = 8000, cfg_sec_ws_proto = None, cfg_user_agent = [],
     cfg_request_target = [], cfg_sec_ws_ver = [], cfg_sec_ws_key = [], cfg_tls = False, cfg_no_check_cert = False\<rparr>"

definition init_world :: "wsd_config \<Rightarrow> world" where
  "init_world c = \<lparr>heap = Map.empty, pp2sk = None, sk_list = [], work_list = [],
     sk_hash = replicate 16 [], wsd_errno = WSD_CHECKERRNO, sys_errno = Other_errno,
     host_num = 0, epoll = Map.empty, wsd_done = False, wsd_cfg = c,
     wssk = None, fdin = None, is_json = False, no_handshake = False, repeat_last_num = -1,
     repeat_last_armed = False,
     last_input = \<lparr>rdpos = 0, wrpos = 0, skb_data = replicate 1048576 0\<rparr>\<rparr>"

end
