(* ===== verification/Skb.thy ===== *)
theory Skb
  imports Types
begin

text \<open>
  The socket buffer \<open>skb_t\<close>: the macros of src/common.h and \<open>skb_compact\<close>,
  \<open>skb_put_strn\<close> and \<open>skb_print\<close> of src/common.c.

  The macros write with no check of their own, so a write past \<open>sizeof(buf->data)\<close> is a
  fault here. The abstraction of a well-formed buffer is the byte string \<open>pending\<close>
  between the two positions and the free space \<open>room\<close> behind them; the locale
  \<open>byte_queue\<close> is that contract, and every component above works from it.
\<close>

definition SKB_SIZE :: u32 where
  "SKB_SIZE = 1048576"

definition skb_rdsz :: "skb \<Rightarrow> u32" where
  "skb_rdsz b = wrpos b - rdpos b"

definition skb_wrsz :: "skb \<Rightarrow> u32" where
  "skb_wrsz b = SKB_SIZE - wrpos b"

definition skb_put_mem :: "skb \<Rightarrow> u8 list \<Rightarrow> skb outcome" where
  "skb_put_mem b bs =
     obind (mem_write (skb_data b) (unat (wrpos b)) bs)
       (\<lambda>d. Ret (b\<lparr>skb_data := d, wrpos := wrpos b + of_nat (length bs)\<rparr>))"

definition skb_get_mem :: "skb \<Rightarrow> nat \<Rightarrow> (u8 list \<times> skb) outcome" where
  "skb_get_mem b n =
     obind (mem_read (skb_data b) (unat (rdpos b)) n)
       (\<lambda>bs. Ret (bs, b\<lparr>rdpos := rdpos b + of_nat n\<rparr>))"

definition skb_put8 :: "skb \<Rightarrow> u8 \<Rightarrow> skb outcome" where
  "skb_put8 b obj = skb_put_mem b [obj]"

definition skb_put16 :: "skb \<Rightarrow> u16 \<Rightarrow> skb outcome" where
  "skb_put16 b obj = skb_put_mem b (le_bytes 2 obj)"

definition skb_put32 :: "skb \<Rightarrow> u32 \<Rightarrow> skb outcome" where
  "skb_put32 b obj = skb_put_mem b (le_bytes 4 obj)"

definition skb_put64 :: "skb \<Rightarrow> u64 \<Rightarrow> skb outcome" where
  "skb_put64 b obj = skb_put_mem b (le_bytes 8 obj)"

definition skb_get8 :: "skb \<Rightarrow> (u8 \<times> skb) outcome" where
  "skb_get8 b = obind (skb_get_mem b 1) (\<lambda>(bs, b). Ret (of_le bs, b))"

definition skb_get16 :: "skb \<Rightarrow> (u16 \<times> skb) outcome" where
  "skb_get16 b = obind (skb_get_mem b 2) (\<lambda>(bs, b). Ret (of_le bs, b))"

definition skb_get32 :: "skb \<Rightarrow> (u32 \<times> skb) outcome" where
  "skb_get32 b = obind (skb_get_mem b 4) (\<lambda>(bs, b). Ret (of_le bs, b))"

definition skb_get64 :: "skb \<Rightarrow> (u64 \<times> skb) outcome" where
  "skb_get64 b = obind (skb_get_mem b 8) (\<lambda>(bs, b). Ret (of_le bs, b))"

definition skb_reset :: "skb \<Rightarrow> skb" where
  "skb_reset b = b\<lparr>wrpos := 0, rdpos := 0\<rparr>"

definition skb_rd_rewind :: "skb \<Rightarrow> u32 \<Rightarrow> skb" where
  "skb_rd_rewind b amount = b\<lparr>rdpos := rdpos b - amount\<rparr>"

definition skb_rd_forward :: "skb \<Rightarrow> u32 \<Rightarrow> skb" where
  "skb_rd_forward b amount = b\<lparr>rdpos := rdpos b + amount\<rparr>"

definition skb_rd_reset :: "skb \<Rightarrow> u32 \<Rightarrow> skb" where
  "skb_rd_reset b pos = b\<lparr>rdpos := pos\<rparr>"

definition skb_copy :: "skb \<Rightarrow> skb \<Rightarrow> u64 \<Rightarrow> skb outcome" where
  "skb_copy dst src n =
     obind (mem_read (skb_data src) (unat (rdpos src)) (unat n))
       (\<lambda>bs. obind (mem_write (skb_data dst) (unat (wrpos dst)) bs)
       (\<lambda>d. Ret (dst\<lparr>skb_data := d, wrpos := wrpos dst + ucast n\<rparr>)))"

definition skb_compact :: "skb \<Rightarrow> skb outcome" where
  "skb_compact b =
     obind (mem_read (skb_data b) (unat (rdpos b)) (unat (wrpos b - rdpos b)))
       (\<lambda>bs. obind (mem_write (skb_data b) 0 bs)
       (\<lambda>d. Ret (b\<lparr>skb_data := d, wrpos := wrpos b - rdpos b, rdpos := 0\<rparr>)))"

text \<open>
  \<open>strncpy(dst, src, n)\<close>: the bytes written for a source at \<open>p\<close> in \<open>m\<close>. It stops at a
  NUL and pads with NULs; it faults if the source array ends first.
\<close>

definition strncpy_bytes :: "u8 list \<Rightarrow> nat \<Rightarrow> nat \<Rightarrow> u8 list outcome" where
  "strncpy_bytes m p n =
     (let s = take n (drop p m); t = takeWhile (\<lambda>c. c \<noteq> 0) s
      in if length s = n \<or> length t < length s then Ret (t @ replicate (n - length t) 0)
         else Fault Out_of_bounds)"

definition skb_put_strn :: "skb \<Rightarrow> u8 list \<Rightarrow> nat \<Rightarrow> u64 \<Rightarrow> (int \<times> skb) outcome" where
  "skb_put_strn b m p n =
     (if ucast (skb_wrsz b) < n then Ret (-1, b)
      else obind (strncpy_bytes m p (unat n))
        (\<lambda>bs. obind (mem_write (skb_data b) (unat (wrpos b)) bs)
        (\<lambda>d. Ret (0, b\<lparr>skb_data := d, wrpos := wrpos b + ucast n\<rparr>))))"

text \<open>The bytes \<open>skb_print\<close> writes to the stream, and the buffer after it.\<close>

definition skb_print :: "skb \<Rightarrow> u64 \<Rightarrow> (u8 list \<times> skb) outcome" where
  "skb_print b n = skb_get_mem b (unat n)"

text \<open>
  The copy loops \<open>while (n--) dst->data[dst->wrpos++] = f(src->data[src->rdpos++], i++)\<close>
  of src/ws.c, src/pp2.c and src/wscat.c, over the operations of two buffers.
\<close>

primrec move_loop ::
  "('b \<Rightarrow> u8 list \<Rightarrow> 'b outcome) \<Rightarrow> ('b \<Rightarrow> nat \<Rightarrow> (u8 list \<times> 'b) outcome) \<Rightarrow>
   (u8 \<Rightarrow> nat \<Rightarrow> u8) \<Rightarrow> nat \<Rightarrow> nat \<Rightarrow> 'b \<Rightarrow> 'b \<Rightarrow> ('b \<times> 'b) outcome" where
  "move_loop psh pul f 0 i dst src = Ret (dst, src)"
| "move_loop psh pul f (Suc n) i dst src =
     obind (pul src 1) (\<lambda>(c, src').
     obind (psh dst (map (\<lambda>b. f b i) c)) (\<lambda>dst'.
       move_loop psh pul f n (Suc i) dst' src'))"

definition skb_move :: "(u8 \<Rightarrow> nat \<Rightarrow> u8) \<Rightarrow> nat \<Rightarrow> skb \<Rightarrow> skb \<Rightarrow> (skb \<times> skb) outcome" where
  "skb_move f n dst src = move_loop skb_put_mem skb_get_mem f n 0 dst src"

subsection \<open>Abstraction\<close>

definition skb_wf :: "skb \<Rightarrow> bool" where
  "skb_wf b \<longleftrightarrow> length (skb_data b) = unat SKB_SIZE \<and> rdpos b \<le> wrpos b \<and> wrpos b \<le> SKB_SIZE"

definition pending :: "skb \<Rightarrow> u8 list" where
  "pending b = take (unat (skb_rdsz b)) (drop (unat (rdpos b)) (skb_data b))"

definition room :: "skb \<Rightarrow> nat" where
  "room b = unat (skb_wrsz b)"

text \<open>The byte string \<open>xs\<close> after \<open>f\<close> at positions \<open>i, i + 1, \<dots>\<close>.\<close>

primrec map_at :: "(u8 \<Rightarrow> nat \<Rightarrow> u8) \<Rightarrow> nat \<Rightarrow> u8 list \<Rightarrow> u8 list" where
  "map_at f i [] = []"
| "map_at f i (x # xs) = f x i # map_at f (Suc i) xs"

lemma length_map_at [simp]: "length (map_at f i xs) = length xs"
  by (induction xs arbitrary: i) auto

lemma map_at_id [simp]: "map_at (\<lambda>c _. c) i xs = xs"
  by (induction xs arbitrary: i) auto

lemma map_at_map_at: "map_at g i (map_at f i xs) = map_at (\<lambda>c j. g (f c j) j) i xs"
  by (induction xs arbitrary: i) auto

lemma map_at_cong: "(\<And>c j. f c j = g c j) \<Longrightarrow> map_at f i xs = map_at g i xs"
  by (induction xs arbitrary: i) auto

locale byte_queue =
  fixes wf :: "'b \<Rightarrow> bool"
    and contents :: "'b \<Rightarrow> u8 list"
    and space :: "'b \<Rightarrow> nat"
    and capacity :: nat
    and push :: "'b \<Rightarrow> u8 list \<Rightarrow> 'b outcome"
    and pull :: "'b \<Rightarrow> nat \<Rightarrow> (u8 list \<times> 'b) outcome"
    and compact :: "'b \<Rightarrow> 'b outcome"
  assumes push_ok: "wf b \<Longrightarrow> length bs \<le> space b \<Longrightarrow>
      \<exists>b'. push b bs = Ret b' \<and> wf b' \<and> contents b' = contents b @ bs
        \<and> space b' = space b - length bs"
    and push_overflow: "wf b \<Longrightarrow> space b < length bs \<Longrightarrow> push b bs = Fault Out_of_bounds"
    and push_append: "wf b \<Longrightarrow> obind (push b xs) (\<lambda>b'. push b' ys) = push b (xs @ ys)"
    and pull_ok: "wf b \<Longrightarrow> n \<le> length (contents b) \<Longrightarrow>
      \<exists>b'. pull b n = Ret (take n (contents b), b') \<and> wf b' \<and> contents b' = drop n (contents b)
        \<and> space b' = space b"
    and compact_ok: "wf b \<Longrightarrow>
      \<exists>b'. compact b = Ret b' \<and> wf b' \<and> contents b' = contents b
        \<and> space b' = capacity - length (contents b)"
    and fits: "wf b \<Longrightarrow> length (contents b) + space b \<le> capacity"
begin

lemma push_safe_iff: "wf b \<Longrightarrow> (\<exists>b'. push b bs = Ret b') \<longleftrightarrow> length bs \<le> space b"
  using push_ok [of b bs] push_overflow [of b bs] by (metis not_le_imp_less outcome.distinct(3))

lemma push_push:
  "wf b \<Longrightarrow> obind (push b xs) (\<lambda>b'. obind (push b' ys) f) = obind (push b (xs @ ys)) f"
  by (simp add: push_append [symmetric] obind_assoc)

lemma push_RetD:
  assumes "wf b" and "push b bs = Ret b'"
  shows "wf b' \<and> contents b' = contents b @ bs \<and> space b' = space b - length bs
    \<and> length bs \<le> space b"
  using assms push_ok [of b bs] push_safe_iff [of b bs] by auto

lemma pull_RetD:
  assumes "wf b" and "n \<le> length (contents b)" and "pull b n = Ret (bs, b')"
  shows "wf b' \<and> bs = take n (contents b) \<and> contents b' = drop n (contents b)
    \<and> space b' = space b"
  using assms pull_ok [of b n] by auto

lemma compact_RetD:
  assumes "wf b" and "compact b = Ret b'"
  shows "wf b' \<and> contents b' = contents b \<and> space b' = capacity - length (contents b)"
  using assms compact_ok [of b] by auto

text \<open>The copy loop moves exactly the first \<open>n\<close> bytes, transformed, in order.\<close>

lemma move_loop_ok:
  assumes "wf dst" "wf src" "n \<le> length (contents src)" "n \<le> space dst"
  shows "\<exists>dst' src'. move_loop push pull f n i dst src = Ret (dst', src') \<and> wf dst' \<and> wf src'
    \<and> contents dst' = contents dst @ map_at f i (take n (contents src))
    \<and> contents src' = drop n (contents src)
    \<and> space dst' = space dst - n \<and> space src' = space src"
  using assms
proof (induction n arbitrary: i dst src)
  case 0
  then show ?case by simp
next
  case (Suc n)
  obtain c cs where c: "contents src = c # cs"
    using Suc.prems(3) by (cases "contents src") auto
  obtain src1 where s: "pull src 1 = Ret ([c], src1)" "wf src1" "contents src1 = cs"
    "space src1 = space src"
    using pull_ok [of src 1] Suc.prems c by auto
  obtain dst1 where d: "push dst [f c i] = Ret dst1" "wf dst1"
    "contents dst1 = contents dst @ [f c i]" "space dst1 = space dst - 1"
    using push_ok [of dst "[f c i]"] Suc.prems by auto
  show ?case
    using Suc.IH [of dst1 src1 "Suc i"] s d Suc.prems c by auto
qed

text \<open>The loop has no check of its own: it runs past the end of a destination that is too small.\<close>

lemma move_loop_overflow:
  assumes "wf dst" "wf src" "n \<le> length (contents src)" "space dst < n"
  shows "move_loop push pull f n i dst src = Fault Out_of_bounds"
  using assms
proof (induction n arbitrary: i dst src)
  case 0
  then show ?case by simp
next
  case (Suc n)
  obtain c cs where c: "contents src = c # cs"
    using Suc.prems(3) by (cases "contents src") auto
  obtain src1 where s: "pull src 1 = Ret ([c], src1)" "wf src1" "contents src1 = cs"
    using pull_ok [of src 1] Suc.prems c by auto
  show ?case
  proof (cases "space dst")
    case 0
    then show ?thesis
      using push_overflow [of dst "[f c i]"] Suc.prems s by simp
  next
    case (Suc m)
    obtain dst1 where d: "push dst [f c i] = Ret dst1" "wf dst1" "space dst1 = space dst - 1"
      using push_ok [of dst "[f c i]"] Suc.prems Suc by auto
    show ?thesis
      using Suc.IH [of dst1 src1 "Suc i"] s d Suc Suc.prems c by simp
  qed
qed

end

subsection \<open>The buffer implements the queue\<close>

lemma unat_SKB_SIZE [simp]: "unat SKB_SIZE = 1048576"
  by (simp add: SKB_SIZE_def)

lemma skb_wfD:
  assumes "skb_wf b"
  shows "length (skb_data b) = 1048576" "unat (rdpos b) \<le> unat (wrpos b)"
    "unat (wrpos b) \<le> 1048576" "unat (skb_rdsz b) = unat (wrpos b) - unat (rdpos b)"
    "room b = 1048576 - unat (wrpos b)"
  using assms
  by (auto simp: skb_wf_def skb_rdsz_def room_def skb_wrsz_def unat_sub word_le_nat_alt)

lemma skb_wfI:
  assumes "length (skb_data b) = 1048576" "unat (rdpos b) \<le> unat (wrpos b)"
    "unat (wrpos b) \<le> 1048576"
  shows "skb_wf b"
  using assms by (simp add: skb_wf_def word_le_nat_alt)

lemma length_pending: "skb_wf b \<Longrightarrow> length (pending b) = unat (skb_rdsz b)"
  using skb_wfD [of b] by (simp add: pending_def)

lemma pending_alt:
  "skb_wf b \<Longrightarrow> pending b = drop (unat (rdpos b)) (take (unat (wrpos b)) (skb_data b))"
  using skb_wfD [of b] by (simp add: pending_def drop_take)

lemma unat_add_small:
  fixes x :: u32
  assumes "unat x + n \<le> 1048576"
  shows "unat (x + of_nat n) = unat x + n"
  using assms by (simp add: unat_word_ariths unat_of_nat take_bit_nat_eq_self take_bit_nat_def)

lemma skb_put_mem_ok:
  assumes wf: "skb_wf b" and sp: "length bs \<le> room b"
  shows "\<exists>b'. skb_put_mem b bs = Ret b' \<and> skb_wf b' \<and> pending b' = pending b @ bs
    \<and> room b' = room b - length bs \<and> rdpos b' = rdpos b"
proof -
  note D = skb_wfD [OF wf]
  let ?d = "take (unat (wrpos b)) (skb_data b) @ bs @ drop (unat (wrpos b) + length bs) (skb_data b)"
  let ?b = "b\<lparr>skb_data := ?d, wrpos := wrpos b + of_nat (length bs)\<rparr>"
  have w: "unat (wrpos b + of_nat (length bs)) = unat (wrpos b) + length bs"
    using D sp by (intro unat_add_small) simp
  have wf': "skb_wf ?b"
    using D sp by (intro skb_wfI) (simp_all add: w)
  have "skb_put_mem b bs = Ret ?b"
    using D sp by (simp add: skb_put_mem_def mem_write_def)
  moreover have "pending ?b = pending b @ bs"
    using D sp by (simp add: pending_alt wf wf' w)
  moreover have "room ?b = room b - length bs"
    using D skb_wfD(5) [OF wf'] by (simp add: w)
  ultimately show ?thesis using wf' by auto
qed

lemma skb_put_mem_overflow:
  "skb_wf b \<Longrightarrow> room b < length bs \<Longrightarrow> skb_put_mem b bs = Fault Out_of_bounds"
  using skb_wfD [of b] by (simp add: skb_put_mem_def mem_write_def)

lemma skb_put_mem_append:
  assumes wf: "skb_wf b"
  shows "obind (skb_put_mem b xs) (\<lambda>b'. skb_put_mem b' ys) = skb_put_mem b (xs @ ys)"
proof (cases "unat (wrpos b) + length xs \<le> 1048576")
  case True
  note D = skb_wfD [OF wf]
  have w: "unat (wrpos b + of_nat (length xs)) = unat (wrpos b) + length xs"
    using True by (rule unat_add_small)
  show ?thesis
    using D True by (simp add: skb_put_mem_def mem_write_def w drop_append take_append ac_simps)
next
  case False
  then show ?thesis
    using skb_wfD [OF wf] by (simp add: skb_put_mem_def mem_write_def)
qed

lemma skb_get_mem_ok:
  assumes wf: "skb_wf b" and n: "n \<le> length (pending b)"
  shows "\<exists>b'. skb_get_mem b n = Ret (take n (pending b), b') \<and> skb_wf b'
    \<and> pending b' = drop n (pending b) \<and> room b' = room b"
proof -
  note D = skb_wfD [OF wf]
  have n': "unat (rdpos b) + n \<le> unat (wrpos b)"
    using n D by (simp add: length_pending wf)
  let ?b = "b\<lparr>rdpos := rdpos b + of_nat n\<rparr>"
  have r: "unat (rdpos b + of_nat n) = unat (rdpos b) + n"
    using n' D by (intro unat_add_small) simp
  have wf': "skb_wf ?b"
    using D n' by (intro skb_wfI) (simp_all add: r)
  have "skb_get_mem b n = Ret (take n (pending b), ?b)"
    using D n' by (simp add: skb_get_mem_def mem_read_def pending_def min_absorb1)
  moreover have "pending ?b = drop n (pending b)"
    unfolding pending_alt [OF wf] pending_alt [OF wf'] by (simp add: r add.commute [of n])
  moreover have "room ?b = room b"
    by (simp add: room_def skb_wrsz_def)
  ultimately show ?thesis using wf' by blast
qed

lemma skb_compact_ok:
  assumes wf: "skb_wf b"
  shows "\<exists>b'. skb_compact b = Ret b' \<and> skb_wf b' \<and> pending b' = pending b
    \<and> room b' = 1048576 - length (pending b) \<and> rdpos b' = 0"
proof -
  note D = skb_wfD [OF wf]
  let ?n = "unat (wrpos b) - unat (rdpos b)"
  let ?d = "take ?n (drop (unat (rdpos b)) (skb_data b)) @ drop ?n (skb_data b)"
  let ?b = "b\<lparr>skb_data := ?d, wrpos := wrpos b - rdpos b, rdpos := 0\<rparr>"
  have w: "unat (wrpos b - rdpos b) = ?n"
    using D(4) by (simp add: skb_rdsz_def)
  have wf': "skb_wf ?b"
    using D by (intro skb_wfI) (simp_all add: w)
  have "skb_compact b = Ret ?b"
    using D by (simp add: skb_compact_def mem_read_def mem_write_def w min_absorb2)
  moreover have "pending ?b = pending b"
    using D by (simp add: pending_def skb_rdsz_def w min_absorb2)
  moreover have "room ?b = 1048576 - length (pending b)"
    using skb_wfD(5) [OF wf'] D by (simp add: w length_pending wf)
  ultimately show ?thesis using wf' by auto
qed

interpretation skbq: byte_queue skb_wf pending room 1048576 skb_put_mem skb_get_mem skb_compact
proof unfold_locales
  show "skb_wf b \<Longrightarrow> length (pending b) + room b \<le> 1048576" for b
    using skb_wfD [of b] by (simp add: length_pending)
qed (use skb_put_mem_ok skb_put_mem_overflow skb_put_mem_append skb_get_mem_ok skb_compact_ok
     in \<open>blast+\<close>)

subsection \<open>A buffer that holds given bytes\<close>

definition skb_of :: "u8 list \<Rightarrow> skb" where
  "skb_of bs = \<lparr>rdpos = 0, wrpos = of_nat (length bs),
     skb_data = bs @ replicate (1048576 - length bs) 0\<rparr>"

lemma skb_of_wf:
  assumes "length bs \<le> 1048576"
  shows "skb_wf (skb_of bs) \<and> pending (skb_of bs) = bs \<and> room (skb_of bs) = 1048576 - length bs"
proof -
  have w: "unat (of_nat (length bs) :: u32) = length bs"
    using assms by (intro unat_of_nat_u32) simp
  have wf: "skb_wf (skb_of bs)"
    using assms by (intro skb_wfI) (simp_all add: skb_of_def w)
  have "pending (skb_of bs) = bs"
    unfolding pending_alt [OF wf] by (simp add: skb_of_def w)
  then show ?thesis
    using wf skb_wfD(5) [OF wf] by (simp add: skb_of_def w)
qed

lemmas skb_of_simps =
  skb_of_wf [THEN conjunct1] skb_of_wf [THEN conjunct2, THEN conjunct1]
  skb_of_wf [THEN conjunct2, THEN conjunct2]

end
