(* ===== verification/Common.thy ===== *)
theory Common
  imports Skb "HOL-Library.Signed_Division"
begin

text \<open>
  src/common.c without the event loop: \<open>trim\<close>, \<open>mask\<close>, \<open>has_rnrn_termination\<close>, the timers,
  epoll registration, host rotation, socket set-up and the plain read and write operations.
  The event loop is in theory \<open>Child\<close>.

  Environment of a call: what \<open>read(2)\<close> finds waiting and what \<open>write(2)\<close> accepts are
  arguments (\<open>io_in\<close>, \<open>io_out\<close>); the bytes a write hands to the kernel are a result.
\<close>

subsection \<open>Epoll registration\<close>

definition turn_off_events :: "world \<Rightarrow> ptr \<Rightarrow> u32 \<Rightarrow> world outcome" where
  "turn_off_events w s ev =
     obind (deref w s) (\<lambda>k.
     let ev' = sk_events k AND NOT ev in
     obind (guard (epoll w (sk_fd k) \<noteq> None)) (\<lambda>_.
     Ret ((put_sk w s (k\<lparr>sk_events := ev'\<rparr>))\<lparr>epoll := (epoll w)(sk_fd k \<mapsto> ev')\<rparr>)))"

definition turn_on_events :: "world \<Rightarrow> ptr \<Rightarrow> u32 \<Rightarrow> world outcome" where
  "turn_on_events w s ev =
     obind (deref w s) (\<lambda>k.
     let ev' = sk_events k OR ev in
     obind (guard (epoll w (sk_fd k) \<noteq> None)) (\<lambda>_.
     Ret ((put_sk w s (k\<lparr>sk_events := ev'\<rparr>))\<lparr>epoll := (epoll w)(sk_fd k \<mapsto> ev')\<rparr>)))"

text \<open>The idiom \<open>if (!(sk->events & ev)) turn_on_events(sk, ev)\<close>.\<close>

definition ensure_events :: "world \<Rightarrow> ptr \<Rightarrow> u32 \<Rightarrow> world outcome" where
  "ensure_events w s ev =
     obind (deref w s) (\<lambda>k.
     if sk_events k AND ev = 0 then turn_on_events w s ev else Ret w)"

definition register_for_events :: "world \<Rightarrow> ptr \<Rightarrow> (int \<times> world) outcome" where
  "register_for_events w s =
     obind (deref w s) (\<lambda>k.
     if epoll w (sk_fd k) = None
     then Ret (0, w\<lparr>epoll := (epoll w)(sk_fd k \<mapsto> sk_events k)\<rparr>)
     else Ret (-1, w))"

text \<open>\<open>close\<close> takes the descriptor out of the epoll set.\<close>

definition close_fd :: "world \<Rightarrow> int \<Rightarrow> world" where
  "close_fd w fd = w\<lparr>epoll := (epoll w)(fd := None)\<rparr>"

subsection \<open>Trimming a chunk\<close>

definition is_blank :: "u8 \<Rightarrow> bool" where
  "is_blank c \<longleftrightarrow> c = SP \<or> c = HTAB"

text \<open>\<open>while (chk->len) { c = *(chk->p + i); if blank { chk->p++; chk->len--; i++ } else break }\<close>\<close>

fun trim_head :: "u8 list \<Rightarrow> nat \<Rightarrow> nat \<Rightarrow> nat \<Rightarrow> (nat \<times> nat) outcome" where
  "trim_head m p 0 i = Ret (p, 0)"
| "trim_head m p (Suc n) i =
     obind (mem_get m (p + i)) (\<lambda>c.
     if is_blank c then trim_head m (Suc p) n (Suc i) else Ret (p, Suc n))"

fun trim_tail :: "u8 list \<Rightarrow> nat \<Rightarrow> nat \<Rightarrow> nat outcome" where
  "trim_tail m p 0 = Ret 0"
| "trim_tail m p (Suc n) =
     obind (mem_get m (p + n)) (\<lambda>c. if is_blank c then trim_tail m p n else Ret (Suc n))"

definition trim :: "u8 list \<Rightarrow> chunk \<Rightarrow> chunk outcome" where
  "trim m chk =
     (if chunk_len chk = 0 then Ret chk
      else case chunk_p chk of
        None \<Rightarrow> Fault Null_deref
      | Some p0 \<Rightarrow>
          obind (trim_head m p0 (unat (chunk_len chk)) 0) (\<lambda>(p, n).
          obind (trim_tail m p n) (\<lambda>n'.
          Ret \<lparr>chunk_p = Some p, chunk_len = of_nat n'\<rparr>)))"

subsection \<open>Masking\<close>

definition ws_mask :: "u8 \<Rightarrow> u32 \<Rightarrow> u32 \<Rightarrow> u8" where
  "ws_mask c i key =
     (let j = i mod 4 in
      if j = 0 then c XOR ucast (key AND 0x000000ff)
      else if j = 1 then c XOR ucast (drop_bit 8 (key AND 0x0000ff00))
      else if j = 2 then c XOR ucast (drop_bit 16 (key AND 0x00ff0000))
      else if j = 3 then c XOR ucast (drop_bit 24 (key AND 0xff000000))
      else -1)"

subsection \<open>End of an HTTP header\<close>

fun rnrn_loop :: "u8 list \<Rightarrow> nat \<Rightarrow> nat \<Rightarrow> int outcome" where
  "rnrn_loop m s 0 = Ret 0"
| "rnrn_loop m s (Suc n) =
     obind (mem_get m s) (\<lambda>c0.
     if c0 = CR \<and> 3 \<le> n
     then obind (mem_get m (s + 1)) (\<lambda>c1.
          obind (mem_get m (s + 2)) (\<lambda>c2.
          obind (mem_get m (s + 3)) (\<lambda>c3.
          if c1 = LF \<and> c2 = CR \<and> c3 = LF then Ret 1 else rnrn_loop m (Suc s) n)))
     else rnrn_loop m (Suc s) n)"

definition has_rnrn_termination :: "skb \<Rightarrow> int outcome" where
  "has_rnrn_termination b = rnrn_loop (skb_data b) (unat (rdpos b)) (unat (skb_rdsz b))"

subsection \<open>Timers\<close>

definition has_timed_out :: "timespec \<Rightarrow> timespec \<Rightarrow> int \<Rightarrow> bool" where
  "has_timed_out instant now timeout =
     (let tv_sec_diff = tv_sec now - tv_sec instant;
          tv_nsec_diff = tv_nsec now - tv_nsec instant;
          diff_in_millis = (of_int (tv_sec_diff * 1000) :: u64);
          diff_in_millis = diff_in_millis + of_int (tv_nsec_diff sdiv 1000000)
      in diff_in_millis > of_int timeout)"

definition check_timeout :: "sk \<Rightarrow> timespec \<Rightarrow> int \<Rightarrow> bool" where
  "check_timeout k now timeout =
     (if timeout = -1 then False
      else if sk_closing k \<or> sk_close_flag k \<or> sk_close_on_write k then False
      else if tv_sec (sk_ts_last_io k) = 0 \<and> tv_nsec (sk_ts_last_io k) = 0 then False
      else has_timed_out (sk_ts_last_io k) now timeout)"

subsection \<open>Host rotation\<close>

definition next_host :: "world \<Rightarrow> world" where
  "next_host w =
     (let n = host_num w + 1
      in w\<lparr>host_num := (if n \<ge> ucast (cfg_fhostname_num (wsd_cfg w)) then 0 else n)\<rparr>)"

definition check_errno :: "world \<Rightarrow> int \<times> world" where
  "check_errno w =
     (if sys_errno w \<in> {ECONNREFUSED, EAGAIN, ENETUNREACH, ETIMEDOUT}
      then (0, next_host w) else (-1, w))"

subsection \<open>Socket set-up\<close>

definition zero_skb :: skb where
  "zero_skb = \<lparr>rdpos = 0, wrpos = 0, skb_data = replicate (unat SKB_SIZE) 0\<rparr>"

definition zero_timespec :: timespec where
  "zero_timespec = \<lparr>tv_sec = 0, tv_nsec = 0\<rparr>"

lemma zero_skb_wf: "skb_wf zero_skb \<and> room zero_skb = 1048576 \<and> pending zero_skb = []"
  using skb_of_wf [of "[]"] by (simp add: zero_skb_def skb_of_def)

lemmas zero_skb_simps [simp] =
  zero_skb_wf [THEN conjunct1] zero_skb_wf [THEN conjunct2, THEN conjunct1]
  zero_skb_wf [THEN conjunct2, THEN conjunct2]

text \<open>The socket after \<open>memset(sk, 0, sizeof(sk_t))\<close>.\<close>

definition zero_sk :: sk where
  "zero_sk = \<lparr>sk_fd = 0, sk_hashval = 0, sk_events = 0, sk_sendbuf = zero_skb,
     sk_recvbuf = zero_skb, sk_proto = null_proto, sk_ops = null_ops, sk_retries = 0,
     sk_close_on_write = False, sk_close_flag = False, sk_closing = False,
     sk_ts_last_io = zero_timespec, sk_ts_closing_handshake_start = zero_timespec,
     sk_src_addr = \<lparr>sin_addr = 0, sin_port = 0\<rparr>, sk_dst_addr = \<lparr>sin_addr = 0, sin_port = 0\<rparr>,
     sk_ssl = None\<rparr>"

text \<open>\<open>mem_ok\<close>: whether the four allocations succeed; a caller frees the socket if not.\<close>

definition sk_init :: "bool \<Rightarrow> sk \<Rightarrow> int \<Rightarrow> u64 \<Rightarrow> wsd_err + sk" where
  "sk_init mem_ok k fd hash =
     (if \<not> mem_ok then Inl WSD_ENOMEM
      else Inr (k\<lparr>sk_proto := null_proto,
                  sk_sendbuf := zero_skb, sk_recvbuf := zero_skb,
                  sk_hashval := hash, sk_fd := fd,
                  sk_events := EPOLLIN OR EPOLLPRI OR EPOLLRDHUP,
                  sk_ops := null_ops\<lparr>ops_read := Some Sk_read, ops_write := Some Sk_write\<rparr>\<rparr>))"

text \<open>\<open>sk_destroy(sk); free(sk)\<close>, as every close handler calls it.\<close>

definition sk_destroy :: "world \<Rightarrow> ptr \<Rightarrow> world" where
  "sk_destroy w s = w\<lparr>heap := (heap w)(s := None)\<rparr>"

subsection \<open>Reading and writing\<close>

datatype io_in = Rd_error sys_err | Rd_bytes "u8 list"
datatype io_out = Wr_error sys_err | Wr_accept nat

definition sk_read :: "io_in \<Rightarrow> world \<Rightarrow> ptr \<Rightarrow> (int \<times> world) outcome" where
  "sk_read io w s =
     obind (deref w s) (\<lambda>k.
     obind (guard (0 \<le> sk_fd k)) (\<lambda>_.
     if skb_wrsz (sk_recvbuf k) = 0
     then obind (turn_off_events w s EPOLLIN) (\<lambda>w. Ret (-1, w\<lparr>wsd_errno := WSD_EAGAIN\<rparr>))
     else case io of
       Rd_error e \<Rightarrow> Ret (-1, w\<lparr>wsd_errno := WSD_CHECKERRNO, sys_errno := e\<rparr>)
     | Rd_bytes bs \<Rightarrow>
         let got = take (unat (skb_wrsz (sk_recvbuf k))) bs in
         if got = [] then Ret (-1, w\<lparr>wsd_errno := WSD_CHECKERRNO\<rparr>)
         else obind (skb_put_mem (sk_recvbuf k) got) (\<lambda>b.
              Ret (0, put_sk w s (k\<lparr>sk_recvbuf := b\<rparr>)))))"

definition sk_write :: "io_out \<Rightarrow> world \<Rightarrow> ptr \<Rightarrow> (int \<times> u8 list \<times> world) outcome" where
  "sk_write io w s =
     obind (deref w s) (\<lambda>k.
     if skb_rdsz (sk_sendbuf k) = 0
     then obind (turn_off_events w s EPOLLOUT) (\<lambda>w. Ret (-1, [], w\<lparr>wsd_errno := WSD_EAGAIN\<rparr>))
     else case io of
       Wr_error e \<Rightarrow> Ret (-1, [], w\<lparr>wsd_errno := WSD_CHECKERRNO, sys_errno := e\<rparr>)
     | Wr_accept n \<Rightarrow>
         obind (skb_get_mem (sk_sendbuf k) (min n (unat (skb_rdsz (sk_sendbuf k))))) (\<lambda>(sent, b).
         obind (skb_compact b) (\<lambda>b.
         Ret (0, sent, put_sk w s (k\<lparr>sk_sendbuf := b\<rparr>)))))"

subsection \<open>The interest set\<close>

text \<open>Two worlds with the same lists, table, backend connection, current host and configuration.\<close>

definition same_globals :: "world \<Rightarrow> world \<Rightarrow> bool" where
  "same_globals w w' \<longleftrightarrow> pp2sk w' = pp2sk w \<and> sk_list w' = sk_list w \<and> work_list w' = work_list w
     \<and> sk_hash w' = sk_hash w \<and> wsd_cfg w' = wsd_cfg w \<and> host_num w' = host_num w"

lemma same_globals_refl [simp]: "same_globals w w"
  by (simp add: same_globals_def)

text \<open>The kernel's interest set agrees with the socket's own record of it.\<close>

definition registered :: "world \<Rightarrow> sk \<Rightarrow> bool" where
  "registered w k \<longleftrightarrow> epoll w (sk_fd k) = Some (sk_events k)"

definition set_events :: "world \<Rightarrow> ptr \<Rightarrow> sk \<Rightarrow> u32 \<Rightarrow> world" where
  "set_events w s k ev = (put_sk w s (k\<lparr>sk_events := ev\<rparr>))\<lparr>epoll := (epoll w)(sk_fd k \<mapsto> ev)\<rparr>"

lemma set_events_simps [simp]:
  "heap (set_events w s k ev) = (heap w)(s \<mapsto> k\<lparr>sk_events := ev\<rparr>)"
  "epoll (set_events w s k ev) = (epoll w)(sk_fd k \<mapsto> ev)"
  "pp2sk (set_events w s k ev) = pp2sk w" "sk_list (set_events w s k ev) = sk_list w"
  "work_list (set_events w s k ev) = work_list w" "sk_hash (set_events w s k ev) = sk_hash w"
  "wsd_errno (set_events w s k ev) = wsd_errno w" "wsd_cfg (set_events w s k ev) = wsd_cfg w"
  "host_num (set_events w s k ev) = host_num w"
  by (simp_all add: set_events_def)

lemma turn_off_events_ok:
  "heap w s = Some k \<Longrightarrow> registered w k \<Longrightarrow>
     turn_off_events w s ev = Ret (set_events w s k (sk_events k AND NOT ev))"
  by (simp add: turn_off_events_def registered_def set_events_def Let_def)

lemma turn_on_events_ok:
  "heap w s = Some k \<Longrightarrow> registered w k \<Longrightarrow>
     turn_on_events w s ev = Ret (set_events w s k (sk_events k OR ev))"
  by (simp add: turn_on_events_def registered_def set_events_def Let_def)

text \<open>One bit is either clear, and then turned on, or already set.\<close>

definition single_event :: "u32 \<Rightarrow> bool" where
  "single_event ev \<longleftrightarrow> (\<exists>n < 32. ev = push_bit n 1)"

lemma single_eventD: "single_event ev \<Longrightarrow> e AND ev \<noteq> 0 \<Longrightarrow> e OR ev = e"
proof -
  assume "single_event ev" and ne: "e AND ev \<noteq> 0"
  then obtain n where n: "ev = push_bit n 1" by (auto simp: single_event_def)
  then have "bit e n"
    using ne by (simp add: bit_iff_and_push_bit_not_eq_0)
  then show "e OR ev = e"
    by (intro bit_eqI) (auto simp: n bit_simps)
qed

lemma single_events [simp]: "single_event EPOLLIN" "single_event EPOLLOUT"
  unfolding single_event_def epoll_defs
  by (rule exI [of _ 0]; simp) (rule exI [of _ 2]; simp add: push_bit_eq_mult)

lemma ensure_events_ok:
  assumes "heap w s = Some k" "registered w k" "single_event ev"
  shows "ensure_events w s ev = Ret (set_events w s k (sk_events k OR ev))"
proof (cases "sk_events k AND ev = 0")
  case True
  then show ?thesis
    using assms by (simp add: ensure_events_def turn_on_events_ok)
next
  case False
  then have "sk_events k OR ev = sk_events k"
    using assms(3) by (rule single_eventD [rotated])
  moreover have "(heap w)(s \<mapsto> k) = heap w" "(epoll w)(sk_fd k \<mapsto> sk_events k) = epoll w"
    using assms(1,2) by (auto simp: registered_def)
  ultimately show ?thesis
    using assms(1) False by (simp add: ensure_events_def set_events_def put_sk_def)
qed

subsection \<open>Masking: what section 5.3 of RFC 6455 asks for\<close>

lemma mod4_cases:
  fixes i :: u32
  obtains "i mod 4 = 0" | "i mod 4 = 1" | "i mod 4 = 2" | "i mod 4 = 3"
proof -
  have "unat (i mod 4) < 4"
    by (simp add: unat_mod)
  then have "unat (i mod 4) = unat (0::u32) \<or> unat (i mod 4) = unat (1::u32)
      \<or> unat (i mod 4) = unat (2::u32) \<or> unat (i mod 4) = unat (3::u32)"
    by auto
  then show thesis
    using that by (auto simp only: word_unat_eq_iff)
qed

lemma ws_mask_byte:
  "ws_mask c i key = c XOR le_bytes 4 key ! unat (i mod 4)"
proof -
  have k: "(0x000000ff :: u32) = mask 8" "(0x0000ff00 :: u32) = push_bit 8 (mask 8)"
    "(0x00ff0000 :: u32) = push_bit 16 (mask 8)" "(0xff000000 :: u32) = push_bit 24 (mask 8)"
    by (simp_all add: mask_eq_exp_minus_1)
  show ?thesis
    by (cases i rule: mod4_cases)
      (auto simp: ws_mask_def Let_def k eval_simps intro!: bit_eqI simp: bit_simps)
qed

lemma ws_mask_ws_mask: "ws_mask (ws_mask c i key) i key = c"
  by (simp add: ws_mask_byte xor.assoc)

text \<open>
  \<open>mask\<close> is the transformation of RFC 6455 section 5.3: octet \<open>i\<close> is xored with octet
  \<open>i mod 4\<close> of the masking key in the order in which the key stands in the frame, so
  that applying it twice (\<open>unmask\<close> is the same function) restores the octet.
\<close>

theorem ws_mask_rfc6455:
  "ws_mask c i key = c XOR le_bytes 4 key ! unat (i mod 4) \<and> ws_mask (ws_mask c i key) i key = c"
  by (intro conjI ws_mask_byte ws_mask_ws_mask)

subsection \<open>The end of a header is found exactly\<close>

lemma rnrn_loop_spec:
  assumes "s + n \<le> length m"
  shows "rnrn_loop m s n = Ret (if \<exists>xs ys. take n (drop s m) = xs @ [CR, LF, CR, LF] @ ys then 1 else 0)"
  using assms
proof (induction n arbitrary: s)
  case 0
  then show ?case by simp
next
  case (Suc n)
  let ?t = "take n (drop (Suc s) m)"
  have hd: "take (Suc n) (drop s m) = m ! s # ?t"
    using Suc.prems by (simp add: Cons_nth_drop_Suc [symmetric])
  have split: "(\<exists>xs ys. c # t = xs @ [CR, LF, CR, LF] @ ys) \<longleftrightarrow>
      (c = CR \<and> (\<exists>ys. t = [LF, CR, LF] @ ys)) \<or> (\<exists>xs ys. t = xs @ [CR, LF, CR, LF] @ ys)" for c t
    by (auto simp: Cons_eq_append_conv)
  have pre: "(\<exists>ys. ?t = [LF, CR, LF] @ ys) \<longleftrightarrow>
      3 \<le> n \<and> m ! (s + 1) = LF \<and> m ! (s + 2) = CR \<and> m ! (s + 3) = LF" (is "?L \<longleftrightarrow> ?R")
  proof
    assume ?L
    then obtain ys where ys: "?t = [LF, CR, LF] @ ys" by blast
    have "length ?t = 3 + length ys" unfolding ys by simp
    then have n: "3 \<le> n" by simp
    have t: "?t ! 0 = LF" "?t ! 1 = CR" "?t ! 2 = LF" unfolding ys by simp_all
    have "?t ! j = m ! (s + Suc j)" if "j < 3" for j
      using that n Suc.prems by simp
    from this [of 0] this [of 1] this [of 2] t n show ?R by simp
  next
    assume R: ?R
    then have "?t = take 3 ?t @ drop 3 ?t" by (metis append_take_drop_id)
    moreover have "take 3 ?t = [LF, CR, LF]"
      using R Suc.prems by (intro nth_equalityI) (auto simp: less_Suc_eq numeral_3_eq_3)
    ultimately show ?L by metis
  qed
  have IH: "rnrn_loop m (Suc s) n = Ret (if \<exists>xs ys. ?t = xs @ [CR, LF, CR, LF] @ ys then 1 else 0)"
    using Suc.prems by (intro Suc.IH) simp
  show ?case
    using Suc.prems unfolding hd split pre by (auto simp: IH)
qed

lemma has_rnrn_termination_pending:
  assumes "skb_wf b"
  shows "has_rnrn_termination b =
    Ret (if \<exists>xs ys. pending b = xs @ [CR, LF, CR, LF] @ ys then 1 else 0)"
  unfolding has_rnrn_termination_def pending_def
  using skb_wfD [OF assms] by (intro rnrn_loop_spec) simp

text \<open>
  On every well-formed buffer \<open>has_rnrn_termination\<close> returns, reads inside the array, and
  answers 1 exactly when the unread bytes contain CR LF CR LF.
\<close>

theorem has_rnrn_termination_iff:
  assumes "skb_wf b"
  shows "has_rnrn_termination b =
    Ret (if \<exists>xs ys. pending b = xs @ [CR, LF, CR, LF] @ ys then 1 else 0)"
  using assms by (rule has_rnrn_termination_pending)

theorem has_rnrn_termination_iff_witness:
  "has_rnrn_termination (skb_of [0x47, CR, LF, CR, LF]) = Ret 1"
proof -
  let ?b = "skb_of [0x47, CR, LF, CR, LF]"
  have p: "pending ?b = [0x47] @ [CR, LF, CR, LF] @ []" and wf: "skb_wf ?b"
    by (simp_all add: skb_of_simps)
  have "(\<exists>xs ys. pending ?b = xs @ [CR, LF, CR, LF] @ ys) = True"
    using p by blast
  then show ?thesis
    by (simp only: has_rnrn_termination_iff [OF wf] if_True)
qed

subsection \<open>Trimming\<close>

text \<open>The text a chunk stands for.\<close>

definition chunk_text :: "u8 list \<Rightarrow> chunk \<Rightarrow> u8 list" where
  "chunk_text m chk = (case chunk_p chk of None \<Rightarrow> [] | Some p \<Rightarrow> take (unat (chunk_len chk)) (drop p m))"

lemma trim_tail_spec:
  "p + n \<le> length m \<Longrightarrow>
     trim_tail m p n = Ret (length (dropWhile is_blank (rev (take n (drop p m)))))"
proof (induction n)
  case 0
  then show ?case by simp
next
  case (Suc n)
  have "take (Suc n) (drop p m) = take n (drop p m) @ [m ! (p + n)]"
    using Suc.prems by (simp add: take_Suc_conv_app_nth)
  then show ?case
    using Suc by simp
qed

lemma dropWhile_rev_core:
  assumes "core \<noteq> []" "\<not> P (last core)" "\<forall>x\<in>set trail. P x"
  shows "length (dropWhile P (rev (core @ trail))) = length core"
  using assms(3)
proof (induction trail rule: rev_induct)
  case Nil
  then show ?case using assms(1,2) by (cases core rule: rev_cases) simp_all
next
  case (snoc x xs)
  then show ?case by simp
qed

lemma trim_head_stop:
  "0 < n \<Longrightarrow> p + i < length m \<Longrightarrow> \<not> is_blank (m ! (p + i)) \<Longrightarrow> trim_head m p n i = Ret (p, n)"
  by (cases n) simp_all

lemma trim_core:
  assumes "chunk_p chk = Some p" and "p + unat (chunk_len chk) \<le> length m"
    and t: "chunk_text m chk = lead @ core @ trail"
    and core: "core \<noteq> []" "\<not> is_blank (hd core)" "\<not> is_blank (last core)"
    and trail: "\<forall>c\<in>set trail. is_blank c"
    and lead: "lead = [] \<or> (\<exists>b. lead = [b] \<and> is_blank b \<and> p + 2 < length m \<and> \<not> is_blank (m ! (p + 2)))"
  shows "trim m chk = Ret \<lparr>chunk_p = Some (p + length lead), chunk_len = of_nat (length core)\<rparr>
    \<and> take (length core) (drop (p + length lead) m) = core \<and> unat (of_nat (length core) :: u32) = length core
    \<and> p + length lead + length core \<le> length m"
proof -
  let ?n = "unat (chunk_len chk)"
  have t': "take ?n (drop p m) = lead @ core @ trail"
    using t assms(1) by (simp add: chunk_text_def)
  have len: "?n = length lead + length core + length trail"
    using arg_cong [OF t', of length] assms(2) by simp
  define q where "q = p + length lead"
  define k where "k = length core + length trail"
  have kq: "take k (drop q m) = core @ trail"
  proof -
    have "drop (length lead) (take ?n (drop p m)) = core @ trail"
      unfolding t' by simp
    then show ?thesis
      by (simp add: drop_take len k_def q_def add.commute)
  qed
  have qm: "q + k \<le> length m" "k > 0"
    using assms(2) len core by (auto simp: q_def k_def)
  have qlt: "q < length m"
    using qm by linarith
  have mq: "m ! q = hd core"
  proof -
    have "hd (take k (drop q m)) = m ! q"
      using qm by (simp add: hd_drop_conv_nth)
    then show ?thesis unfolding kq using core by simp
  qed
  have head: "trim_head m p ?n 0 = Ret (q, k)"
    using lead
  proof
    assume l: "lead = []"
    then show ?thesis
      using qlt qm(2) mq core len trim_head_stop [of k q 0 m] by (simp add: q_def k_def)
  next
    assume "\<exists>b. lead = [b] \<and> is_blank b \<and> p + 2 < length m \<and> \<not> is_blank (m ! (p + 2))"
    then obtain b where b: "lead = [b]" "is_blank b" "p + 2 < length m" "\<not> is_blank (m ! (p + 2))"
      by blast
    have "m ! p = b"
      using arg_cong [OF t', of "\<lambda>x. x ! 0"] b assms(2) len by simp
    moreover obtain j where "?n = Suc (Suc j)" "k = Suc j"
      using len b qm(2) by (cases k) (auto simp: k_def)
    ultimately show ?thesis
      using b by (simp add: q_def)
  qed
  have k32: "unat (of_nat (length core) :: u32) = length core"
    using len unat_u32_less [of "chunk_len chk"] by (intro unat_of_nat_u32) simp
  have "trim_tail m q k = Ret (length core)"
    using trim_tail_spec [OF qm(1)] dropWhile_rev_core [OF core(1,3) trail] by (simp only: kq)
  then have "trim m chk = Ret \<lparr>chunk_p = Some q, chunk_len = of_nat (length core)\<rparr>"
    using assms(1) head len core by (auto simp: trim_def unat_eq_0)
  moreover have "take (length core) (drop q m) = core"
    using kq by (metis append_eq_conv_conj k_def le_add1 take_take min.absorb1)
  ultimately show ?thesis
    using k32 qm by (simp add: q_def k_def)
qed

text \<open>
  A header value as the parser cuts it (at most one blank in front, any number behind,
  and a second character that is not blank) is trimmed to exactly its text.
\<close>

theorem trim_removes_blanks:
  assumes "chunk_p chk = Some p" and "p + unat (chunk_len chk) \<le> length m"
    and t: "chunk_text m chk = lead @ core @ trail"
    and core: "core \<noteq> []" "\<not> is_blank (hd core)" "\<not> is_blank (last core)"
    and trail: "\<forall>c\<in>set trail. is_blank c"
    and lead: "lead = [] \<or> (\<exists>b. lead = [b] \<and> is_blank b \<and> p + 2 < length m \<and> \<not> is_blank (m ! (p + 2)))"
  shows "\<exists>chk'. trim m chk = Ret chk' \<and> chunk_text m chk' = core"
  using trim_core [OF assms] by (auto simp: chunk_text_def)

theorem trim_removes_blanks_witness:
  "\<exists>chk'. trim (bytes '' websocket \<newline>'') \<lparr>chunk_p = Some 0, chunk_len = 11\<rparr> = Ret chk'
     \<and> chunk_text (bytes '' websocket \<newline>'') chk' = bytes ''websocket''"
  by (rule trim_removes_blanks [where p = 0 and lead = "[SP]" and trail = "[SP]"])
    (simp_all add: chunk_text_def bytes_def is_blank_def)

text \<open>
  Beyond that case \<open>trim\<close> goes wrong: the index \<open>i\<close> grows together with \<open>chk->p\<close>, so every
  other byte is tested and text behind the first blank is cut off.
\<close>

lemma trim_eats_text:
  "trim (bytes '' a bc'') \<lparr>chunk_p = Some 0, chunk_len = 5\<rparr>
     = Ret \<lparr>chunk_p = Some 2, chunk_len = 3\<rparr>"
  by code_simp

subsection \<open>Timers\<close>

lemma has_timed_out_millis:
  assumes "0 \<le> tv_nsec i" "tv_nsec i < 1000000000" "0 \<le> tv_nsec n" "tv_nsec n < 1000000000"
    and E: "E = (tv_sec n - tv_sec i) * 1000000000 + (tv_nsec n - tv_nsec i)"
    and "0 \<le> E" "E < 2 ^ 62" "0 \<le> t" "t < 2 ^ 31"
  shows "\<exists>M. (has_timed_out i n t \<longleftrightarrow> t < M) \<and> M * 1000000 < E + 1000000 \<and> E < (M + 1) * 1000000"
proof -
  let ?M = "(tv_sec n - tv_sec i) * 1000 + (tv_nsec n - tv_nsec i) sdiv 1000000"
  have q: "(tv_nsec n - tv_nsec i) sdiv 1000000 =
     (if tv_nsec n \<ge> tv_nsec i then (tv_nsec n - tv_nsec i) div 1000000
      else - ((tv_nsec i - tv_nsec n) div 1000000))"
    by (auto simp: signed_divide_int_def sgn_if)
  have M: "0 \<le> ?M" "?M < 2 ^ 63"
    using assms unfolding q by (auto split: if_splits)
  have "has_timed_out i n t \<longleftrightarrow> (of_int t :: u64) < of_int ?M"
    by (simp add: has_timed_out_def Let_def)
  also have "\<dots> \<longleftrightarrow> t < ?M"
    using M assms by (intro of_int_less_u64) simp_all
  finally have "has_timed_out i n t \<longleftrightarrow> t < ?M" .
  moreover have "?M * 1000000 < E + 1000000" and "E < (?M + 1) * 1000000"
    using assms unfolding q by (auto split: if_splits)
  ultimately show ?thesis by blast
qed

text \<open>
  C40: A timer set for \<open>t\<close> milliseconds fires once \<open>t + 1\<close> full milliseconds have passed and
  never before \<open>t\<close> milliseconds have passed, whatever the nanosecond parts are.
\<close>

theorem has_timed_out_bounds:
  assumes "0 \<le> tv_nsec i" "tv_nsec i < 1000000000" "0 \<le> tv_nsec n" "tv_nsec n < 1000000000"
    and "E = (tv_sec n - tv_sec i) * 1000000000 + (tv_nsec n - tv_nsec i)"
    and "0 \<le> E" "E < 2 ^ 62" "0 \<le> t" "t < 2 ^ 31"
  shows "((t + 1) * 1000000 \<le> E \<longrightarrow> has_timed_out i n t)
    \<and> (E \<le> t * 1000000 \<longrightarrow> \<not> has_timed_out i n t)"
  using has_timed_out_millis [OF assms] by auto

theorem has_timed_out_bounds_witness:
  "has_timed_out \<lparr>tv_sec = 10, tv_nsec = 999999999\<rparr> \<lparr>tv_sec = 20, tv_nsec = 0\<rparr> 8000
    \<and> \<not> has_timed_out \<lparr>tv_sec = 10, tv_nsec = 999999999\<rparr> \<lparr>tv_sec = 18, tv_nsec = 999999999\<rparr> 8000"
  using has_timed_out_bounds [of "\<lparr>tv_sec = 10, tv_nsec = 999999999\<rparr>" "\<lparr>tv_sec = 20, tv_nsec = 0\<rparr>" _ 8000]
    has_timed_out_bounds [of "\<lparr>tv_sec = 10, tv_nsec = 999999999\<rparr>" "\<lparr>tv_sec = 18, tv_nsec = 999999999\<rparr>" _ 8000]
  by simp

subsection \<open>Reading and writing keep the byte streams\<close>

lemma room_0_iff: "skb_wrsz b = 0 \<longleftrightarrow> room b = 0"
  by (simp add: room_def unat_eq_0)

lemma rdsz_0_iff: "skb_wf b \<Longrightarrow> skb_rdsz b = 0 \<longleftrightarrow> pending b = []"
  using length_pending [of b] by (metis length_0_conv unat_eq_0)

lemma sk_read_takes:
  assumes "heap w s = Some k" "0 \<le> sk_fd k" "skb_wf (sk_recvbuf k)" "0 < room (sk_recvbuf k)"
    and "bs \<noteq> []"
  shows "\<exists>b. sk_read (Rd_bytes bs) w s = Ret (0, put_sk w s (k\<lparr>sk_recvbuf := b\<rparr>)) \<and> skb_wf b
    \<and> pending b = pending (sk_recvbuf k) @ take (room (sk_recvbuf k)) bs"
proof -
  let ?got = "take (room (sk_recvbuf k)) bs"
  obtain b where "skb_put_mem (sk_recvbuf k) ?got = Ret b" "skb_wf b"
    "pending b = pending (sk_recvbuf k) @ ?got"
    using skbq.push_ok [OF assms(3), of ?got] by auto
  then show ?thesis
    using assms by (auto simp: sk_read_def room_0_iff Let_def simp flip: room_def)
qed

text \<open>
  A read on a socket with free space appends to the unread bytes exactly the bytes that
  the kernel hands over, as many as fit, and changes nothing else.
\<close>

theorem sk_read_appends:
  assumes "heap w s = Some k" "0 \<le> sk_fd k" "skb_wf (sk_recvbuf k)" "0 < room (sk_recvbuf k)"
    and "bs \<noteq> []"
  shows "\<exists>b. sk_read (Rd_bytes bs) w s = Ret (0, put_sk w s (k\<lparr>sk_recvbuf := b\<rparr>)) \<and> skb_wf b
    \<and> pending b = pending (sk_recvbuf k) @ take (room (sk_recvbuf k)) bs"
  using assms by (rule sk_read_takes)

lemma sk_write_sends:
  assumes "heap w s = Some k" "skb_wf (sk_sendbuf k)" "pending (sk_sendbuf k) \<noteq> []"
  shows "\<exists>b. sk_write (Wr_accept n) w s
      = Ret (0, take n (pending (sk_sendbuf k)), put_sk w s (k\<lparr>sk_sendbuf := b\<rparr>))
    \<and> skb_wf b \<and> pending b = drop n (pending (sk_sendbuf k)) \<and> rdpos b = 0"
proof -
  let ?b = "sk_sendbuf k" and ?m = "min n (length (pending (sk_sendbuf k)))"
  obtain b1 where b1: "skb_get_mem ?b ?m = Ret (take ?m (pending ?b), b1)" "skb_wf b1"
    "pending b1 = drop ?m (pending ?b)"
    using skbq.pull_ok [OF assms(2), of ?m] by auto
  obtain b2 where b2: "skb_compact b1 = Ret b2" "skb_wf b2" "pending b2 = pending b1" "rdpos b2 = 0"
    using skb_compact_ok [OF b1(2)] by auto
  have "take ?m (pending ?b) = take n (pending ?b)" "drop ?m (pending ?b) = drop n (pending ?b)"
    by (simp_all add: min_def)
  with b1 b2 assms show ?thesis
    by (intro exI [of _ b2]) (simp add: sk_write_def rdsz_0_iff length_pending [symmetric])
qed

theorem sk_read_appends_witness:
  "\<exists>b. sk_read (Rd_bytes [1, 2]) (put_sk (init_world default_cfg) 7 (zero_sk\<lparr>sk_fd := 5\<rparr>)) 7
      = Ret (0, put_sk (init_world default_cfg) 7 (zero_sk\<lparr>sk_fd := 5, sk_recvbuf := b\<rparr>))
    \<and> pending b = [1, 2]"
proof -
  have "skb_wf zero_skb \<and> room zero_skb = 1048576 \<and> pending zero_skb = []"
    by (rule zero_skb_wf)
  then show ?thesis
    using sk_read_appends [of "put_sk (init_world default_cfg) 7 (zero_sk\<lparr>sk_fd := 5\<rparr>)" 7
      "zero_sk\<lparr>sk_fd := 5\<rparr>" "[1, 2]"]
    by (auto simp: zero_sk_def put_sk_def)
qed

text \<open>
  A write hands a prefix of the unsent bytes to the kernel and keeps the rest, compacted to
  the front of the buffer: no byte is lost, repeated or reordered.
\<close>

theorem sk_write_keeps_stream:
  assumes "heap w s = Some k" "skb_wf (sk_sendbuf k)" "pending (sk_sendbuf k) \<noteq> []"
  shows "\<exists>sent b. sk_write (Wr_accept n) w s = Ret (0, sent, put_sk w s (k\<lparr>sk_sendbuf := b\<rparr>))
    \<and> sent @ pending b = pending (sk_sendbuf k) \<and> length sent = min n (length (pending (sk_sendbuf k)))
    \<and> skb_wf b \<and> rdpos b = 0"
  using sk_write_sends [OF assms, of n] by fastforce

theorem sk_write_keeps_stream_witness:
  "\<exists>sent b. sk_write (Wr_accept 2)
      (put_sk (init_world default_cfg) 7 (zero_sk\<lparr>sk_sendbuf := skb_of [1, 2, 3]\<rparr>)) 7
      = Ret (0, sent, put_sk (init_world default_cfg) 7 (zero_sk\<lparr>sk_sendbuf := b\<rparr>))
    \<and> sent @ pending b = [1, 2, 3] \<and> length sent = 2"
  using sk_write_keeps_stream [of "put_sk (init_world default_cfg) 7 (zero_sk\<lparr>sk_sendbuf := skb_of [1, 2, 3]\<rparr>)" 7
      "zero_sk\<lparr>sk_sendbuf := skb_of [1, 2, 3]\<rparr>" 2]
  by (auto simp: skb_of_simps put_sk_def)

end
