(* ===== verification/Ws.thy ===== *)
theory Ws
  imports Common
begin

text \<open>
  The encoding half of src/ws.c and src/ws.h: the frame header, the payload length in its
  three widths, ping, pong and close frames, data frames to a client, and both sides of the
  closing handshake. Decoding is in theory \<open>Decode\<close>, which also knows the backend connection.

  A function that leaves its buffer alone on an error returns \<open>Inl\<close> of the value it puts in
  \<open>wsd_errno\<close>; a function that returns a number and may set \<open>wsd_errno\<close> takes and returns it.
\<close>

subsection \<open>Header bytes\<close>

definition WS_FRAG_FRAME :: u32 where "WS_FRAG_FRAME = 0x0"
definition WS_TEXT_FRAME :: u32 where "WS_TEXT_FRAME = 0x1"
definition WS_BINARY_FRAME :: u32 where "WS_BINARY_FRAME = 0x2"
definition WS_CLOSE_FRAME :: u32 where "WS_CLOSE_FRAME = 0x8"
definition WS_PING_FRAME :: u32 where "WS_PING_FRAME = 0x9"
definition WS_PONG_FRAME :: u32 where "WS_PONG_FRAME = 0xa"

lemmas opcode_defs = WS_FRAG_FRAME_def WS_TEXT_FRAME_def WS_BINARY_FRAME_def WS_CLOSE_FRAME_def
  WS_PING_FRAME_def WS_PONG_FRAME_def

definition WS_FRAME_STATUS_LEN :: u32 where "WS_FRAME_STATUS_LEN = 2"
definition WS_MASKED_FRAME_LEN :: u32 where "WS_MASKED_FRAME_LEN = 6"
definition WS_UNMASKED_FRAME_LEN :: u32 where "WS_UNMASKED_FRAME_LEN = 2"
definition WS_1000 :: int where "WS_1000 = 1000"
definition WS_1011 :: int where "WS_1011 = 1011"

lemmas ws_len_defs = WS_FRAME_STATUS_LEN_def WS_MASKED_FRAME_LEN_def WS_UNMASKED_FRAME_LEN_def

definition set_fin_bit :: "u8 \<Rightarrow> u8" where
  "set_fin_bit byte = byte OR 0x80"

definition set_opcode :: "u8 \<Rightarrow> u32 \<Rightarrow> u8" where
  "set_opcode byte val = byte OR ucast (0xf AND val)"

definition set_mask_bit :: "u8 \<Rightarrow> u8" where
  "set_mask_bit byte = byte OR 0x80"

definition set_payload_bits :: "u8 \<Rightarrow> u64 \<Rightarrow> u8" where
  "set_payload_bits byte val = byte OR ucast (0x7f AND val)"

definition RSV1_BIT :: "u8 \<Rightarrow> u32" where "RSV1_BIT byte = 0x40 AND ucast byte"
definition RSV2_BIT :: "u8 \<Rightarrow> u32" where "RSV2_BIT byte = 0x20 AND ucast byte"
definition RSV3_BIT :: "u8 \<Rightarrow> u32" where "RSV3_BIT byte = 0x10 AND ucast byte"
definition OPCODE :: "u8 \<Rightarrow> u32" where "OPCODE byte = 0xf AND ucast byte"
definition MASK_BIT :: "u8 \<Rightarrow> u32" where "MASK_BIT byte = drop_bit 7 (0x80 AND ucast byte)"
definition PAYLOAD_LEN :: "u8 \<Rightarrow> u64" where "PAYLOAD_LEN byte = 0x7f AND ucast byte"

lemmas header_bit_defs = set_fin_bit_def set_opcode_def set_mask_bit_def set_payload_bits_def
  RSV1_BIT_def RSV2_BIT_def RSV3_BIT_def OPCODE_def MASK_BIT_def PAYLOAD_LEN_def

subsection \<open>Payload length\<close>

definition ws_calculate_frame_length :: "wsd_err \<Rightarrow> u64 \<Rightarrow> int \<times> wsd_err" where
  "ws_calculate_frame_length e len =
     (if len < 126 then (sint (1 + len), e)
      else if len \<le> 65535 then (sint (2 + len), e)
      else if len \<le> drop_bit 1 (- 1) then (sint (9 + len), e)
      else (-1, WSD_ENUM))"

definition ws_set_payload_len :: "skb \<Rightarrow> u64 \<Rightarrow> u8 \<Rightarrow> (int \<times> skb) outcome" where
  "ws_set_payload_len b len byte2 =
     (if skb_wrsz b < 1 then Ret (-1, b)
      else if len < 126 then
        obind (skb_put8 b (set_payload_bits byte2 len)) (\<lambda>b. Ret (0, b))
      else if len \<le> 65535 then
        obind (skb_put8 b (set_payload_bits byte2 126)) (\<lambda>b.
        if skb_wrsz b < 2 then Ret (-1, b)
        else obind (skb_put16 b (htobe16 (ucast len))) (\<lambda>b. Ret (0, b)))
      else if len \<le> drop_bit 1 (- 1) then
        obind (skb_put8 b (set_payload_bits byte2 127)) (\<lambda>b.
        if skb_wrsz b < 8 then Ret (-1, b)
        else obind (skb_put64 b (htobe64 len)) (\<lambda>b. Ret (0, b)))
      else Ret (-1, b))"

definition ws_decode_payload_len :: "wsd_err \<Rightarrow> skb \<Rightarrow> u8 \<Rightarrow> (u64 \<times> skb \<times> wsd_err) outcome" where
  "ws_decode_payload_len e buf byte2 =
     (if PAYLOAD_LEN byte2 < 126 then Ret (PAYLOAD_LEN byte2, buf, e)
      else if PAYLOAD_LEN byte2 = 126 then
        if skb_rdsz buf < 2 then Ret (-1, buf, WSD_EINPUT)
        else obind (skb_get16 buf) (\<lambda>(k, buf). Ret (ucast (be16toh k), buf, e))
      else if PAYLOAD_LEN byte2 = 127 then
        if skb_rdsz buf < 8 then Ret (-1, buf, WSD_EINPUT)
        else obind (skb_get64 buf) (\<lambda>(k, buf). Ret (be64toh k, buf, e))
      else Ret (-1, buf, WSD_EBADREQ))"

subsection \<open>Control frames\<close>

definition encode_ping_pong_frame :: "skb \<Rightarrow> u32 \<Rightarrow> bool \<Rightarrow> (wsd_err + skb) outcome" where
  "encode_ping_pong_frame dst opcode do_mask =
     (let frame_len = (if do_mask then WS_MASKED_FRAME_LEN else WS_UNMASKED_FRAME_LEN) in
      if frame_len > skb_wrsz dst then Ret (Inl WSD_ENOMEM)
      else
        let wsf = null_wsframe;
            wsf = wsf\<lparr>wsf_payload_len := 0\<rparr>;
            wsf = wsf\<lparr>wsf_byte1 := set_fin_bit (wsf_byte1 wsf)\<rparr>;
            wsf = wsf\<lparr>wsf_byte1 := set_opcode (wsf_byte1 wsf) opcode\<rparr>;
            wsf = (if do_mask
                   then wsf\<lparr>wsf_byte2 := set_mask_bit (wsf_byte2 wsf), wsf_masking_key := 0xcafebabe\<rparr>
                   else wsf)
        in obind (skb_put8 dst (wsf_byte1 wsf)) (\<lambda>dst.
           obind (ws_set_payload_len dst (wsf_payload_len wsf) (wsf_byte2 wsf)) (\<lambda>(rv, dst).
           obind (guard (rv = 0)) (\<lambda>_.
           obind (if do_mask then skb_put32 dst (wsf_masking_key wsf) else Ret dst) (\<lambda>dst.
           Ret (Inr dst))))))"

definition encode_close_frame :: "skb \<Rightarrow> int \<Rightarrow> bool \<Rightarrow> (wsd_err + skb) outcome" where
  "encode_close_frame dst status do_mask =
     (let frame_len = (if do_mask then WS_MASKED_FRAME_LEN else WS_UNMASKED_FRAME_LEN);
          frame_len = frame_len + (if 0 < status then 2 else 0) in
      if frame_len > skb_wrsz dst then Ret (Inl WSD_ENOMEM)
      else
        let wsf = null_wsframe;
            wsf = wsf\<lparr>wsf_payload_len := if 0 < status then 2 else 0\<rparr>;
            wsf = wsf\<lparr>wsf_byte1 := set_fin_bit (wsf_byte1 wsf)\<rparr>;
            wsf = wsf\<lparr>wsf_byte1 := set_opcode (wsf_byte1 wsf) WS_CLOSE_FRAME\<rparr>;
            wsf = (if do_mask
                   then wsf\<lparr>wsf_byte2 := set_mask_bit (wsf_byte2 wsf), wsf_masking_key := 0xcafebabe\<rparr>
                   else wsf)
        in obind (skb_put8 dst (wsf_byte1 wsf)) (\<lambda>dst.
           obind (ws_set_payload_len dst (wsf_payload_len wsf) (wsf_byte2 wsf)) (\<lambda>(rv, dst).
           obind (guard (rv = 0)) (\<lambda>_.
           obind (if do_mask then skb_put32 dst (wsf_masking_key wsf) else Ret dst) (\<lambda>dst.
           obind (if 0 < status then
                    let k = htobe16 (of_int status) in
                    if do_mask
                    then obind (skb_put8 dst (ws_mask (ucast (drop_bit 2 k)) 0 (wsf_masking_key wsf)))
                           (\<lambda>dst. skb_put8 dst (ws_mask (ucast (k AND 0xff)) 1 (wsf_masking_key wsf)))
                    else skb_put16 dst k
                  else Ret dst) (\<lambda>dst.
           Ret (Inr dst)))))))"

text \<open>\<open>ws_ping\<close> and \<open>ws_pong\<close> differ in the opcode only.\<close>

definition ws_send_control :: "u32 \<Rightarrow> world \<Rightarrow> ptr \<Rightarrow> bool \<Rightarrow> (int \<times> world) outcome" where
  "ws_send_control opcode w s do_mask =
     obind (deref w s) (\<lambda>k.
     obind (guard (\<not> sk_closing k)) (\<lambda>_.
     obind (encode_ping_pong_frame (sk_sendbuf k) opcode do_mask) (\<lambda>res.
     case res of
       Inl e \<Rightarrow> Ret (-1, w\<lparr>wsd_errno := e\<rparr>)
     | Inr b \<Rightarrow>
         obind (upd_sk w s (sk_sendbuf_update (\<lambda>_. b))) (\<lambda>w.
         obind (ensure_events w s EPOLLOUT) (\<lambda>w. Ret (0, w))))))"

definition ws_ping :: "world \<Rightarrow> ptr \<Rightarrow> bool \<Rightarrow> (int \<times> world) outcome" where
  "ws_ping = ws_send_control WS_PING_FRAME"

definition ws_pong :: "world \<Rightarrow> ptr \<Rightarrow> bool \<Rightarrow> (int \<times> world) outcome" where
  "ws_pong = ws_send_control WS_PONG_FRAME"

subsection \<open>Closing handshake\<close>

definition ws_start_closing_handshake :: "world \<Rightarrow> ptr \<Rightarrow> int \<Rightarrow> bool \<Rightarrow> (int \<times> world) outcome" where
  "ws_start_closing_handshake w s status do_mask =
     obind (deref w s) (\<lambda>k.
     obind (guard (\<not> sk_closing k)) (\<lambda>_.
     obind (encode_close_frame (sk_sendbuf k) status do_mask) (\<lambda>res.
     case res of
       Inl e \<Rightarrow> Ret (-1, w\<lparr>wsd_errno := e\<rparr>)
     | Inr b \<Rightarrow>
         obind (upd_sk w s (\<lambda>k. k\<lparr>sk_sendbuf := b, sk_closing := True\<rparr>)) (\<lambda>w.
         obind (ensure_events w s EPOLLOUT) (\<lambda>w. Ret (0, w))))))"

definition ws_finish_closing_handshake ::
  "world \<Rightarrow> ptr \<Rightarrow> bool \<Rightarrow> u64 \<Rightarrow> (int \<times> world) outcome" where
  "ws_finish_closing_handshake w s do_mask len =
     obind (deref w s) (\<lambda>k.
     if sk_closing k
     then Ret (0, put_sk w s (k\<lparr>sk_recvbuf := skb_reset (sk_recvbuf k), sk_closing := False,
                                 sk_close_flag := True\<rparr>))
     else
       obind (if ucast WS_FRAME_STATUS_LEN \<le> len \<and> WS_FRAME_STATUS_LEN \<le> skb_wrsz (sk_sendbuf k)
              then obind (skb_get16 (sk_recvbuf k)) (\<lambda>(status, b). Ret (be16toh status, b))
              else Ret (0, sk_recvbuf k)) (\<lambda>(status, rb).
       obind (encode_close_frame (sk_sendbuf k) (uint status) do_mask) (\<lambda>res.
       case res of
         Inl e \<Rightarrow> Ret (-1, (put_sk w s (k\<lparr>sk_recvbuf := skb_reset rb\<rparr>))\<lparr>wsd_errno := e\<rparr>)
       | Inr b \<Rightarrow> Ret (0, put_sk w s (k\<lparr>sk_sendbuf := b, sk_close_on_write := True,
                                          sk_closing := True, sk_recvbuf := skb_reset rb\<rparr>)))))"

subsection \<open>Data frames to a client\<close>

definition ws_encode_frame :: "world \<Rightarrow> ptr \<Rightarrow> wsframe \<Rightarrow> (int \<times> world) outcome" where
  "ws_encode_frame w s wsf =
     (let (frame_len, e) = ws_calculate_frame_length (wsd_errno w) (wsf_payload_len wsf);
          w = w\<lparr>wsd_errno := e\<rparr> in
      obind (guard (0 < frame_len)) (\<lambda>_.
      obind (deref w s) (\<lambda>k.
      if uint (skb_wrsz (sk_sendbuf k)) < frame_len then Ret (-1, w\<lparr>wsd_errno := WSD_EAGAIN\<rparr>)
      else
        let wsf = wsf\<lparr>wsf_byte1 := set_fin_bit (wsf_byte1 wsf)\<rparr>;
            wsf = wsf\<lparr>wsf_byte1 := set_opcode (wsf_byte1 wsf) WS_TEXT_FRAME\<rparr> in
        obind (skb_put8 (sk_sendbuf k) (wsf_byte1 wsf)) (\<lambda>b.
        obind (ws_set_payload_len b (wsf_payload_len wsf) 0) (\<lambda>(rv, b).
        obind (guard (rv = 0)) (\<lambda>_.
        obind (deref_global (pp2sk w)) (\<lambda>p.
        obind (deref w p) (\<lambda>pk.
        obind (skb_move (\<lambda>c _. c) (unat (wsf_payload_len wsf)) b (sk_recvbuf pk)) (\<lambda>(b, r).
        obind (skb_compact r) (\<lambda>r.
        obind (upd_sk w s (sk_sendbuf_update (\<lambda>_. b))) (\<lambda>w.
        obind (upd_sk w p (sk_recvbuf_update (\<lambda>_. r))) (\<lambda>w.
        obind (ensure_events w s EPOLLOUT) (\<lambda>w.
        obind (deref w p) (\<lambda>pk.
        obind (if sk_events pk AND EPOLLIN = 0 then turn_on_events w s EPOLLIN else Ret w) (\<lambda>w.
        Ret (0, w))))))))))))))))"

subsection \<open>The bytes of a header\<close>

text \<open>Section 5.2 of RFC 6455: the second header byte with the payload length behind it.\<close>

definition ws_len_bytes :: "u64 \<Rightarrow> u8 \<Rightarrow> u8 list" where
  "ws_len_bytes len byte2 =
     (if len < 126 then [byte2 OR ucast len]
      else if len \<le> 65535 then (byte2 OR 126) # rev (le_bytes 2 (ucast len :: u16))
      else (byte2 OR 127) # rev (le_bytes 8 len))"

lemma length_ws_len_bytes:
  "length (ws_len_bytes len byte2) = (if len < 126 then 1 else if len \<le> 65535 then 3 else 9)"
  by (simp add: ws_len_bytes_def)

lemma mask7: "(0x7f :: 'a::len word) = mask 7" if "7 < LENGTH('a)"
  by (simp add: mask_eq_exp_minus_1)

lemma set_payload_bits_simps:
  "len < 126 \<Longrightarrow> set_payload_bits byte2 len = byte2 OR ucast len"
  "set_payload_bits byte2 126 = byte2 OR 126" "set_payload_bits byte2 127 = byte2 OR 127"
proof -
  assume "len < 126"
  then have "len < 2 ^ 7"
    by (simp add: word_less_nat_alt)
  from less_mask_eq [OF this] show "set_payload_bits byte2 len = byte2 OR ucast len"
    by (simp add: set_payload_bits_def mask7 and.commute [of "mask 7"])
qed (simp_all add: set_payload_bits_def)

lemma room_less_iff:
  "skb_wrsz b < 1 \<longleftrightarrow> room b < 1" "skb_wrsz b < 2 \<longleftrightarrow> room b < 2" "skb_wrsz b < 4 \<longleftrightarrow> room b < 4"
  "skb_wrsz b < 6 \<longleftrightarrow> room b < 6" "skb_wrsz b < 8 \<longleftrightarrow> room b < 8"
  by (simp_all add: room_def word_less_nat_alt)

lemma push_then:
  assumes "skb_wf b" "length xs \<le> room b" "\<And>b'. room b' = room b - length xs \<Longrightarrow> ok b'"
  shows "obind (skb_put_mem b xs) (\<lambda>b'. if \<not> ok b' then e b' else obind (skb_put_mem b' ys) f)
    = obind (skb_put_mem b (xs @ ys)) f"
proof -
  obtain b' where b': "skb_put_mem b xs = Ret b'" "room b' = room b - length xs"
    using skbq.push_ok [OF assms(1,2)] by blast
  then show ?thesis
    using skbq.push_push [OF assms(1), of xs ys f] assms(3) [of b'] by simp
qed

lemma ws_set_payload_len_put:
  assumes wf: "skb_wf b" and len: "len < 2 ^ 63" and rm: "length (ws_len_bytes len byte2) \<le> room b"
  shows "ws_set_payload_len b len byte2 =
    obind (skb_put_mem b (ws_len_bytes len byte2)) (\<lambda>b. Ret (0, b))"
proof -
  have "drop_bit 1 (-1) = (0x7fffffffffffffff :: u64)"
    by code_simp
  then have le: "len \<le> drop_bit 1 (-1)"
    using len by (simp only:) (simp add: word_le_nat_alt word_less_nat_alt)
  have put2: "obind (skb_put_mem b [c]) (\<lambda>b'. if room b' < n then e b' else obind (skb_put_mem b' ys) f)
      = obind (skb_put_mem b ([c] @ ys)) f" if "n < room b" for c n e f ys
    using push_then [OF wf, of "[c]" "\<lambda>b'. \<not> room b' < n" e ys f] that by simp
  consider "len < 126" | "\<not> len < 126" "len \<le> 65535" | "\<not> len < 126" "\<not> len \<le> 65535"
    by blast
  then show ?thesis
  proof cases
    case 1
    then show ?thesis
      using rm by (simp add: ws_set_payload_len_def ws_len_bytes_def room_less_iff room_0_iff skb_put8_def
          set_payload_bits_simps)
  next
    case 2
    then show ?thesis
      using rm by (simp add: ws_set_payload_len_def ws_len_bytes_def room_less_iff room_0_iff skb_put8_def
          skb_put16_def set_payload_bits_simps put2 le_bytes_htobe16 cong del: if_weak_cong)
  next
    case 3
    then show ?thesis
      using rm le by (simp add: ws_set_payload_len_def ws_len_bytes_def room_less_iff room_0_iff skb_put8_def
          skb_put64_def set_payload_bits_simps put2 le_bytes_htobe64 cong del: if_weak_cong)
  qed
qed

lemma put_then_len:
  assumes wf: "skb_wf b" and len: "len < 2 ^ 63"
    and rm: "length xs + length (ws_len_bytes len byte2) \<le> room b"
  shows "obind (skb_put_mem b xs) (\<lambda>b. obind (ws_set_payload_len b len byte2) f)
    = obind (skb_put_mem b (xs @ ws_len_bytes len byte2)) (\<lambda>b. f (0, b))"
proof -
  obtain b' where b': "skb_put_mem b xs = Ret b'" "skb_wf b'" "room b' = room b - length xs"
    using skbq.push_ok [OF wf, of xs] rm by auto
  then show ?thesis
    using skbq.push_push [OF wf, of xs "ws_len_bytes len byte2" "\<lambda>b. f (0, b)"] rm len
    by (simp add: ws_set_payload_len_put obind_assoc)
qed

lemma put_then_put32:
  "skb_wf b \<Longrightarrow> obind (skb_put_mem b xs) (\<lambda>b. obind (skb_put32 b x) f)
    = obind (skb_put_mem b (xs @ le_bytes 4 x)) f"
  by (simp add: skb_put32_def skbq.push_push)

text \<open>A frame without payload, and a close frame, as the encoders lay them out.\<close>

definition ws_mask_part :: "bool \<Rightarrow> u8 list" where
  "ws_mask_part do_mask = (if do_mask then [0xbe, 0xba, 0xfe, 0xca] else [])"

definition ws_control :: "u32 \<Rightarrow> bool \<Rightarrow> u8 list" where
  "ws_control opcode do_mask =
     [0x80 OR ucast (0xf AND opcode), if do_mask then 0x80 else 0] @ ws_mask_part do_mask"

definition ws_close_bytes :: "int \<Rightarrow> bool \<Rightarrow> u8 list" where
  "ws_close_bytes status do_mask =
     [0x88, (if do_mask then 0x80 else 0) OR (if 0 < status then 2 else 0)] @ ws_mask_part do_mask
     @ (if 0 < status then
          let k = htobe16 (of_int status) in
          if do_mask then [ws_mask (ucast (drop_bit 2 k)) 0 0xcafebabe, ws_mask (ucast (k AND 0xff)) 1 0xcafebabe]
          else rev (le_bytes 2 (of_int status :: u16))
        else [])"

lemma ws_mask_part_bytes: "le_bytes 4 (0xcafebabe :: u32) = [0xbe, 0xba, 0xfe, 0xca]"
  by code_simp

lemma encode_ping_pong_frame_put:
  assumes wf: "skb_wf dst"
  shows "encode_ping_pong_frame dst opcode do_mask =
    (if room dst < length (ws_control opcode do_mask) then Ret (Inl WSD_ENOMEM)
     else obind (skb_put_mem dst (ws_control opcode do_mask)) (\<lambda>b. Ret (Inr b)))"
  using wf
  by (simp add: encode_ping_pong_frame_def Let_def ws_len_defs room_less_iff skb_put8_def put_then_len
      ws_control_def ws_mask_part_def null_wsframe_def header_bit_defs ws_len_bytes_def 
      put_then_put32 ws_mask_part_bytes cong del: if_weak_cong)

lemma encode_close_frame_put:
  assumes wf: "skb_wf dst"
  shows "encode_close_frame dst status do_mask =
    (if room dst < length (ws_close_bytes status do_mask) then Ret (Inl WSD_ENOMEM)
     else obind (skb_put_mem dst (ws_close_bytes status do_mask)) (\<lambda>b. Ret (Inr b)))"
  using wf
  by (simp add: encode_close_frame_def Let_def ws_len_defs room_less_iff skb_put8_def put_then_len
      ws_close_bytes_def ws_mask_part_def null_wsframe_def header_bit_defs ws_len_bytes_def opcode_defs
      put_then_put32 ws_mask_part_bytes
      obind_assoc skbq.push_push skb_put16_def le_bytes_htobe16 cong del: if_weak_cong)
subsection \<open>Decoding the payload length\<close>

lemma PAYLOAD_LEN_or:
  assumes "0x7f AND mb = (0 :: u8)" and "n < 128"
  shows "PAYLOAD_LEN (mb OR ucast (n :: u64)) = n"
proof (rule bit_word_eqI)
  fix k assume "k < LENGTH(64)"
  have "\<not> bit mb k" if "k < 7"
  proof -
    have "bit (0x7f AND mb) k \<longleftrightarrow> bit mb k"
      using that by (simp add: mask7 bit_simps)
    then show ?thesis using assms(1) by simp
  qed
  moreover have "n AND mask 7 = n"
    using assms(2) by (intro less_mask_eq) simp
  then have "bit n k \<longleftrightarrow> k < 7 \<and> bit n k"
    by (metis bit_and_iff bit_mask_iff)
  ultimately show "bit (PAYLOAD_LEN (mb OR ucast n)) k \<longleftrightarrow> bit n k"
    by (auto simp: PAYLOAD_LEN_def mask7 bit_simps)
qed

lemma be16toh_of_le: "length bs = 2 \<Longrightarrow> be16toh (of_le bs) = of_le (rev bs)"
  by (simp add: be16toh_def le_bytes_of_le)

lemma be64toh_of_le: "length bs = 8 \<Longrightarrow> be64toh (of_le bs) = of_le (rev bs)"
  by (simp add: be64toh_def le_bytes_of_le)

lemma ucast16_small: "(n :: u64) \<le> 65535 \<Longrightarrow> ucast (ucast n :: u16) = n"
  by (simp add: word_unat_eq_iff word_le_nat_alt take_bit_nat_eq_self unsigned_ucast_eq unsigned_take_bit_eq)

lemma skb_get_mem_0: "skb_wf b \<Longrightarrow> skb_get_mem b 0 = Ret ([], b)"
  using skb_wfD [of b] by (simp add: skb_get_mem_def)

lemma skb_get_some:
  assumes "skb_wf b" "pending b = bs @ rest" 
  obtains b' where "skb_get_mem b (length bs) = Ret (bs, b')" "skb_wf b'" "pending b' = rest"
    "room b' = room b"
  using skbq.pull_ok [OF assms(1), of "length bs"] assms(2) that by auto

lemma rdsz_less_iff:
  assumes "skb_wf b"
  shows "skb_rdsz b < 2 \<longleftrightarrow> length (pending b) < 2" "skb_rdsz b < 4 \<longleftrightarrow> length (pending b) < 4"
    "skb_rdsz b < 6 \<longleftrightarrow> length (pending b) < 6" "skb_rdsz b < 8 \<longleftrightarrow> length (pending b) < 8"
  by (simp_all add: length_pending [OF assms] word_less_nat_alt)

lemma ws_decode_payload_len_ok:
  assumes wf: "skb_wf b" and len: "len < 2 ^ 63" and mb: "0x7f AND mb = (0 :: u8)"
    and p: "ws_len_bytes len mb = x # t" "pending b = t @ rest"
  obtains b' where "ws_decode_payload_len e b x = Ret (len, b', e)" "skb_wf b'"
    "pending b' = rest" "room b' = room b"
proof -
  obtain b' where b': "skb_get_mem b (length t) = Ret (t, b')" "skb_wf b'" "pending b' = rest"
    "room b' = room b"
    using skb_get_some [OF wf p(2)] .
  have P: "PAYLOAD_LEN (mb OR 126) = 126" "PAYLOAD_LEN (mb OR 127) = 127"
    using PAYLOAD_LEN_or [OF mb, of 126] PAYLOAD_LEN_or [OF mb, of 127] by simp_all
  consider "len < 126" | "\<not> len < 126" "len \<le> 65535" | "\<not> len < 126" "\<not> len \<le> 65535"
    by blast
  then have "ws_decode_payload_len e b x = Ret (len, b', e)"
  proof cases
    case 1
    then have x: "x = mb OR ucast len" "t = []" and "len < 128"
      using p(1) by (auto simp: ws_len_bytes_def intro: order.strict_trans)
    then have "PAYLOAD_LEN x = len" "b' = b"
      using PAYLOAD_LEN_or [OF mb] b'(1) skb_get_mem_0 [OF wf] by simp_all
    then show ?thesis
      using 1 by (simp add: ws_decode_payload_len_def)
  next
    case 2
    then have x: "PAYLOAD_LEN x = 126" "t = rev (le_bytes 2 (ucast len :: u16))"
      using p(1) P by (auto simp: ws_len_bytes_def)
    then show ?thesis
      using 2 p(2) b'(1) by (simp add: ws_decode_payload_len_def rdsz_less_iff [OF wf] skb_get16_def
          be16toh_of_le ucast16_small)
  next
    case 3
    then have x: "PAYLOAD_LEN x = 127" "t = rev (le_bytes 8 len)"
      using p(1) P by (auto simp: ws_len_bytes_def)
    then show ?thesis
      using p(2) b'(1) by (simp add: ws_decode_payload_len_def rdsz_less_iff [OF wf] skb_get64_def
          be64toh_of_le)
  qed
  then show ?thesis using b' that by blast
qed

subsection \<open>Round trip of the payload length\<close>

text \<open>
  C33: The payload length survives the wire in each of its three widths (7, 16 and 64 bits, in
  network byte order): decoding what was encoded gives the length back, keeps the mask bit,
  and consumes exactly the 1, 3 or 9 bytes written.
\<close>

theorem ws_payload_len_roundtrip:
  assumes "skb_wf b" "pending b = []" "len < 2 ^ 63" "0x7f AND byte2 = (0 :: u8)"
    and "length (ws_len_bytes len byte2) \<le> room b"
  shows "\<exists>b1 x b2 b3. ws_set_payload_len b len byte2 = Ret (0, b1)
    \<and> length (pending b1) = (if len < 126 then 1 else if len \<le> 65535 then 3 else 9)
    \<and> skb_get8 b1 = Ret (x, b2) \<and> ws_decode_payload_len e b2 x = Ret (len, b3, e) \<and> pending b3 = []"
proof -
  obtain x t where xt: "ws_len_bytes len byte2 = x # t"
    by (cases "ws_len_bytes len byte2") (auto simp: ws_len_bytes_def split: if_splits)
  obtain b1 where b1: "skb_put_mem b (x # t) = Ret b1" "skb_wf b1" "pending b1 = [x] @ t"
    using skbq.push_ok [of b "x # t"] assms xt by auto
  obtain b2 where b2: "skb_get_mem b1 1 = Ret ([x], b2)" "skb_wf b2" "pending b2 = t @ []"
    using skb_get_some [OF b1(2,3)] by auto
  obtain b3 where b3: "ws_decode_payload_len e b2 x = Ret (len, b3, e)" "pending b3 = []"
    using ws_decode_payload_len_ok [OF b2(2) assms(3,4) xt b2(3)] by blast
  show ?thesis
    using b1 b2 b3 xt assms length_ws_len_bytes [of len byte2]
    by (simp add: ws_set_payload_len_put skb_get8_def)
qed

theorem ws_payload_len_roundtrip_witness:
  "\<exists>b1 x b2 b3. ws_set_payload_len (skb_of []) 70000 0x80 = Ret (0, b1) \<and> length (pending b1) = 9
    \<and> skb_get8 b1 = Ret (x, b2) \<and> ws_decode_payload_len WSD_EINPUT b2 x = Ret (70000, b3, WSD_EINPUT)
    \<and> pending b3 = []"
  using ws_payload_len_roundtrip [of "skb_of []" 70000 "0x80" WSD_EINPUT]
  by (simp add: skb_of_simps ws_len_bytes_def)

subsection \<open>Live sockets\<close>

definition live :: "world \<Rightarrow> ptr \<Rightarrow> sk \<Rightarrow> bool" where
  "live w s k \<longleftrightarrow> heap w s = Some k \<and> registered w k \<and> skb_wf (sk_sendbuf k) \<and> skb_wf (sk_recvbuf k)"

lemma liveD:
  assumes "live w s k"
  shows "heap w s = Some k" "registered w k" "skb_wf (sk_sendbuf k)" "skb_wf (sk_recvbuf k)"
  using assms by (simp_all add: live_def)

text \<open>Putting bytes into the send buffer and asking for EPOLLOUT, the common end of every encoder.\<close>

lemma send_and_ask:
  assumes "heap w s = Some k" "registered w k" "sk_fd k' = sk_fd k" "sk_events k' = sk_events k"
  shows "obind (upd_sk w s (\<lambda>_. k')) (\<lambda>w. obind (ensure_events w s EPOLLOUT) (\<lambda>w. Ret (0, w)))
    = Ret (0, set_events (put_sk w s k') s k' (sk_events k OR EPOLLOUT))"
  using assms by (simp add: ensure_events_ok [where k = k'] registered_def)

lemma ws_send_control_cases:
  assumes live: "live w s k"
  shows "sk_closing k \<Longrightarrow> ws_send_control op w s do_mask = Exit"
    "\<not> sk_closing k \<Longrightarrow> room (sk_sendbuf k) < length (ws_control op do_mask) \<Longrightarrow>
       ws_send_control op w s do_mask = Ret (-1, w\<lparr>wsd_errno := WSD_ENOMEM\<rparr>)"
    "\<not> sk_closing k \<Longrightarrow> length (ws_control op do_mask) \<le> room (sk_sendbuf k) \<Longrightarrow>
       \<exists>b. skb_wf b \<and> pending b = pending (sk_sendbuf k) @ ws_control op do_mask
         \<and> ws_send_control op w s do_mask =
             Ret (0, set_events (put_sk w s (k\<lparr>sk_sendbuf := b\<rparr>)) s (k\<lparr>sk_sendbuf := b\<rparr>)
                       (sk_events k OR EPOLLOUT))"
proof -
  note L = liveD [OF live]
  show "sk_closing k \<Longrightarrow> ws_send_control op w s do_mask = Exit"
    using L by (simp add: ws_send_control_def)
  show "\<not> sk_closing k \<Longrightarrow> room (sk_sendbuf k) < length (ws_control op do_mask) \<Longrightarrow>
       ws_send_control op w s do_mask = Ret (-1, w\<lparr>wsd_errno := WSD_ENOMEM\<rparr>)"
    using L by (simp add: ws_send_control_def encode_ping_pong_frame_put)
  assume c: "\<not> sk_closing k" and rm: "length (ws_control op do_mask) \<le> room (sk_sendbuf k)"
  obtain b where b: "skb_put_mem (sk_sendbuf k) (ws_control op do_mask) = Ret b" "skb_wf b"
    "pending b = pending (sk_sendbuf k) @ ws_control op do_mask"
    using skbq.push_ok [OF L(3) rm] by blast
  show "\<exists>b. skb_wf b \<and> pending b = pending (sk_sendbuf k) @ ws_control op do_mask
         \<and> ws_send_control op w s do_mask =
             Ret (0, set_events (put_sk w s (k\<lparr>sk_sendbuf := b\<rparr>)) s (k\<lparr>sk_sendbuf := b\<rparr>)
                       (sk_events k OR EPOLLOUT))"
    using L c rm b send_and_ask [of w s k "k\<lparr>sk_sendbuf := b\<rparr>"]
    by (intro exI [of _ b]) (simp add: ws_send_control_def encode_ping_pong_frame_put not_less)
qed

subsection \<open>Ping and pong\<close>

text \<open>
  C32: Ping and pong frames. A socket whose closing handshake runs must not send them: the
  process exits. Otherwise exactly the two header bytes (and the masking key, if any) are
  appended to the send buffer and EPOLLOUT is asked for; when they do not fit the call fails
  with WSD_ENOMEM and changes nothing else.
\<close>

theorem ws_ping_pong_frames:
  assumes "live w s k"
  shows "if sk_closing k then ws_ping w s do_mask = Exit \<and> ws_pong w s do_mask = Exit
    else if room (sk_sendbuf k) < (if do_mask then 6 else 2)
    then ws_ping w s do_mask = Ret (-1, w\<lparr>wsd_errno := WSD_ENOMEM\<rparr>)
      \<and> ws_pong w s do_mask = Ret (-1, w\<lparr>wsd_errno := WSD_ENOMEM\<rparr>)
    else (\<forall>(f, opcode) \<in> {(ws_ping, 0x89), (ws_pong, 0x8a)}. \<exists>w' k'. f w s do_mask = Ret (0, w')
      \<and> live w' s k' \<and> sk_events k' = sk_events k OR EPOLLOUT \<and> heap w' = (heap w)(s \<mapsto> k')
      \<and> pending (sk_sendbuf k') = pending (sk_sendbuf k)
          @ (if do_mask then [opcode, 0x80, 0xbe, 0xba, 0xfe, 0xca] else [opcode, 0]))"
proof -
  have len: "length (ws_control op do_mask) = (if do_mask then 6 else 2)" for op
    by (simp add: ws_control_def ws_mask_part_def)
  have bytes: "ws_control WS_PING_FRAME do_mask = (if do_mask then [0x89, 0x80, 0xbe, 0xba, 0xfe, 0xca] else [0x89, 0])"
    "ws_control WS_PONG_FRAME do_mask = (if do_mask then [0x8a, 0x80, 0xbe, 0xba, 0xfe, 0xca] else [0x8a, 0])"
    by (simp_all add: ws_control_def ws_mask_part_def opcode_defs)
  have sent: "\<exists>w' k'. ws_send_control op w s do_mask = Ret (0, w') \<and> live w' s k'
      \<and> sk_events k' = sk_events k OR EPOLLOUT \<and> heap w' = (heap w)(s \<mapsto> k')
      \<and> pending (sk_sendbuf k') = pending (sk_sendbuf k) @ ws_control op do_mask"
    if "\<not> sk_closing k" "\<not> room (sk_sendbuf k) < (if do_mask then 6 else 2)" for op
    using ws_send_control_cases(3) [OF assms, of op do_mask] that liveD [OF assms]
    by (auto simp: len live_def registered_def)
  show ?thesis
    using ws_send_control_cases(1,2) [OF assms, of _ do_mask] sent [of WS_PING_FRAME] sent [of WS_PONG_FRAME]
    unfolding ws_ping_def ws_pong_def bytes len by auto
qed

definition demo_sk :: sk where
  "demo_sk = zero_sk\<lparr>sk_fd := 7, sk_events := EPOLLIN\<rparr>"

definition demo_world :: world where
  "demo_world = (init_world default_cfg)\<lparr>heap := [1 \<mapsto> demo_sk], epoll := [7 \<mapsto> EPOLLIN]\<rparr>"

lemma demo_live: "live demo_world 1 demo_sk"
  by (simp add: demo_world_def demo_sk_def live_def registered_def zero_sk_def)

theorem ws_ping_pong_frames_witness:
  "\<exists>w'. ws_pong demo_world 1 False = Ret (0, w') \<and> pending (sk_sendbuf (the (heap w' 1))) = [0x8a, 0]"
proof -
  have "\<not> sk_closing demo_sk" "room (sk_sendbuf demo_sk) = 1048576" "pending (sk_sendbuf demo_sk) = []"
    by (simp_all add: demo_sk_def zero_sk_def)
  then show ?thesis
    using ws_ping_pong_frames [OF demo_live, of False] by auto
qed

subsection \<open>The closing handshake\<close>

lemma length_ws_close_bytes:
  "length (ws_close_bytes status do_mask) = (if do_mask then 6 else 2) + (if 0 < status then 2 else 0)"
  by (simp add: ws_close_bytes_def ws_mask_part_def Let_def)

lemma rev_le_bytes2: "rev (le_bytes 2 (w :: u16)) = [ucast (drop_bit 8 w), ucast w]"
  by (simp add: eval_simps numeral_2_eq_2)

lemma close_frame_ok:
  assumes "skb_wf b" "length (ws_close_bytes status do_mask) \<le> room b"
  obtains b' where "encode_close_frame b status do_mask = Ret (Inr b')" "skb_wf b'"
    "pending b' = pending b @ ws_close_bytes status do_mask"
  using skbq.push_ok [OF assms] assms by (auto simp: encode_close_frame_put)

lemma close_frame_no_room:
  "skb_wf b \<Longrightarrow> room b < length (ws_close_bytes status do_mask) \<Longrightarrow>
     encode_close_frame b status do_mask = Ret (Inl WSD_ENOMEM)"
  by (simp add: encode_close_frame_put)

text \<open>
  A close frame: a status code is two bytes, the high one first. In a masked frame the program
  sends other bytes (src/ws.c:367, see \<open>masked_close_status\<close>): under the mask stand the bits
  \<open>k >> 2\<close> of the swapped status, and then its high byte.
\<close>

definition close_text :: "bool \<Rightarrow> (u8 \<times> u8) option \<Rightarrow> u8 list" where
  "close_text do_mask st =
     (if do_mask
      then (case st of None \<Rightarrow> [0x88, 0x80, 0xbe, 0xba, 0xfe, 0xca]
        | Some (s1, s2) \<Rightarrow> [0x88, 0x82, 0xbe, 0xba, 0xfe, 0xca,
            (drop_bit 2 s1 OR push_bit 6 s2) XOR 0xbe, s1 XOR 0xba])
      else (case st of None \<Rightarrow> [0x88, 0] | Some (s1, s2) \<Rightarrow> [0x88, 2, s1, s2]))"

definition status_bytes :: "u16 \<Rightarrow> u8 \<times> u8" where
  "status_bytes st = (ucast (drop_bit 8 st), ucast st)"

lemma htobe16_bytes:
  "htobe16 st = ucast (fst (status_bytes st)) OR push_bit 8 (ucast (snd (status_bytes st)))"
proof -
  have "htobe16 st = of_le [fst (status_bytes st), snd (status_bytes st)]"
    by (simp only: htobe16_def rev_le_bytes2 status_bytes_def fst_conv snd_conv)
  then show ?thesis
    by (simp add: of_le.simps)
qed

lemma masked_status:
  "(ucast (drop_bit 2 (htobe16 st)) :: u8) = drop_bit 2 (fst (status_bytes st)) OR push_bit 6 (snd (status_bytes st))"
  "(ucast (htobe16 st AND 0xff) :: u8) = fst (status_bytes st)"
proof -
  have ff: "(0xff :: u16) = mask 8"
    by (simp add: mask_eq_exp_minus_1)
  show "(ucast (drop_bit 2 (htobe16 st)) :: u8) = drop_bit 2 (fst (status_bytes st)) OR push_bit 6 (snd (status_bytes st))"
    "(ucast (htobe16 st AND 0xff) :: u8) = fst (status_bytes st)"
    unfolding htobe16_bytes ff
    by (rule bit_word_eqI; auto simp: bit_simps dest: bit_imp_le_length)+
qed

lemma ws_close_bytes_text:
  "ws_close_bytes status do_mask
    = close_text do_mask (if 0 < status then Some (status_bytes (of_int status)) else None)"
  by (simp add: ws_close_bytes_def close_text_def ws_mask_part_def rev_le_bytes2 masked_status ws_mask_def Let_def
      status_bytes_def split_beta)

text \<open>
  C27: Starting the closing handshake, masked or not: a close frame with the status (none unless
  it is positive) is appended, the socket is marked as closing and EPOLLOUT is asked for; when
  it does not fit nothing but \<open>wsd_errno\<close> changes, and a second start makes the process exit. The
  status stands in network byte order in the unmasked frame only: the masked frame of wscat
  carries the wrong bytes that \<open>close_text\<close> spells out.
\<close>

theorem ws_start_closing_handshake_sends:
  assumes live: "live w s k"
    and frame: "frame = close_text do_mask (if 0 < status then Some (status_bytes (of_int status)) else None)"
  shows "if sk_closing k then ws_start_closing_handshake w s status do_mask = Exit
    else if room (sk_sendbuf k) < length frame
    then ws_start_closing_handshake w s status do_mask = Ret (-1, w\<lparr>wsd_errno := WSD_ENOMEM\<rparr>)
    else (\<exists>w' k'. ws_start_closing_handshake w s status do_mask = Ret (0, w') \<and> live w' s k'
      \<and> heap w' = (heap w)(s \<mapsto> k') \<and> sk_closing k' \<and> sk_events k' = sk_events k OR EPOLLOUT
      \<and> pending (sk_sendbuf k') = pending (sk_sendbuf k) @ frame)"
proof -
  note L = liveD [OF live]
  have bytes: "ws_close_bytes status do_mask = frame"
    by (simp add: ws_close_bytes_text frame)
  consider "sk_closing k" | "\<not> sk_closing k" "room (sk_sendbuf k) < length frame"
    | "\<not> sk_closing k" "\<not> room (sk_sendbuf k) < length frame" by blast
  then show ?thesis
  proof cases
    case 3
    then obtain b where b: "encode_close_frame (sk_sendbuf k) status do_mask = Ret (Inr b)" "skb_wf b"
      "pending b = pending (sk_sendbuf k) @ frame"
      using close_frame_ok [OF L(3), of status do_mask] by (auto simp: bytes)
    let ?k = "k\<lparr>sk_sendbuf := b, sk_closing := True\<rparr>"
    have "ws_start_closing_handshake w s status do_mask =
        Ret (0, set_events (put_sk w s ?k) s ?k (sk_events k OR EPOLLOUT))"
      using 3 L b send_and_ask [of w s k ?k] by (simp add: ws_start_closing_handshake_def)
    then show ?thesis
      using 3 L b by (auto simp: live_def registered_def)
  qed (use L close_frame_no_room [OF L(3), of status do_mask] in
      \<open>simp_all add: ws_start_closing_handshake_def bytes\<close>)
qed

theorem ws_start_closing_handshake_sends_witness:
  "(\<exists>w'. ws_start_closing_handshake demo_world 1 WS_1011 False = Ret (0, w')
      \<and> pending (sk_sendbuf (the (heap w' 1))) = [0x88, 2, 0x03, 0xf3])
   \<and> (\<exists>w'. ws_start_closing_handshake demo_world 1 WS_1000 True = Ret (0, w')
      \<and> pending (sk_sendbuf (the (heap w' 1))) = [0x88, 0x82, 0xbe, 0xba, 0xfe, 0xca, 0xbe, 0xb9])"
proof -
  have "\<not> sk_closing demo_sk" "room (sk_sendbuf demo_sk) = 1048576" "pending (sk_sendbuf demo_sk) = []"
    by (simp_all add: demo_sk_def zero_sk_def)
  moreover have "close_text False (Some (status_bytes (of_int WS_1011))) = [0x88, 2, 0x03, 0xf3]"
    "close_text True (Some (status_bytes (of_int WS_1000))) = [0x88, 0x82, 0xbe, 0xba, 0xfe, 0xca, 0xbe, 0xb9]"
    by code_simp+
  moreover have "0 < WS_1011" "0 < WS_1000" by (simp_all add: WS_1011_def WS_1000_def)
  ultimately show ?thesis
    using ws_start_closing_handshake_sends [OF demo_live refl, of WS_1011 False]
      ws_start_closing_handshake_sends [OF demo_live refl, of WS_1000 True] by auto
qed

lemma status_echo:
  fixes s1 s2 :: u8
  defines "st \<equiv> be16toh (of_le [s1, s2])"
  shows "rev (le_bytes 2 st) = [s1, s2]" "0 < uint st \<longleftrightarrow> (s1, s2) \<noteq> (0, 0)"
proof -
  show b: "rev (le_bytes 2 st) = [s1, s2]"
    unfolding st_def using le_bytes_of_le [of "[s2, s1]" 2, where 'a = 16]
    by (simp add: be16toh_of_le del: of_le.simps)
  have "0 < uint st \<longleftrightarrow> st \<noteq> 0"
    by (metis uint_0_iff uint_lt_0 linorder_neqE_linordered_idom)
  also have "\<dots> \<longleftrightarrow> le_bytes 2 st \<noteq> le_bytes 2 (0 :: u16)"
    using of_le_bytes2 [of st] of_le_bytes2 [of 0] by metis
  also have "\<dots> \<longleftrightarrow> (s1, s2) \<noteq> (0, 0)"
    using b by (simp add: rev_swap eval_simps) (auto simp: numeral_2_eq_2)
  finally show "0 < uint st \<longleftrightarrow> (s1, s2) \<noteq> (0, 0)" .
qed

lemma skb_reset_ok:
  "length (skb_data b) = 1048576 \<Longrightarrow> skb_wf (skb_reset b)"
  "pending (skb_reset b) = []"
  by (simp_all add: skb_reset_def skb_wf_def pending_def skb_rdsz_def)

text \<open>The status a close frame carries: none if it has no two bytes, and zero counts as none.\<close>

definition close_status :: "u8 list \<Rightarrow> (u8 \<times> u8) option" where
  "close_status payload =
     (case payload of s1 # s2 # _ \<Rightarrow> if (s1, s2) = (0, 0) then None else Some (s1, s2) | _ \<Rightarrow> None)"

lemma close_status_get:
  assumes wf: "skb_wf b" and p: "pending b = payload @ rest" and len: "2 \<le> length payload"
  obtains st c where "skb_get16 b = Ret (st, c)" "skb_wf c"
    "close_status payload = (if 0 < uint (be16toh st) then Some (status_bytes (be16toh st)) else None)"
proof -
  obtain s1 s2 xs where pl: "payload = s1 # s2 # xs"
    using len by (cases payload; cases "tl payload") auto
  obtain c where c: "skb_get_mem b 2 = Ret ([s1, s2], c)" "skb_wf c"
    using skb_get_some [OF wf, of "[s1, s2]" "xs @ rest"] p pl by (auto simp: numeral_2_eq_2)
  have "status_bytes (be16toh (of_le [s1, s2])) = (s1, s2)"
    using status_echo(1) [of s1 s2] unfolding rev_le_bytes2 by (simp only: status_bytes_def list.inject)
  then have "close_status payload
      = (if 0 < uint (be16toh (of_le [s1, s2])) then Some (status_bytes (be16toh (of_le [s1, s2]))) else None)"
    unfolding status_echo(2) by (simp add: close_status_def pl)
  then show thesis
    using c by (intro that [of "of_le [s1, s2]" c]) (simp_all add: skb_get16_def del: of_le.simps)
qed

text \<open>The answer to a close frame, once the status is read.\<close>

definition answer_close :: "world \<Rightarrow> ptr \<Rightarrow> sk \<Rightarrow> bool \<Rightarrow> skb \<Rightarrow> int \<Rightarrow> (int \<times> world) outcome" where
  "answer_close w s k do_mask rb status =
     obind (encode_close_frame (sk_sendbuf k) status do_mask) (\<lambda>res.
     case res of
       Inl e \<Rightarrow> Ret (-1, (put_sk w s (k\<lparr>sk_recvbuf := skb_reset rb\<rparr>))\<lparr>wsd_errno := e\<rparr>)
     | Inr b \<Rightarrow> Ret (0, put_sk w s (k\<lparr>sk_sendbuf := b, sk_close_on_write := True,
                                        sk_closing := True, sk_recvbuf := skb_reset rb\<rparr>)))"

lemma ws_finish_answers:
  assumes "live w s k" "\<not> sk_closing k"
  shows "ws_finish_closing_handshake w s do_mask len =
    (if 2 \<le> unat len \<and> 2 \<le> room (sk_sendbuf k)
     then obind (skb_get16 (sk_recvbuf k)) (\<lambda>(st, rb). answer_close w s k do_mask rb (uint (be16toh st)))
     else answer_close w s k do_mask (sk_recvbuf k) 0)"
  using assms liveD [OF assms(1)]
  by (cases "skb_get16 (sk_recvbuf k)")
    (auto simp: ws_finish_closing_handshake_def answer_close_def ws_len_defs room_def word_le_nat_alt split_beta)

lemma answer_close_run:
  assumes live: "live w s k" and closing: "\<not> sk_closing k" and rb: "skb_wf rb"
  shows "\<exists>rv w' k'. answer_close w s k do_mask rb status = Ret (rv, w') \<and> live w' s k'
    \<and> heap w' = (heap w)(s \<mapsto> k') \<and> pending (sk_recvbuf k') = [] \<and> sk_close_flag k' = sk_close_flag k
    \<and> (if room (sk_sendbuf k) < length (ws_close_bytes status do_mask)
       then rv = -1 \<and> wsd_errno w' = WSD_ENOMEM \<and> sk_sendbuf k' = sk_sendbuf k
         \<and> \<not> sk_closing k' \<and> sk_close_on_write k' = sk_close_on_write k
       else rv = 0 \<and> sk_close_on_write k' \<and> sk_closing k'
         \<and> pending (sk_sendbuf k') = pending (sk_sendbuf k) @ ws_close_bytes status do_mask)"
proof -
  note L = liveD [OF live]
  have reset: "skb_wf (skb_reset rb)" "pending (skb_reset rb) = []"
    using skb_reset_ok [of rb] skb_wfD(1) [OF rb] by simp_all
  show ?thesis
  proof (cases "room (sk_sendbuf k) < length (ws_close_bytes status do_mask)")
    case True
    then show ?thesis
      using close_frame_no_room [OF L(3) True] L closing reset by (simp add: answer_close_def live_def registered_def)
  next
    case False
    then obtain b where "encode_close_frame (sk_sendbuf k) status do_mask = Ret (Inr b)" "skb_wf b"
      "pending b = pending (sk_sendbuf k) @ ws_close_bytes status do_mask"
      using close_frame_ok [OF L(3), of status do_mask] by auto
    then show ?thesis
      using L False reset by (simp add: answer_close_def live_def registered_def)
  qed
qed

text \<open>
  C26: A close frame from the peer, with any payload, answered masked or not. If our own closing
  handshake was under way it is complete: the socket is marked for closing. Otherwise the frame
  is answered, if the answer fits, with a close frame for the peer's own status code (none if
  the peer sent none, or sent zero), and the socket is to be closed once the answer is written;
  if it does not fit the call fails with WSD_ENOMEM and queues nothing. Nothing received after
  a close frame is kept. The unmasked answer echoes the status; the masked answer, that of
  wscat, has the wrong bytes that \<open>close_text\<close> spells out.
\<close>

theorem ws_finish_closing_handshake_echoes:
  assumes live: "live w s k" and payload: "pending (sk_recvbuf k) = payload @ rest" "length payload = unat len"
    and answer: "answer = close_text do_mask (close_status payload)"
  shows "\<exists>rv w' k'. ws_finish_closing_handshake w s do_mask len = Ret (rv, w') \<and> live w' s k'
    \<and> heap w' = (heap w)(s \<mapsto> k') \<and> pending (sk_recvbuf k') = []
    \<and> (if sk_closing k
        then rv = 0 \<and> sk_close_flag k' \<and> \<not> sk_closing k' \<and> sk_sendbuf k' = sk_sendbuf k
        else sk_close_flag k' = sk_close_flag k
          \<and> (if room (sk_sendbuf k) < length answer
              then rv = -1 \<and> wsd_errno w' = WSD_ENOMEM \<and> sk_sendbuf k' = sk_sendbuf k
                \<and> \<not> sk_closing k' \<and> sk_close_on_write k' = sk_close_on_write k
              else rv = 0 \<and> sk_close_on_write k' \<and> sk_closing k'
                \<and> pending (sk_sendbuf k') = pending (sk_sendbuf k) @ answer))"
proof (cases "sk_closing k")
  case True
  then show ?thesis
    using liveD [OF live] skb_wfD(1) [of "sk_recvbuf k"]
    by (auto simp: ws_finish_closing_handshake_def live_def registered_def skb_reset_ok)
next
  case False
  note L = liveD [OF live]
  note fin = ws_finish_answers [OF live False, of do_mask len]
  show ?thesis
  proof (cases "2 \<le> length payload \<and> 2 \<le> room (sk_sendbuf k)")
    case True
    obtain st c where st: "skb_get16 (sk_recvbuf k) = Ret (st, c)" "skb_wf c"
      "close_status payload = (if 0 < uint (be16toh st) then Some (status_bytes (be16toh st)) else None)"
      using close_status_get [OF L(4) payload(1)] True by blast
    have "ws_close_bytes (uint (be16toh st)) do_mask = answer"
      by (simp add: ws_close_bytes_text answer st(3))
    moreover have "ws_finish_closing_handshake w s do_mask len = answer_close w s k do_mask c (uint (be16toh st))"
      using True by (simp add: fin payload(2) st(1))
    ultimately show ?thesis
      using answer_close_run [OF live False st(2), of do_mask "uint (be16toh st)"] by (simp only: False if_False)
  next
    case no: False
    then have "room (sk_sendbuf k) < 2 \<or> close_status payload = None"
      by (auto simp: close_status_def split: list.split)
    then have "room (sk_sendbuf k) < length (ws_close_bytes 0 do_mask) \<longleftrightarrow> room (sk_sendbuf k) < length answer"
      "\<not> room (sk_sendbuf k) < length answer \<longrightarrow> ws_close_bytes 0 do_mask = answer"
      by (auto simp: ws_close_bytes_text answer close_text_def split: option.splits if_splits)
    moreover have "ws_finish_closing_handshake w s do_mask len = answer_close w s k do_mask (sk_recvbuf k) 0"
      using no by (auto simp: fin payload(2))
    ultimately show ?thesis
      using answer_close_run [OF live False L(4), of do_mask 0]
      by (cases "room (sk_sendbuf k) < length answer") (simp_all only: False if_False if_True simp_thms)
  qed
qed

theorem ws_finish_closing_handshake_echoes_witness:
  "let k = demo_sk\<lparr>sk_recvbuf := skb_of [0x03, 0xe8]\<rparr>; w = put_sk demo_world 1 k in
   (\<exists>w'. ws_finish_closing_handshake w 1 False 2 = Ret (0, w')
      \<and> pending (sk_sendbuf (the (heap w' 1))) = [0x88, 2, 0x03, 0xe8])
   \<and> (\<exists>w'. ws_finish_closing_handshake w 1 False 0 = Ret (0, w')
      \<and> pending (sk_sendbuf (the (heap w' 1))) = [0x88, 0])"
proof -
  let ?k = "demo_sk\<lparr>sk_recvbuf := skb_of [0x03, 0xe8]\<rparr>"
  have k: "live (put_sk demo_world 1 ?k) 1 ?k" "pending (sk_recvbuf ?k) = [0x03, 0xe8] @ []"
    "room (sk_sendbuf ?k) = 1048576" "\<not> sk_closing ?k" "pending (sk_sendbuf ?k) = []"
    using liveD [OF demo_live] by (simp_all add: live_def registered_def skb_of_simps) (simp_all add: demo_sk_def zero_sk_def)
  have t: "close_text False (close_status [0x03, 0xe8]) = [0x88, 2, 0x03, 0xe8]" "close_text False (close_status []) = [0x88, 0]"
    by (simp_all add: close_text_def close_status_def)
  show ?thesis
    using ws_finish_closing_handshake_echoes [OF k(1) k(2) _ refl, of 2 False]
      ws_finish_closing_handshake_echoes [OF k(1), of "[]" "[0x03, 0xe8]" 0 _ False] k t by (auto simp: Let_def)
qed

text \<open>
  The masked close frame of wscat carries the wrong status: \<open>k >> 2\<close> where the high byte of
  \<open>k\<close> is meant. Status 1000 (0x03e8) is sent as 0x0003.
\<close>

lemma masked_close_status:
  assumes "skb_wf b" "pending b = []" "8 \<le> room b"
  shows "\<exists>b'. encode_close_frame b WS_1000 True = Ret (Inr b')
    \<and> map_at (\<lambda>c i. ws_mask c (of_nat i) 0xcafebabe) 0 (drop 6 (pending b')) = [0x00, 0x03]"
proof -
  have len: "length (ws_close_bytes WS_1000 True) = 8"
    and bytes: "map_at (\<lambda>c i. ws_mask c (of_nat i) 0xcafebabe) 0 (drop 6 (ws_close_bytes WS_1000 True)) = [0x00, 0x03]"
    by code_simp+
  obtain b' where "encode_close_frame b WS_1000 True = Ret (Inr b')"
    "pending b' = pending b @ ws_close_bytes WS_1000 True"
    using close_frame_ok [OF assms(1), of WS_1000 True] assms(3) by (metis len)
  then show ?thesis
    by (intro exI [of _ b'] conjI) (simp_all only: assms(2) append_Nil bytes)
qed

subsection \<open>Data frames\<close>

text \<open>A complete unmasked frame with one opcode byte.\<close>

definition ws_frame :: "u8 \<Rightarrow> u8 list \<Rightarrow> u8 list" where
  "ws_frame byte1 payload = byte1 # ws_len_bytes (of_nat (length payload)) 0 @ payload"

lemma sint_of_nat64: "n < 2 ^ 63 \<Longrightarrow> sint (of_nat n :: u64) = int n"
  by (simp add: signed_of_nat signed_take_bit_int_eq_self)

lemma ws_calculate_frame_length_small:
  assumes "unat len \<le> 1048576"
  shows "ws_calculate_frame_length e len =
    (int (unat len) + (if len < 126 then 1 else if len \<le> 65535 then 2 else 9), e)"
proof -
  have "drop_bit 1 (-1) = (0x7fffffffffffffff :: u64)"
    by code_simp
  then have le: "len \<le> drop_bit 1 (-1)"
    using assms by (simp only:) (simp add: word_le_nat_alt)
  have "sint (of_nat n + len) = int (unat len) + int n" if "n < 10" for n
  proof -
    have "of_nat n + len = of_nat (n + unat len)"
      by simp
    moreover have "sint (of_nat (n + unat len) :: u64) = int (n + unat len)"
      using assms that by (intro sint_of_nat64) simp
    ultimately show ?thesis by simp
  qed
  from this [of 1] this [of 2] this [of 9] le show ?thesis
    by (simp add: ws_calculate_frame_length_def)
qed

text \<open>
  What the length check of the encoders guarantees: one byte less than the frame needs for
  short payloads, two for 16-bit lengths and one for 64-bit lengths.
\<close>

lemma frame_length_undercounts:
  assumes "unat len \<le> 1048576"
  shows "fst (ws_calculate_frame_length e len) < int (1 + length (ws_len_bytes len byte2) + unat len)"
  using assms by (simp add: ws_calculate_frame_length_small length_ws_len_bytes)

text \<open>Moving \<open>n\<close> bytes and compacting the source, as every data encoder ends.\<close>

lemma move_compact:
  assumes "skb_wf dst" "skb_wf src" "n \<le> length (pending src)" "n \<le> room dst"
  obtains dst' src1 src' where "skb_move f n dst src = Ret (dst', src1)" "skb_compact src1 = Ret src'"
    "skb_wf dst'" "skb_wf src'" "pending dst' = pending dst @ map_at f 0 (take n (pending src))"
    "pending src' = drop n (pending src)" "room dst' = room dst - n"
proof -
  obtain d r where m: "skb_move f n dst src = Ret (d, r)" "skb_wf d" "skb_wf r"
    "pending d = pending dst @ map_at f 0 (take n (pending src))" "pending r = drop n (pending src)"
    "room d = room dst - n"
    using skbq.move_loop_ok [OF assms, of f 0] unfolding skb_move_def by blast
  obtain r' where c: "skb_compact r = Ret r'" "skb_wf r'" "pending r' = pending r"
    using skbq.compact_ok [OF m(3)] by blast
  show thesis
    using m c by (intro that [of d r r']) simp_all
qed

lemma event_bits: "EPOLLOUT AND EPOLLOUT \<noteq> 0" "(e OR EPOLLOUT) AND EPOLLOUT \<noteq> 0"
  "((e OR EPOLLOUT) OR EPOLLIN) AND EPOLLOUT \<noteq> 0"
proof -
  have "bit (e OR EPOLLOUT) 2" "bit ((e OR EPOLLOUT) OR EPOLLIN) 2" "bit EPOLLOUT 2"
    by (simp_all add: epoll_defs bit_or_iff)
  then show "EPOLLOUT AND EPOLLOUT \<noteq> 0" "(e OR EPOLLOUT) AND EPOLLOUT \<noteq> 0"
    "((e OR EPOLLOUT) OR EPOLLIN) AND EPOLLOUT \<noteq> 0"
    by (simp_all add: EPOLLOUT_def bit_iff_and_push_bit_not_eq_0 push_bit_eq_mult)
qed

lemma room_uint: "uint (skb_wrsz b) = int (room b)"
  by (simp add: room_def)

lemma ws_encode_frame_run:
  assumes live: "live w s k" and p: "pp2sk w = Some p" "p \<noteq> s" and pk: "heap w p = Some pk" "skb_wf (sk_recvbuf pk)"
    and n: "n = unat (wsf_payload_len wsf)" "n \<le> length (pending (sk_recvbuf pk))"
    and b1: "wsf_byte1 wsf = 0"
    and room: "length (ws_frame 0x81 (take n (pending (sk_recvbuf pk)))) \<le> room (sk_sendbuf k)"
  obtains b r e w' where "ws_encode_frame w s wsf = Ret (0, w')"
    "heap w' = (heap w)(s \<mapsto> k\<lparr>sk_sendbuf := b, sk_events := e\<rparr>, p \<mapsto> pk\<lparr>sk_recvbuf := r\<rparr>)"
    "epoll w' = (epoll w)(sk_fd k \<mapsto> e)" "pp2sk w' = pp2sk w" "sk_hash w' = sk_hash w"
    "skb_wf b" "skb_wf r" "e AND EPOLLOUT \<noteq> 0"
    "pending b = pending (sk_sendbuf k) @ ws_frame 0x81 (take n (pending (sk_recvbuf pk)))"
    "pending r = drop n (pending (sk_recvbuf pk))"
proof -
  note L = liveD [OF live]
  let ?len = "wsf_payload_len wsf" and ?in = "pending (sk_recvbuf pk)"
  let ?h = "0x81 # ws_len_bytes ?len 0"
  have n20: "unat ?len \<le> 1048576"
    using n skbq.fits [OF pk(2)] by simp
  have len: "length (take n ?in) = n" "of_nat n = ?len"
    using n by simp_all
  have fr: "ws_frame 0x81 (take n ?in) = ?h @ take n ?in"
    unfolding ws_frame_def len by simp
  have hroom: "length ?h + n \<le> room (sk_sendbuf k)"
    using room n(2) unfolding fr by (simp add: min_absorb2)
  have lt: "?len < 2 ^ 63"
    using n20 by (simp add: word_less_nat_alt)
  define fl where "fl = int (unat ?len) + (if ?len < 126 then 1 else if ?len \<le> 65535 then 2 else 9)"
  have fl: "ws_calculate_frame_length e ?len = (fl, e)" "0 < fl" "\<not> int (room (sk_sendbuf k)) < fl" for e
    using hroom n(1) by (auto simp: fl_def ws_calculate_frame_length_small [OF n20] length_ws_len_bytes
        simp del: of_nat_unat split: if_splits)
  have byte: "set_opcode (set_fin_bit 0) WS_TEXT_FRAME = 0x81"
    by (simp add: header_bit_defs opcode_defs)
  obtain b0 where b0: "skb_put_mem (sk_sendbuf k) ?h = Ret b0" "skb_wf b0"
    "pending b0 = pending (sk_sendbuf k) @ ?h" "room b0 = room (sk_sendbuf k) - length ?h"
    using skbq.push_ok [OF L(3), of ?h] hroom by auto
  have room0: "n \<le> room b0"
    using b0(4) hroom by simp
  obtain b r1 r where mv: "skb_move (\<lambda>c _. c) n b0 (sk_recvbuf pk) = Ret (b, r1)" "skb_compact r1 = Ret r"
    and br:
    "skb_wf b" "skb_wf r" "pending b = pending b0 @ take n ?in" "pending r = drop n ?in"
    using move_compact [OF b0(2) pk(2) n(2) room0, of "\<lambda>c _. c"] unfolding map_at_id by metis
  let ?k = "k\<lparr>sk_sendbuf := b\<rparr>" and ?pk = "pk\<lparr>sk_recvbuf := r\<rparr>"
  let ?w1 = "put_sk (put_sk w s ?k) p ?pk"
  have reg: "registered ?w1 ?k"
    using L(2) by (simp add: registered_def)
  have run: "ws_encode_frame w s wsf = obind (ensure_events ?w1 s EPOLLOUT) (\<lambda>w. obind (deref w p)
      (\<lambda>pk. obind (if sk_events pk AND EPOLLIN = 0 then turn_on_events w s EPOLLIN else Ret w) (\<lambda>w. Ret (0, w))))"
    using L(1) p pk(1) fl b0(1) byte hroom b1 mv [unfolded n(1)]
    by (simp add: ws_encode_frame_def room_uint skb_put8_def put_then_len [OF L(3) lt] Let_def
        del: obind_if)
  let ?e1 = "sk_events k OR EPOLLOUT"
  let ?e = "if sk_events pk AND EPOLLIN = 0 then ?e1 OR EPOLLIN else ?e1"
  let ?w2 = "set_events ?w1 s ?k ?e1"
  have "ensure_events ?w1 s EPOLLOUT = Ret ?w2"
    using p(2) reg by (subst ensure_events_ok [where k = ?k]) simp_all
  moreover have "turn_on_events ?w2 s EPOLLIN = Ret (set_events ?w2 s (?k\<lparr>sk_events := ?e1\<rparr>) (?e1 OR EPOLLIN))"
    using p(2) by (subst turn_on_events_ok [where k = "?k\<lparr>sk_events := ?e1\<rparr>"]) (simp_all add: registered_def)
  ultimately have "\<exists>w'. ws_encode_frame w s wsf = Ret (0, w')
    \<and> heap w' = (heap w)(s \<mapsto> k\<lparr>sk_sendbuf := b, sk_events := ?e\<rparr>, p \<mapsto> ?pk)
    \<and> epoll w' = (epoll w)(sk_fd k \<mapsto> ?e) \<and> pp2sk w' = pp2sk w \<and> sk_hash w' = sk_hash w"
    using p(2) unfolding run by (auto simp: fun_upd_twist)
  moreover have "?e AND EPOLLOUT \<noteq> 0"
    using event_bits by simp
  moreover have "pending b = pending (sk_sendbuf k) @ ws_frame 0x81 (take n ?in)"
    by (simp add: br(3) b0(3) fr)
  ultimately show thesis
    using br(1,2,4) that by blast
qed

text \<open>
  C24: A data frame to a client. With enough room for the real header, \<open>ws_encode_frame\<close> takes
  exactly the payload off the front of the backend connection's receive buffer, appends to
  the client's send buffer one unmasked final text frame whose length field is minimal, asks
  for EPOLLOUT on the client, and touches no other socket.
\<close>

theorem ws_encode_frame_delivers:
  assumes live: "live w s k" and p: "pp2sk w = Some p" "p \<noteq> s"
    and pk: "heap w p = Some pk" "skb_wf (sk_recvbuf pk)" and b1: "wsf_byte1 wsf = 0"
    and n: "unat (wsf_payload_len wsf) \<le> length (pending (sk_recvbuf pk))"
    and room: "10 + unat (wsf_payload_len wsf) \<le> room (sk_sendbuf k)"
  shows "\<exists>w' k' pk'. ws_encode_frame w s wsf = Ret (0, w') \<and> live w' s k' \<and> skb_wf (sk_recvbuf pk')
    \<and> heap w' = (heap w)(s \<mapsto> k', p \<mapsto> pk') \<and> sk_events k' AND EPOLLOUT \<noteq> 0
    \<and> pending (sk_sendbuf k') = pending (sk_sendbuf k)
        @ ws_frame 0x81 (take (unat (wsf_payload_len wsf)) (pending (sk_recvbuf pk)))
    \<and> pending (sk_recvbuf pk') = drop (unat (wsf_payload_len wsf)) (pending (sk_recvbuf pk))"
proof -
  let ?pl = "take (unat (wsf_payload_len wsf)) (pending (sk_recvbuf pk))"
  have "length (ws_frame 0x81 ?pl) \<le> room (sk_sendbuf k)"
    using room n length_ws_len_bytes [of "of_nat (length ?pl)" 0]
    by (simp add: ws_frame_def min_absorb2 split: if_splits)
  then obtain b r e w' where r: "ws_encode_frame w s wsf = Ret (0, w')"
    "heap w' = (heap w)(s \<mapsto> k\<lparr>sk_sendbuf := b, sk_events := e\<rparr>, p \<mapsto> pk\<lparr>sk_recvbuf := r\<rparr>)"
    "epoll w' = (epoll w)(sk_fd k \<mapsto> e)" "skb_wf b" "skb_wf r" "e AND EPOLLOUT \<noteq> 0"
    "pending b = pending (sk_sendbuf k) @ ws_frame 0x81 ?pl"
    "pending r = drop (unat (wsf_payload_len wsf)) (pending (sk_recvbuf pk))"
    using ws_encode_frame_run [OF live p pk refl n b1] by metis
  then show ?thesis
    using liveD [OF live] p(2)
    by (intro exI [of _ w'] exI [of _ "k\<lparr>sk_sendbuf := b, sk_events := e\<rparr>"] exI [of _ "pk\<lparr>sk_recvbuf := r\<rparr>"])
      (simp add: live_def registered_def)
qed

theorem ws_encode_frame_delivers_witness:
  "let pk = demo_sk\<lparr>sk_fd := 8, sk_recvbuf := skb_of (bytes ''Hello, you'')\<rparr>;
       w = (put_sk demo_world 2 pk)\<lparr>pp2sk := Some 2\<rparr>
   in \<exists>w'. ws_encode_frame w 1 (null_wsframe\<lparr>wsf_payload_len := 5\<rparr>) = Ret (0, w')
    \<and> pending (sk_sendbuf (the (heap w' 1))) = [0x81, 5] @ bytes ''Hello''
    \<and> pending (sk_recvbuf (the (heap w' 2))) = bytes '', you''"
proof -
  let ?pk = "demo_sk\<lparr>sk_fd := 8, sk_recvbuf := skb_of (bytes ''Hello, you'')\<rparr>"
  let ?w = "(put_sk demo_world 2 ?pk)\<lparr>pp2sk := Some 2\<rparr>"
  have "live ?w 1 demo_sk"
    using liveD [OF demo_live] by (simp add: live_def registered_def)
  moreover have "pending (sk_recvbuf ?pk) = bytes ''Hello, you''" "skb_wf (sk_recvbuf ?pk)"
    by (simp_all add: skb_of_simps)
  moreover have "room (sk_sendbuf demo_sk) = 1048576" "pending (sk_sendbuf demo_sk) = []"
    by (simp_all add: demo_sk_def zero_sk_def)
  ultimately show ?thesis
    using ws_encode_frame_delivers [of ?w 1 demo_sk 2 ?pk "null_wsframe\<lparr>wsf_payload_len := 5\<rparr>"]
    by (auto simp: Let_def null_wsframe_def bytes_def ws_frame_def ws_len_bytes_def)
qed

text \<open>
  The check of the frame length falls short of the real header by a byte, so a payload that
  just passes the check is written past the end of the send buffer.
\<close>

lemma ws_encode_frame_overrun:
  assumes live: "live w s k" and p: "pp2sk w = Some p"
    and pk: "heap w p = Some pk" "skb_wf (sk_recvbuf pk)"
    and n: "n = unat (wsf_payload_len wsf)" "0 < n" "n < 126" "n \<le> length (pending (sk_recvbuf pk))"
    and room: "room (sk_sendbuf k) = n + 1"
  shows "ws_encode_frame w s wsf = Fault Out_of_bounds"
proof -
  note L = liveD [OF live]
  let ?len = "wsf_payload_len wsf"
  let ?b = "set_opcode (set_fin_bit (wsf_byte1 wsf)) WS_TEXT_FRAME"
  have small: "?len < 126"
    using n by (simp add: word_less_nat_alt)
  then have lt: "?len < 2 ^ 63"
    by (rule order.strict_trans) simp
  have hl: "length (ws_len_bytes ?len 0) = 1"
    using small by (simp add: length_ws_len_bytes)
  obtain b0 where b0: "skb_put_mem (sk_sendbuf k) (?b # ws_len_bytes ?len 0) = Ret b0" "skb_wf b0"
    "room b0 = n - 1"
    using skbq.push_ok [OF L(3), of "?b # ws_len_bytes ?len 0"] n room hl by auto
  have "skb_move (\<lambda>c _. c) n b0 (sk_recvbuf pk) = Fault Out_of_bounds"
    unfolding skb_move_def using b0 n pk(2) by (intro skbq.move_loop_overflow) simp_all
  moreover have "ws_calculate_frame_length e ?len = (int n + 1, e)" for e
    using n small by (simp add: ws_calculate_frame_length_small)
  ultimately show ?thesis
    using L(1) p pk(1) b0(1) room n hl
    by (simp add: ws_encode_frame_def room_uint skb_put8_def put_then_len [OF L(3) lt] Let_def)
qed

end
