(* ===== verification/Wsk.thy ===== *)
theory Wsk
  imports Ws
begin

text \<open>
  The data frames wscat sends (src/wscat.c): masked text frames from the input buffer to the
  websocket connection, and the search for the end of a JSON value.
\<close>

definition wssk_ws_encode_data_frame ::
  "wsd_err \<Rightarrow> skb \<Rightarrow> skb \<Rightarrow> u32 \<Rightarrow> (int \<times> skb \<times> skb \<times> wsd_err) outcome" where
  "wssk_ws_encode_data_frame e dst src maxlen =
     (let wsf = null_wsframe;
          wsf = wsf\<lparr>wsf_payload_len := ucast (if skb_rdsz src < maxlen then skb_rdsz src else maxlen)\<rparr>;
          (frame_len, e) = ws_calculate_frame_length e (wsf_payload_len wsf)
      in if 0 > frame_len then Ret (-1, dst, src, e)
      else if frame_len > uint (skb_wrsz dst) then Ret (-1, dst, src, WSD_EAGAIN)
      else
        let wsf = wsf\<lparr>wsf_byte1 := set_fin_bit (wsf_byte1 wsf)\<rparr>;
            wsf = wsf\<lparr>wsf_byte1 := set_opcode (wsf_byte1 wsf) WS_TEXT_FRAME\<rparr>;
            wsf = wsf\<lparr>wsf_byte2 := set_mask_bit (wsf_byte2 wsf)\<rparr>;
            wsf = wsf\<lparr>wsf_masking_key := 0xdeadbeef\<rparr>
        in obind (skb_put8 dst (wsf_byte1 wsf)) (\<lambda>dst.
           obind (ws_set_payload_len dst (wsf_payload_len wsf) (wsf_byte2 wsf)) (\<lambda>(rv, dst).
           obind (guard (rv = 0)) (\<lambda>_.
           obind (skb_put32 dst (wsf_masking_key wsf)) (\<lambda>dst.
           obind (skb_move (\<lambda>c i. ws_mask c (of_nat i) (wsf_masking_key wsf))
                    (unat (wsf_payload_len wsf)) dst src) (\<lambda>(dst, src).
           obind (skb_compact src) (\<lambda>src.
           Ret (0, dst, src, e))))))))"

definition wssk_ws_encode_frame :: "world \<Rightarrow> ptr \<Rightarrow> wsframe \<Rightarrow> (int \<times> world) outcome" where
  "wssk_ws_encode_frame w s wsf =
     obind (deref_global (wssk w)) (\<lambda>q.
     obind (deref w q) (\<lambda>qk.
     obind (deref w s) (\<lambda>k.
     obind (wssk_ws_encode_data_frame (wsd_errno w) (sk_sendbuf qk) (sk_recvbuf k)
              (ucast (wsf_payload_len wsf))) (\<lambda>(rv, dst, src, e).
     obind (upd_sk w q (sk_sendbuf_update (\<lambda>_. dst))) (\<lambda>w.
     obind (upd_sk w s (sk_recvbuf_update (\<lambda>_. src))) (\<lambda>w.
     Ret (rv, w\<lparr>wsd_errno := e\<rparr>)))))))"

definition stdin_nop :: "world \<Rightarrow> ptr \<Rightarrow> bool \<Rightarrow> (int \<times> world) outcome" where
  "stdin_nop w ignored ignored_too = Ret (0, w)"

text \<open>\<open>balanced_span\<close>: the offset behind the bracket that closes the first one, or -1.\<close>

fun balanced_loop :: "u8 list \<Rightarrow> u8 \<Rightarrow> u8 \<Rightarrow> nat \<Rightarrow> nat \<Rightarrow> int \<Rightarrow> int \<Rightarrow> int outcome" where
  "balanced_loop m open_c close_c pos 0 off num = Ret (-1)"
| "balanced_loop m open_c close_c pos (Suc n) off num =
     obind (mem_get m pos) (\<lambda>c.
     if open_c = c
     then balanced_loop m open_c close_c (Suc pos) n (off + 1) (if -1 = num then 1 else num + 1)
     else if close_c = c
     then if 0 = num - 1 then Ret (off + 1)
          else balanced_loop m open_c close_c (Suc pos) n (off + 1) (num - 1)
     else balanced_loop m open_c close_c (Suc pos) n (off + 1) num)"

definition balanced_span :: "skb \<Rightarrow> u8 \<Rightarrow> u8 \<Rightarrow> int outcome" where
  "balanced_span buf open_c close_c =
     balanced_loop (skb_data buf) open_c close_c (unat (rdpos buf))
       (unat (wrpos buf) - unat (rdpos buf)) 0 (-1)"

end
