(* ===== verification/Pp2.thy ===== *)
theory Pp2
  imports Ws
begin

text \<open>
  The encoding half of src/pp2.c: the header of version 2 of the proxy protocol with the two
  custom TLVs (connection hash, payload length) in front of every payload to the backend.
  The TLV readers are here as well; \<open>pp2_decode_frame\<close> is in theory \<open>Decode\<close>.
\<close>

definition PP2_TYPE_CONNHASH :: u8 where "PP2_TYPE_CONNHASH = 0xE0"
definition PP2_TYPE_PAYLOADLEN :: u8 where "PP2_TYPE_PAYLOADLEN = 0xE1"
definition PP2_ADDR_LEN :: u32 where "PP2_ADDR_LEN = 12"
definition PP2_ADDR_TLVS_LEN :: u32 where "PP2_ADDR_TLVS_LEN = 30"
definition PP2_HEADER_LEN :: u32 where "PP2_HEADER_LEN = 46"

lemmas pp2_defs = PP2_TYPE_CONNHASH_def PP2_TYPE_PAYLOADLEN_def PP2_ADDR_LEN_def
  PP2_ADDR_TLVS_LEN_def PP2_HEADER_LEN_def

definition pp2_sig :: "u8 list" where
  "pp2_sig = [0x0d, 0x0a, 0x0d, 0x0a, 0x00, 0x0d, 0x0a, 0x51, 0x55, 0x49, 0x54, 0x0a]"

definition pp2_sig_ver_cmd_fam :: "u8 list" where
  "pp2_sig_ver_cmd_fam =
     [0x0d, 0x0a, 0x0d, 0x0a, 0x00, 0x0d, 0x0a, 0x51, 0x55, 0x49, 0x54, 0x0a, 0x21, 0x11]"

definition PP2_VER_BITS :: "u8 \<Rightarrow> u32" where "PP2_VER_BITS byte = drop_bit 4 (0xf0 AND ucast byte)"
definition PP2_CMD_BITS :: "u8 \<Rightarrow> u32" where "PP2_CMD_BITS byte = 0xf AND ucast byte"
definition PP2_FAM_BITS :: "u8 \<Rightarrow> u32" where "PP2_FAM_BITS byte = drop_bit 4 (0xf0 AND ucast byte)"
definition PP2_PROTO_BITS :: "u8 \<Rightarrow> u32" where "PP2_PROTO_BITS byte = 0xf AND ucast byte"

subsection \<open>TLVs\<close>

definition pp2_put_connhash :: "skb \<Rightarrow> u64 \<Rightarrow> skb outcome" where
  "pp2_put_connhash dst hash =
     obind (skb_put8 dst PP2_TYPE_CONNHASH) (\<lambda>dst.
     obind (skb_put8 dst 0) (\<lambda>dst.
     obind (skb_put8 dst 8) (\<lambda>dst.
     skb_put64 dst hash)))"

definition pp2_put_payloadlen :: "skb \<Rightarrow> u32 \<Rightarrow> skb outcome" where
  "pp2_put_payloadlen dst len =
     obind (skb_put8 dst PP2_TYPE_PAYLOADLEN) (\<lambda>dst.
     obind (skb_put8 dst 0) (\<lambda>dst.
     obind (skb_put8 dst 4) (\<lambda>dst.
     skb_put32 dst len)))"

text \<open>\<open>tlv->type != t || tlv->length_hi != 0 || tlv->length_lo != n\<close>, negated.\<close>

definition pp2_tlv_matches :: "u8 list \<Rightarrow> nat \<Rightarrow> u8 \<Rightarrow> u8 \<Rightarrow> bool outcome" where
  "pp2_tlv_matches m p t n =
     obind (mem_get m p) (\<lambda>type.
     if type \<noteq> t then Ret False
     else obind (mem_get m (p + 1)) (\<lambda>hi.
          if hi \<noteq> 0 then Ret False
          else obind (mem_get m (p + 2)) (\<lambda>lo. Ret (lo = n))))"

definition pp2_get_connhash :: "skb \<Rightarrow> (int \<times> skb) outcome" where
  "pp2_get_connhash src =
     obind (pp2_tlv_matches (skb_data src) (unat (rdpos src)) PP2_TYPE_CONNHASH 8) (\<lambda>ok.
     if \<not> ok then Ret (-1, src)
     else obind (mem_read (skb_data src) (unat (rdpos src) + 3) 8) (\<lambda>bs.
          Ret (sint (of_le bs :: u64), src\<lparr>rdpos := rdpos src + 11\<rparr>)))"

definition pp2_get_payloadlen :: "skb \<Rightarrow> (int \<times> skb) outcome" where
  "pp2_get_payloadlen src =
     obind (pp2_tlv_matches (skb_data src) (unat (rdpos src)) PP2_TYPE_PAYLOADLEN 4) (\<lambda>ok.
     if \<not> ok then Ret (-1, src)
     else obind (mem_read (skb_data src) (unat (rdpos src) + 3) 4) (\<lambda>bs.
          Ret (sint (of_le bs :: u32), src\<lparr>rdpos := rdpos src + 7\<rparr>)))"

subsection \<open>Frames to the backend\<close>

definition pp2_encode_header ::
  "skb \<Rightarrow> sockaddr_in \<Rightarrow> sockaddr_in \<Rightarrow> u64 \<Rightarrow> u64 \<Rightarrow> skb outcome" where
  "pp2_encode_header buf src dst hash payload_len =
     obind (skb_put_mem buf pp2_sig_ver_cmd_fam) (\<lambda>buf.
     obind (skb_put16 buf (htobe16 (ucast PP2_ADDR_TLVS_LEN))) (\<lambda>buf.
     obind (skb_put32 buf (sin_addr src)) (\<lambda>buf.
     obind (skb_put32 buf (sin_addr dst)) (\<lambda>buf.
     obind (skb_put16 buf (sin_port src)) (\<lambda>buf.
     obind (skb_put16 buf (sin_port dst)) (\<lambda>buf.
     obind (pp2_put_connhash buf hash) (\<lambda>buf.
     pp2_put_payloadlen buf (ucast payload_len))))))))"

definition pp2_encode_frame :: "world \<Rightarrow> ptr \<Rightarrow> wsframe \<Rightarrow> (int \<times> world) outcome" where
  "pp2_encode_frame w s wsf =
     obind (deref_global (pp2sk w)) (\<lambda>p.
     obind (deref w p) (\<lambda>pk.
     if wsf_payload_len wsf + ucast PP2_HEADER_LEN > ucast (skb_wrsz (sk_sendbuf pk))
     then Ret (-1, w\<lparr>wsd_errno := WSD_EAGAIN\<rparr>)
     else
       obind (deref w s) (\<lambda>k.
       obind (pp2_encode_header (sk_sendbuf pk) (sk_src_addr k) (sk_dst_addr k) (sk_hashval k)
                (wsf_payload_len wsf)) (\<lambda>b.
       let len = (ucast (wsf_payload_len wsf) :: u32) in
       obind (skb_move (\<lambda>c _. c) (unat len) b (sk_recvbuf k)) (\<lambda>(b, r).
       obind (skb_compact r) (\<lambda>r.
       obind (upd_sk w p (sk_sendbuf_update (\<lambda>_. b))) (\<lambda>w.
       obind (upd_sk w s (sk_recvbuf_update (\<lambda>_. r))) (\<lambda>w.
       Ret (0, w)))))))))"

definition pp2_nop :: "world \<Rightarrow> ptr \<Rightarrow> bool \<Rightarrow> (int \<times> world) outcome" where
  "pp2_nop w ignored ignored_too = Ret (0, w)"

subsection \<open>What a frame looks like\<close>

definition pp2_header :: "sockaddr_in \<Rightarrow> sockaddr_in \<Rightarrow> u64 \<Rightarrow> u32 \<Rightarrow> u8 list" where
  "pp2_header src dst hash len =
     pp2_sig_ver_cmd_fam @ [0, 30]
     @ le_bytes 4 (sin_addr src) @ le_bytes 4 (sin_addr dst)
     @ le_bytes 2 (sin_port src) @ le_bytes 2 (sin_port dst)
     @ [0xE0, 0, 8] @ le_bytes 8 hash @ [0xE1, 0, 4] @ le_bytes 4 len"

definition pp2_frame :: "sockaddr_in \<Rightarrow> sockaddr_in \<Rightarrow> u64 \<Rightarrow> u8 list \<Rightarrow> u8 list" where
  "pp2_frame src dst hash payload = pp2_header src dst hash (of_nat (length payload)) @ payload"

lemma length_pp2_header [simp]: "length (pp2_header src dst hash len) = 46"
  by (simp add: pp2_header_def pp2_sig_ver_cmd_fam_def)

lemma pp2_encode_header_put:
  assumes wf: "skb_wf b"
  shows "pp2_encode_header b src dst hash len = skb_put_mem b (pp2_header src dst hash (ucast len))"
proof -
  have last: "obind (skb_put_mem b xs) (\<lambda>b'. skb_put_mem b' ys) = skb_put_mem b (xs @ ys)" for xs ys
    by (rule skbq.push_append [OF wf])
  have be: "le_bytes 2 (htobe16 30) = [0, 30]"
    by code_simp
  show ?thesis
    by (simp add: pp2_encode_header_def pp2_put_connhash_def pp2_put_payloadlen_def skb_put8_def
        skb_put16_def skb_put32_def skb_put64_def obind_assoc skbq.push_push [OF wf] last be
        pp2_header_def pp2_defs)
qed

lemma header_fits:
  assumes "unat (len :: u64) \<le> 1048576"
  shows "len + ucast PP2_HEADER_LEN > ucast (skb_wrsz b) \<longleftrightarrow> room b < unat len + 46"
proof -
  have "unat (len + 46) = unat len + unat (46 :: u64)"
    using assms by (intro unat_add_lem [THEN iffD1]) simp
  moreover have "take_bit 64 (unat x) = unat x" for x :: u32
    by (rule take_bit_nat_eq_self) (rule order.strict_trans [OF unat_u32_less], simp)
  ultimately show ?thesis
    by (simp add: word_less_nat_alt pp2_defs room_def unsigned_ucast_eq)
qed

lemma unat_ucast_small: "unat (x :: u64) < 4294967296 \<Longrightarrow> unat (ucast x :: u32) = unat x"
  by (simp add: unsigned_ucast_eq unsigned_take_bit_eq take_bit_nat_eq_self)

lemma pp2_encode_frame_run:
  assumes k: "heap w s = Some k" "skb_wf (sk_recvbuf k)" and p: "pp2sk w = Some p" "p \<noteq> s"
    and pk: "heap w p = Some pk" "skb_wf (sk_sendbuf pk)"
    and n: "n = unat (wsf_payload_len wsf)" "n \<le> length (pending (sk_recvbuf k))"
    and room: "46 + n \<le> room (sk_sendbuf pk)"
  obtains b r where "pp2_encode_frame w s wsf
      = Ret (0, put_sk (put_sk w p (pk\<lparr>sk_sendbuf := b\<rparr>)) s (k\<lparr>sk_recvbuf := r\<rparr>))"
    "skb_wf b" "skb_wf r" "pending r = drop n (pending (sk_recvbuf k))"
    "pending b = pending (sk_sendbuf pk)
      @ pp2_frame (sk_src_addr k) (sk_dst_addr k) (sk_hashval k) (take n (pending (sk_recvbuf k)))"
    "room b = room (sk_sendbuf pk) - (46 + n)"
proof -
  let ?len = "wsf_payload_len wsf"
  let ?h = "pp2_header (sk_src_addr k) (sk_dst_addr k) (sk_hashval k) (ucast ?len)"
  have n20: "unat ?len \<le> 1048576"
    using n skbq.fits [OF k(2)] by simp
  have u: "unat (ucast ?len :: u32) = n" "(ucast ?len :: u32) = of_nat n"
    using n20 n(1) by (simp_all add: unat_ucast_small word_unat_eq_iff unat_of_nat_u32)
  obtain b0 where b0: "skb_put_mem (sk_sendbuf pk) ?h = Ret b0" "skb_wf b0"
    "pending b0 = pending (sk_sendbuf pk) @ ?h" "room b0 = room (sk_sendbuf pk) - 46"
    using skbq.push_ok [OF pk(2), of ?h] room by auto
  have "n \<le> room b0"
    using b0(4) room by simp
  then obtain b r1 r where mv: "skb_move (\<lambda>c _. c) n b0 (sk_recvbuf k) = Ret (b, r1)" "skb_compact r1 = Ret r"
    and br: "skb_wf b" "skb_wf r" "pending b = pending b0 @ take n (pending (sk_recvbuf k))"
    "pending r = drop n (pending (sk_recvbuf k))" "room b = room b0 - n"
    using move_compact [OF b0(2) k(2) n(2), of "\<lambda>c _. c"] unfolding map_at_id by metis
  have "pp2_encode_frame w s wsf
      = Ret (0, put_sk (put_sk w p (pk\<lparr>sk_sendbuf := b\<rparr>)) s (k\<lparr>sk_recvbuf := r\<rparr>))"
    using k(1) p pk room n(1) b0(1) mv u(1)
    by (simp add: pp2_encode_frame_def header_fits [OF n20] pp2_encode_header_put Let_def)
  moreover have "pending b = pending (sk_sendbuf pk)
      @ pp2_frame (sk_src_addr k) (sk_dst_addr k) (sk_hashval k) (take n (pending (sk_recvbuf k)))"
    using n(2) by (simp add: br(3) b0(3) pp2_frame_def u(2) min_absorb2)
  moreover have "room b = room (sk_sendbuf pk) - (46 + n)"
    using br(5) b0(4) by simp
  ultimately show thesis
    using br that by blast
qed

lemma pp2_encode_frame_full:
  assumes "pp2sk w = Some p" "heap w p = Some pk"
    "unat (wsf_payload_len wsf) \<le> 1048576" "room (sk_sendbuf pk) < 46 + unat (wsf_payload_len wsf)"
  shows "pp2_encode_frame w s wsf = Ret (-1, w\<lparr>wsd_errno := WSD_EAGAIN\<rparr>)"
  using assms by (simp add: pp2_encode_frame_def header_fits)

text \<open>
  C25: A frame to the backend. The length check is exact: when header and payload fit, the
  client's payload is moved, in order and without loss, behind a proxy protocol header that
  carries the client's addresses, its connection hash and the payload length; when they do
  not fit, the call reports WSD_EAGAIN and no buffer changes.
\<close>

theorem pp2_encode_frame_delivers:
  assumes k: "heap w s = Some k" "skb_wf (sk_recvbuf k)" and p: "pp2sk w = Some p" "p \<noteq> s"
    and pk: "heap w p = Some pk" "skb_wf (sk_sendbuf pk)"
    and n: "n = unat (wsf_payload_len wsf)" "n \<le> length (pending (sk_recvbuf k))"
  shows "if room (sk_sendbuf pk) < 46 + n
    then pp2_encode_frame w s wsf = Ret (-1, w\<lparr>wsd_errno := WSD_EAGAIN\<rparr>)
    else (\<exists>w' k' pk'. pp2_encode_frame w s wsf = Ret (0, w') \<and> heap w' = (heap w)(p \<mapsto> pk', s \<mapsto> k')
      \<and> skb_wf (sk_sendbuf pk') \<and> skb_wf (sk_recvbuf k')
      \<and> pending (sk_recvbuf k') = drop n (pending (sk_recvbuf k))
      \<and> pending (sk_sendbuf pk') = pending (sk_sendbuf pk)
          @ pp2_frame (sk_src_addr k) (sk_dst_addr k) (sk_hashval k) (take n (pending (sk_recvbuf k))))"
proof (cases "room (sk_sendbuf pk) < 46 + n")
  case True
  then show ?thesis
    using pp2_encode_frame_full [OF p(1) pk(1)] n skbq.fits [OF k(2)] by simp
next
  case False
  then have "46 + n \<le> room (sk_sendbuf pk)" by simp
  then obtain b r where r: "pp2_encode_frame w s wsf
      = Ret (0, put_sk (put_sk w p (pk\<lparr>sk_sendbuf := b\<rparr>)) s (k\<lparr>sk_recvbuf := r\<rparr>))"
    "skb_wf b" "skb_wf r" "pending r = drop n (pending (sk_recvbuf k))"
    "pending b = pending (sk_sendbuf pk)
      @ pp2_frame (sk_src_addr k) (sk_dst_addr k) (sk_hashval k) (take n (pending (sk_recvbuf k)))"
    using pp2_encode_frame_run [OF k p pk n] by blast
  then have "\<exists>w' k' pk'. pp2_encode_frame w s wsf = Ret (0, w') \<and> heap w' = (heap w)(p \<mapsto> pk', s \<mapsto> k')
      \<and> skb_wf (sk_sendbuf pk') \<and> skb_wf (sk_recvbuf k')
      \<and> pending (sk_recvbuf k') = drop n (pending (sk_recvbuf k))
      \<and> pending (sk_sendbuf pk') = pending (sk_sendbuf pk)
          @ pp2_frame (sk_src_addr k) (sk_dst_addr k) (sk_hashval k) (take n (pending (sk_recvbuf k)))"
    by (intro exI [of _ "put_sk (put_sk w p (pk\<lparr>sk_sendbuf := b\<rparr>)) s (k\<lparr>sk_recvbuf := r\<rparr>)"]
        exI [of _ "k\<lparr>sk_recvbuf := r\<rparr>"] exI [of _ "pk\<lparr>sk_sendbuf := b\<rparr>"]) simp
  then show ?thesis
    using False by simp
qed

theorem pp2_encode_frame_delivers_witness:
  "let k = demo_sk\<lparr>sk_recvbuf := skb_of (bytes ''Hello''), sk_hashval := 7\<rparr>;
       w = (put_sk (put_sk demo_world 2 demo_sk) 1 k)\<lparr>pp2sk := Some 2\<rparr>
   in \<exists>w'. pp2_encode_frame w 1 (null_wsframe\<lparr>wsf_payload_len := 5\<rparr>) = Ret (0, w')
    \<and> pending (sk_sendbuf (the (heap w' 2)))
        = pp2_frame (sk_src_addr k) (sk_dst_addr k) 7 (bytes ''Hello'')"
proof -
  let ?k = "demo_sk\<lparr>sk_recvbuf := skb_of (bytes ''Hello''), sk_hashval := 7\<rparr>"
  let ?w = "(put_sk (put_sk demo_world 2 demo_sk) 1 ?k)\<lparr>pp2sk := Some 2\<rparr>"
  have "room (sk_sendbuf demo_sk) = 1048576" "pending (sk_sendbuf demo_sk) = []" "skb_wf (sk_sendbuf demo_sk)"
    by (simp_all add: demo_sk_def zero_sk_def)
  moreover have "pending (sk_recvbuf ?k) = bytes ''Hello''" "skb_wf (sk_recvbuf ?k)"
    by (simp_all add: skb_of_simps)
  ultimately show ?thesis
    using pp2_encode_frame_delivers [of ?w 1 ?k 2 demo_sk 5 "null_wsframe\<lparr>wsf_payload_len := 5\<rparr>"]
    by (auto simp: Let_def null_wsframe_def bytes_def)
qed

end
