(* ===== verification/Hashtable.thy ===== *)
theory Hashtable
  imports Common
begin

text \<open>
  The hash table of open sockets (src/hashtable.h with \<open>sk_hash\<close> of src/wschild.c): an array
  of 16 buckets, each a list of sockets with the newest in front. A bucket index past the
  array is a fault.
\<close>

definition HASH_SIZE :: nat where "HASH_SIZE = 16"

definition HASH_BITS :: nat where "HASH_BITS = HASH_SIZE div 2"

definition hash_min :: "u64 \<Rightarrow> nat" where
  "hash_min val = unat (drop_bit (64 - HASH_BITS) val)"

definition hash_init :: "world \<Rightarrow> world" where
  "hash_init w = w\<lparr>sk_hash := replicate HASH_SIZE []\<rparr>"

definition hash_bucket :: "world \<Rightarrow> u64 \<Rightarrow> ptr list outcome" where
  "hash_bucket w key =
     (if hash_min key < length (sk_hash w) then Ret (sk_hash w ! hash_min key)
      else Fault Out_of_bounds)"

definition hash_add :: "world \<Rightarrow> ptr \<Rightarrow> u64 \<Rightarrow> world outcome" where
  "hash_add w s key =
     obind (hash_bucket w key) (\<lambda>b. Ret (w\<lparr>sk_hash := (sk_hash w)[hash_min key := s # b]\<rparr>))"

text \<open>\<open>hash_for_each_possible(\<dots>) if (obj->hash == hash) break;\<close>\<close>

fun hash_scan :: "world \<Rightarrow> u64 \<Rightarrow> ptr list \<Rightarrow> ptr option outcome" where
  "hash_scan w key [] = Ret None"
| "hash_scan w key (s # b) =
     obind (deref w s) (\<lambda>k. if sk_hashval k = key then Ret (Some s) else hash_scan w key b)"

definition hash_find :: "world \<Rightarrow> u64 \<Rightarrow> ptr option outcome" where
  "hash_find w key = obind (hash_bucket w key) (hash_scan w key)"

definition hash_del :: "world \<Rightarrow> ptr \<Rightarrow> world" where
  "hash_del w s = w\<lparr>sk_hash := map (filter (\<lambda>t. t \<noteq> s)) (sk_hash w)\<rparr>"

subsection \<open>The table as a map\<close>

text \<open>Every listed socket is allocated and stands in the bucket of its own hash.\<close>

definition table_ok :: "world \<Rightarrow> bool" where
  "table_ok w \<longleftrightarrow> length (sk_hash w) = HASH_SIZE
     \<and> (\<forall>i < HASH_SIZE. \<forall>s \<in> set (sk_hash w ! i). \<exists>k. heap w s = Some k \<and> hash_min (sk_hashval k) = i)"

definition hashed :: "world \<Rightarrow> ptr \<Rightarrow> bool" where
  "hashed w s \<longleftrightarrow> s \<in> \<Union> (set ` set (sk_hash w))"

lemma hashed_alloc: "table_ok w \<Longrightarrow> hashed w t \<Longrightarrow> \<exists>k. heap w t = Some k"
  by (force simp: table_ok_def hashed_def in_set_conv_nth [of _ "sk_hash w"])

lemma hash_scan_spec:
  assumes "\<forall>s \<in> set b. heap w s \<noteq> None"
  shows "hash_scan w key b = Ret (find (\<lambda>s. \<exists>k. heap w s = Some k \<and> sk_hashval k = key) b)"
  using assms by (induction b) auto

lemma hash_find_spec:
  assumes "table_ok w" "hash_min key < HASH_SIZE"
  shows "\<exists>r. hash_find w key = Ret r
    \<and> (\<forall>s. r = Some s \<longrightarrow> hashed w s \<and> map_option sk_hashval (heap w s) = Some key)
    \<and> (r = None \<longrightarrow> (\<forall>s. hashed w s \<longrightarrow> map_option sk_hashval (heap w s) \<noteq> Some key))"
proof -
  let ?P = "\<lambda>s. \<exists>k. heap w s = Some k \<and> sk_hashval k = key"
  let ?b = "sk_hash w ! hash_min key"
  have len: "length (sk_hash w) = HASH_SIZE" and
    mem: "\<And>i s. i < HASH_SIZE \<Longrightarrow> s \<in> set (sk_hash w ! i) \<Longrightarrow> \<exists>k. heap w s = Some k \<and> hash_min (sk_hashval k) = i"
    using assms(1) by (auto simp: table_ok_def)
  have find: "hash_find w key = Ret (find ?P ?b)"
    using mem [OF assms(2)] assms(2) len
    by (auto simp: hash_find_def hash_bucket_def intro!: hash_scan_spec)
  have some: "hashed w s \<and> ?P s" if "find ?P ?b = Some s" for s
    using that assms(2) len by (auto simp: find_Some_iff hashed_def) (metis nth_mem)
  have none: "\<forall>s k. hashed w s \<longrightarrow> heap w s = Some k \<longrightarrow> sk_hashval k \<noteq> key" if none: "find ?P ?b = None"
  proof (intro allI impI notI)
    fix s k assume h: "hashed w s" and k: "heap w s = Some k" "sk_hashval k = key"
    then obtain b where "b \<in> set (sk_hash w)" "s \<in> set b"
      by (auto simp: hashed_def)
    then obtain i where i: "i < HASH_SIZE" "s \<in> set (sk_hash w ! i)"
      using len by (metis in_set_conv_nth)
    then have "i = hash_min key" using mem [OF i] k by auto
    then show False using none i k by (auto simp: find_None_iff)
  qed
  show ?thesis
  proof (intro exI conjI allI impI)
    show "hash_find w key = Ret (find ?P ?b)" by (rule find)
  next
    fix s assume "find ?P ?b = Some s"
    from some [OF this] show "hashed w s" "map_option sk_hashval (heap w s) = Some key"
      by auto
  next
    fix s assume "find ?P ?b = None" "hashed w s"
    from none [OF this(1)] this(2) show "map_option sk_hashval (heap w s) \<noteq> Some key"
      by auto
  qed
qed

text \<open>
  The contract of the table, for its clients: a lookup finds a member with the key whenever
  there is one, and insertion and removal change the membership of one socket.
\<close>

locale socket_table =
  fixes ok :: "'w \<Rightarrow> bool"
    and valid :: "u64 \<Rightarrow> bool"
    and lookup :: "'w \<Rightarrow> u64 \<Rightarrow> ptr option outcome"
    and add :: "'w \<Rightarrow> ptr \<Rightarrow> u64 \<Rightarrow> 'w outcome"
    and del :: "'w \<Rightarrow> ptr \<Rightarrow> 'w"
    and member :: "'w \<Rightarrow> ptr \<Rightarrow> bool"
    and key_of :: "'w \<Rightarrow> ptr \<Rightarrow> u64 option"
  assumes lookup_ok: "ok w \<Longrightarrow> valid key \<Longrightarrow> \<exists>r. lookup w key = Ret r
      \<and> (\<forall>s. r = Some s \<longrightarrow> member w s \<and> key_of w s = Some key)
      \<and> (r = None \<longrightarrow> (\<forall>s. member w s \<longrightarrow> key_of w s \<noteq> Some key))"
    and add_ok: "ok w \<Longrightarrow> valid key \<Longrightarrow> key_of w s = Some key \<Longrightarrow> \<exists>w'. add w s key = Ret w' \<and> ok w'
      \<and> (\<forall>t. member w' t \<longleftrightarrow> t = s \<or> member w t) \<and> key_of w' = key_of w"
    and del_ok: "ok w \<Longrightarrow> ok (del w s) \<and> (\<forall>t. member (del w s) t \<longleftrightarrow> t \<noteq> s \<and> member w t)
      \<and> key_of (del w s) = key_of w"
begin

definition distinct_keys :: "'w \<Rightarrow> bool" where
  "distinct_keys w \<longleftrightarrow> (\<forall>s t. member w s \<longrightarrow> member w t \<longrightarrow> key_of w s = key_of w t \<longrightarrow> s = t)"

lemma lookup_member:
  assumes "ok w" "valid key" "distinct_keys w" "member w s" "key_of w s = Some key"
  shows "lookup w key = Ret (Some s)"
proof -
  obtain r where r: "lookup w key = Ret r" "\<forall>t. r = Some t \<longrightarrow> member w t \<and> key_of w t = Some key"
    "r = None \<longrightarrow> (\<forall>t. member w t \<longrightarrow> key_of w t \<noteq> Some key)"
    using lookup_ok [OF assms(1,2)] by blast
  then obtain t where t: "r = Some t" "member w t" "key_of w t = Some key"
    using assms(4,5) by (cases r) auto
  then have "t = s"
    using assms(3-5) by (auto simp: distinct_keys_def)
  then show ?thesis using r t by simp
qed

lemma lookup_absent:
  assumes "ok w" "valid key" "\<forall>s. member w s \<longrightarrow> key_of w s \<noteq> Some key"
  shows "lookup w key = Ret None"
proof -
  obtain r where "lookup w key = Ret r" "\<forall>s. r = Some s \<longrightarrow> member w s \<and> key_of w s = Some key"
    using lookup_ok [OF assms(1,2)] by blast
  then show ?thesis using assms(3) by (cases r) auto
qed

lemma lookup_after_add:
  assumes "ok w" "valid key" "distinct_keys w" "key_of w s = Some key"
    and "\<forall>t. member w t \<longrightarrow> key_of w t \<noteq> Some key"
  shows "\<exists>w'. add w s key = Ret w' \<and> ok w' \<and> distinct_keys w' \<and> lookup w' key = Ret (Some s)
    \<and> (\<forall>key'. valid key' \<longrightarrow> key' \<noteq> key \<longrightarrow> lookup w' key' = lookup w key')"
proof -
  obtain w' where w': "add w s key = Ret w'" "ok w'" "\<forall>t. member w' t \<longleftrightarrow> t = s \<or> member w t"
    "key_of w' = key_of w"
    using add_ok [OF assms(1,2,4)] by blast
  have dist: "distinct_keys w'"
    using assms(3-5) w'(3,4) by (auto simp: distinct_keys_def)
  moreover have "lookup w' key = Ret (Some s)"
    using w' assms(2,4) dist by (intro lookup_member) simp_all
  moreover have "lookup w' key' = lookup w key'" if "valid key'" "key' \<noteq> key" for key'
  proof (cases "\<exists>t. member w t \<and> key_of w t = Some key'")
    case True
    then obtain t where "member w t" "key_of w t = Some key'" by blast
    then show ?thesis
      using lookup_member [OF assms(1) that(1) assms(3)] lookup_member [OF w'(2) that(1) dist] w'(3,4)
      by simp
  next
    case False
    then show ?thesis
      using lookup_absent [OF assms(1) that(1)] lookup_absent [OF w'(2) that(1)] w'(3,4) assms(4) that(2)
      by auto
  qed
  ultimately show ?thesis using w' by blast
qed

lemma lookup_after_del:
  assumes "ok w" "valid key" "distinct_keys w" "member w s" "key_of w s = Some key"
  shows "lookup (del w s) key = Ret None"
  using del_ok [OF assms(1), of s] assms by (intro lookup_absent) (auto simp: distinct_keys_def)

text \<open>Removing a member changes no lookup of another key.\<close>

lemma lookup_del_other:
  assumes "ok w" "valid key" "distinct_keys w" "key_of w s \<noteq> Some key"
  shows "lookup (del w s) key = lookup w key"
proof -
  have d: "ok (del w s)" "\<forall>t. member (del w s) t \<longleftrightarrow> t \<noteq> s \<and> member w t" "key_of (del w s) = key_of w"
    using del_ok [OF assms(1), of s] by blast+
  then have dist: "distinct_keys (del w s)"
    using assms(3) by (simp add: distinct_keys_def)
  show ?thesis
  proof (cases "\<exists>t. member w t \<and> key_of w t = Some key")
    case True
    then obtain t where t: "member w t" "key_of w t = Some key" by blast
    then have "member (del w s) t"
      using d(2) assms(4) by auto
    then show ?thesis
      using lookup_member [OF assms(1,2,3) t] lookup_member [OF d(1) assms(2) dist] d(3) t(2) by simp
  next
    case False
    then show ?thesis
      using lookup_absent [OF assms(1,2)] lookup_absent [OF d(1) assms(2)] d(2,3) by simp
  qed
qed

end

subsection \<open>The table meets its contract\<close>

lemma hashed_add:
  assumes "i < length t"
  shows "x \<in> \<Union> (set ` set (t[i := s # (t ! i)])) \<longleftrightarrow> x = s \<or> x \<in> \<Union> (set ` set t)"
proof -
  have in_set: "x \<in> \<Union> (set ` set u) \<longleftrightarrow> (\<exists>j < length u. x \<in> set (u ! j))" for u :: "'a list list"
    by (metis UN_iff in_set_conv_nth)
  have "(\<exists>j < length t. x \<in> set (t[i := s # (t ! i)] ! j)) \<longleftrightarrow> x = s \<or> (\<exists>j < length t. x \<in> set (t ! j))"
    using assms by (auto simp: nth_list_update split: if_splits)
  then show ?thesis
    unfolding in_set by simp
qed

lemma table_ok_add:
  assumes "table_ok w" "hash_min key < HASH_SIZE" "heap w s = Some k" "sk_hashval k = key"
  shows "\<exists>w'. hash_add w s key = Ret w' \<and> table_ok w'
    \<and> (\<forall>t. hashed w' t \<longleftrightarrow> t = s \<or> hashed w t) \<and> heap w' = heap w"
proof -
  have len: "length (sk_hash w) = HASH_SIZE" using assms(1) by (simp add: table_ok_def)
  show ?thesis
    using assms len hashed_add [of "hash_min key" "sk_hash w" _ s]
    by (auto simp: hash_add_def hash_bucket_def table_ok_def hashed_def nth_list_update)
qed

lemma table_ok_del:
  "table_ok w \<Longrightarrow> table_ok (hash_del w s)"
  "hashed (hash_del w s) t \<longleftrightarrow> t \<noteq> s \<and> hashed w t"
  by (auto simp: table_ok_def hash_del_def hashed_def)

interpretation sk_table: socket_table table_ok "\<lambda>key. hash_min key < HASH_SIZE" hash_find hash_add
  hash_del hashed "\<lambda>w s. map_option sk_hashval (heap w s)"
proof unfold_locales
  fix w key s assume "table_ok w" "hash_min key < HASH_SIZE" "map_option sk_hashval (heap w s) = Some key"
  then show "\<exists>w'. hash_add w s key = Ret w' \<and> table_ok w'
      \<and> (\<forall>t. hashed w' t \<longleftrightarrow> t = s \<or> hashed w t)
      \<and> (\<lambda>s. map_option sk_hashval (heap w' s)) = (\<lambda>s. map_option sk_hashval (heap w s))"
    using table_ok_add by fastforce
qed (use hash_find_spec in blast, auto simp: table_ok_del, simp add: hash_del_def)

text \<open>
  C34: A socket added to the table under its own connection hash is found under it and is no
  longer found once it is deleted, and neither step changes what is found under any other hash.
  It supposes that the top byte of the hash, the last octet of the client's IPv4 address, is
  below the number of buckets (\<open>hash_add_out_of_bounds\<close> says what happens otherwise), and that
  no two open connections share a hash.
\<close>

theorem hash_add_find_del:
  assumes ok: "table_ok w" and key: "hash_min key < HASH_SIZE" and k: "heap w s = Some k" "sk_hashval k = key"
    and uniq: "\<forall>s t ks kt. hashed w s \<longrightarrow> hashed w t \<longrightarrow> heap w s = Some ks \<longrightarrow> heap w t = Some kt
      \<longrightarrow> sk_hashval ks = sk_hashval kt \<longrightarrow> s = t"
    and fresh: "\<forall>t kt. hashed w t \<longrightarrow> heap w t = Some kt \<longrightarrow> sk_hashval kt \<noteq> key"
  shows "\<exists>w'. hash_add w s key = Ret w' \<and> table_ok w' \<and> hash_find w' key = Ret (Some s)
    \<and> table_ok (hash_del w' s) \<and> hash_find (hash_del w' s) key = Ret None
    \<and> (\<forall>key'. hash_min key' < HASH_SIZE \<longrightarrow> key' \<noteq> key
        \<longrightarrow> hash_find w' key' = hash_find w key' \<and> hash_find (hash_del w' s) key' = hash_find w key')"
proof -
  have "s1 = s2" if h: "hashed w s1" "hashed w s2"
    and e: "map_option sk_hashval (heap w s1) = map_option sk_hashval (heap w s2)" for s1 s2
  proof -
    obtain k1 where "heap w s1 = Some k1" using hashed_alloc [OF ok h(1)] ..
    moreover obtain k2 where "heap w s2 = Some k2" using hashed_alloc [OF ok h(2)] ..
    ultimately show ?thesis using uniq h e by simp
  qed
  then have d: "sk_table.distinct_keys w"
    unfolding sk_table.distinct_keys_def by blast
  have "map_option sk_hashval (heap w s) = Some key"
    "\<forall>t. hashed w t \<longrightarrow> map_option sk_hashval (heap w t) \<noteq> Some key"
    using k fresh by auto
  from sk_table.lookup_after_add [OF ok key d this]
  obtain w' where w': "hash_add w s key = Ret w'" "table_ok w'" "sk_table.distinct_keys w'"
    "hash_find w' key = Ret (Some s)"
    "\<forall>key'. hash_min key' < HASH_SIZE \<longrightarrow> key' \<noteq> key \<longrightarrow> hash_find w' key' = hash_find w key'"
    by blast
  have at: "hashed w' s" "heap w' = heap w"
    using table_ok_add [OF ok key k] w'(1) by auto
  then have "hash_find (hash_del w' s) key = Ret None"
    using sk_table.lookup_after_del [OF w'(2) key w'(3), of s] k by simp
  moreover have "hash_find (hash_del w' s) key' = hash_find w' key'" if "hash_min key' < HASH_SIZE" "key' \<noteq> key" for key'
    using sk_table.lookup_del_other [OF w'(2) that(1) w'(3), of s] at(2) k that(2) by simp
  ultimately show ?thesis
    using w'(1,2,4,5) table_ok_del(1) [OF w'(2)] by auto
qed

theorem hash_add_find_del_witness:
  "let k = zero_sk\<lparr>sk_hashval := 0x0100007f1f900001\<rparr>; l = zero_sk\<lparr>sk_hashval := 0x0100007f1f910002\<rparr>;
       w = (init_world default_cfg)\<lparr>heap := [3 \<mapsto> k, 4 \<mapsto> l], sk_hash := (replicate HASH_SIZE [])[1 := [4]]\<rparr>
   in \<exists>w'. hash_add w 3 (sk_hashval k) = Ret w' \<and> hash_find w' (sk_hashval k) = Ret (Some 3)
    \<and> hash_find (hash_del w' 3) (sk_hashval k) = Ret None
    \<and> hash_find (hash_del w' 3) (sk_hashval l) = Ret (Some 4)"
proof -
  let ?k = "zero_sk\<lparr>sk_hashval := 0x0100007f1f900001\<rparr>" and ?l = "zero_sk\<lparr>sk_hashval := 0x0100007f1f910002\<rparr>"
  let ?w = "(init_world default_cfg)\<lparr>heap := [3 \<mapsto> ?k, 4 \<mapsto> ?l], sk_hash := (replicate HASH_SIZE [])[1 := [4]]\<rparr>"
  have h: "hash_min 0x0100007f1f900001 = 1" "hash_min 0x0100007f1f910002 = 1"
    by code_simp+
  have t: "hashed ?w t \<longleftrightarrow> t = 4" for t
    by (simp add: hashed_def HASH_SIZE_def eval_nat_numeral)
  have ok: "table_ok ?w"
    using h by (auto simp: table_ok_def HASH_SIZE_def nth_list_update)
  have l: "hash_find ?w 0x0100007f1f910002 = Ret (Some 4)"
    using h by (simp add: hash_find_def hash_bucket_def HASH_SIZE_def)
  show ?thesis
    using hash_add_find_del [of ?w "0x0100007f1f900001" 3 ?k] ok h t l by (auto simp: Let_def HASH_SIZE_def)
qed

text \<open>
  HASH_BITS is half the number of buckets, not its logarithm: the eight top bits of the hash
  (the last octet of the client's IPv4 address) select one of sixteen buckets. A client at
  127.0.0.16 already writes past the table.
\<close>

lemma hash_add_out_of_bounds:
  "length (sk_hash w) = HASH_SIZE \<Longrightarrow> hash_add w s 0x1000007f1f900001 = Fault Out_of_bounds"
proof -
  have "hash_min 0x1000007f1f900001 = HASH_SIZE"
    by code_simp
  then show "length (sk_hash w) = HASH_SIZE \<Longrightarrow> hash_add w s 0x1000007f1f900001 = Fault Out_of_bounds"
    by (simp add: hash_add_def hash_bucket_def)
qed

end
