(* ===== verification/Sockets.thy ===== *)
theory Sockets
  imports Pp2 Hashtable
begin

text \<open>
  The invariant of the socket heap and the operations of \<open>Common\<close>, \<open>Ws\<close> and \<open>Pp2\<close> that keep it:
  every allocated socket has two well-formed buffers and stands in the epoll set with the
  events it records, no two sockets share a descriptor, and the backend connection speaks
  the proxy protocol. \<open>evolves\<close> says in addition that an operation left the identity of
  every socket, the tables and the configuration alone.
\<close>

definition wsd_ok :: "world \<Rightarrow> bool" where
  "wsd_ok w \<longleftrightarrow> (\<forall>s k. heap w s = Some k \<longrightarrow> live w s k)
     \<and> (\<forall>s t k l. heap w s = Some k \<longrightarrow> heap w t = Some l \<longrightarrow> sk_fd k = sk_fd l \<longrightarrow> s = t)
     \<and> (\<forall>p. pp2sk w = Some p \<longrightarrow> (\<exists>pk. heap w p = Some pk
          \<and> encode_frame (sk_proto pk) = Some Pp2_encode_frame
          \<and> decode_frame (sk_proto pk) = Some Pp2_decode_frame))"

lemma wsd_ok_live: "wsd_ok w \<Longrightarrow> heap w s = Some k \<Longrightarrow> live w s k"
  by (simp add: wsd_ok_def)

lemma wsd_ok_wf:
  assumes "wsd_ok w" "heap w s = Some k"
  shows "skb_wf (sk_sendbuf k)" "skb_wf (sk_recvbuf k)" "registered w k"
  using liveD [OF wsd_ok_live [OF assms]] by simp_all

lemma wsd_ok_fd: "wsd_ok w \<Longrightarrow> heap w s = Some k \<Longrightarrow> heap w t = Some l \<Longrightarrow> s \<noteq> t \<Longrightarrow> sk_fd k \<noteq> sk_fd l"
  by (auto simp: wsd_ok_def)

lemma wsd_ok_pp2sk:
  assumes "wsd_ok w" "pp2sk w = Some p"
  obtains pk where "heap w p = Some pk" "encode_frame (sk_proto pk) = Some Pp2_encode_frame"
    "decode_frame (sk_proto pk) = Some Pp2_decode_frame"
  using assms by (auto simp: wsd_ok_def)

text \<open>What identifies a socket, and no frame operation changes.\<close>

definition ident :: "sk \<Rightarrow> int \<times> u64 \<times> proto \<times> ops \<times> sockaddr_in \<times> sockaddr_in" where
  "ident k = (sk_fd k, sk_hashval k, sk_proto k, sk_ops k, sk_src_addr k, sk_dst_addr k)"

definition same_sockets :: "world \<Rightarrow> world \<Rightarrow> bool" where
  "same_sockets w w' \<longleftrightarrow> (\<forall>s. map_option ident (heap w' s) = map_option ident (heap w s))
     \<and> pp2sk w' = pp2sk w \<and> sk_hash w' = sk_hash w \<and> sk_list w' = sk_list w
     \<and> work_list w' = work_list w \<and> wsd_cfg w' = wsd_cfg w"

definition evolves :: "world \<Rightarrow> world \<Rightarrow> bool" where
  "evolves w w' \<longleftrightarrow> wsd_ok w' \<and> same_sockets w w'"

lemma evolves_refl: "wsd_ok w \<Longrightarrow> evolves w w"
  by (simp add: evolves_def same_sockets_def)

lemma evolves_trans [trans]: "evolves w w1 \<Longrightarrow> evolves w1 w2 \<Longrightarrow> evolves w w2"
  by (simp add: evolves_def same_sockets_def)

lemma evolvesD:
  assumes "evolves w w'"
  shows "wsd_ok w'" "pp2sk w' = pp2sk w" "sk_hash w' = sk_hash w" "sk_list w' = sk_list w"
    "work_list w' = work_list w" "wsd_cfg w' = wsd_cfg w"
  using assms by (simp_all add: evolves_def same_sockets_def)

lemma evolves_heap:
  assumes "evolves w w'" "heap w s = Some k"
  obtains k' where "heap w' s = Some k'" "ident k' = ident k"
proof -
  have "map_option ident (heap w' s) = Some (ident k)"
    using assms by (simp add: evolves_def same_sockets_def)
  then show thesis using that by auto
qed

lemma evolves_alloc: "evolves w w' \<Longrightarrow> heap w s \<noteq> None \<Longrightarrow> \<exists>k. heap w' s = Some k"
  by (elim evolves_heap [of w w' s "the (heap w s)"]) auto

lemma live_errno [simp]: "live (w\<lparr>wsd_errno := e\<rparr>) s k = live w s k"
  by (simp add: live_def registered_def)

lemma evolves_errno: "evolves w w' \<Longrightarrow> evolves w (w'\<lparr>wsd_errno := e\<rparr>)"
  by (simp add: evolves_def same_sockets_def wsd_ok_def)

lemma evolves_from_errno: "evolves (w\<lparr>wsd_errno := e\<rparr>) w' \<Longrightarrow> evolves w w'"
  by (simp add: evolves_def same_sockets_def)

text \<open>The invariant is kept when the sockets keep their identities and stay live.\<close>

lemma wsd_ok_keep:
  assumes ok: "wsd_ok w" and id: "\<forall>t. map_option ident (heap w' t) = map_option ident (heap w t)"
    and live: "\<And>t l. heap w' t = Some l \<Longrightarrow> live w' t l" and pp: "pp2sk w' = pp2sk w"
  shows "wsd_ok w'"
proof -
  have old: "\<exists>l'. heap w t = Some l' \<and> sk_fd l' = sk_fd l" if "heap w' t = Some l" for t l
  proof -
    have "map_option ident (heap w t) = Some (ident l)"
      using id that by (metis option.simps(9))
    then show ?thesis by (auto simp: ident_def)
  qed
  have inj: "t = u" if t: "heap w' t = Some l" and u: "heap w' u = Some m" and e: "sk_fd l = sk_fd m" for t u l m
  proof -
    obtain l' m' where "heap w t = Some l'" "heap w u = Some m'" "sk_fd l' = sk_fd m'"
      using old [OF t] old [OF u] e by auto
    then show ?thesis
      using wsd_ok_fd [OF ok, of t l' u m'] by blast
  qed
  have "\<exists>pk. heap w' p = Some pk \<and> encode_frame (sk_proto pk) = Some Pp2_encode_frame
      \<and> decode_frame (sk_proto pk) = Some Pp2_decode_frame" if p: "pp2sk w = Some p" for p
  proof -
    obtain pk where pk: "heap w p = Some pk" "encode_frame (sk_proto pk) = Some Pp2_encode_frame"
      "decode_frame (sk_proto pk) = Some Pp2_decode_frame"
      using wsd_ok_pp2sk [OF ok p] .
    then have "map_option ident (heap w' p) = Some (ident pk)"
      using id by simp
    then show ?thesis using pk by (auto simp: ident_def)
  qed
  then show ?thesis
    using live inj unfolding wsd_ok_def pp by blast
qed

text \<open>An assignment to a socket that keeps its identity and its recorded events.\<close>

lemma evolves_put:
  assumes ok: "wsd_ok w" and k: "heap w s = Some k" and id: "ident k' = ident k" "sk_events k' = sk_events k"
    and wf: "skb_wf (sk_sendbuf k')" "skb_wf (sk_recvbuf k')"
  shows "evolves w (put_sk w s k')"
proof -
  have fd: "sk_fd k' = sk_fd k"
    using id by (simp add: ident_def)
  have live: "live (put_sk w s k') t l" if "heap (put_sk w s k') t = Some l" for t l
    using that wf id(2) fd wsd_ok_live [OF ok, of t l] wsd_ok_wf(3) [OF ok k]
    by (cases "t = s") (auto simp: live_def registered_def)
  have "wsd_ok (put_sk w s k')"
    using id(1) k live by (intro wsd_ok_keep [OF ok]) auto
  then show ?thesis
    using id(1) k by (simp add: evolves_def same_sockets_def)
qed

lemma evolves_set_events:
  assumes ok: "wsd_ok w" and k: "heap w s = Some k"
  shows "evolves w (set_events w s k ev)"
proof -
  have live: "live (set_events w s k ev) t l" if "heap (set_events w s k ev) t = Some l" for t l
  proof (cases "t = s")
    case True
    then show ?thesis
      using that wsd_ok_wf [OF ok k] by (auto simp: live_def registered_def)
  next
    case False
    then show ?thesis
      using that wsd_ok_fd [OF ok k, of t l] wsd_ok_live [OF ok, of t l] by (auto simp: live_def registered_def)
  qed
  have "wsd_ok (set_events w s k ev)"
    using k live by (intro wsd_ok_keep [OF ok]) (auto simp: ident_def)
  then show ?thesis
    using k by (simp add: evolves_def same_sockets_def ident_def)
qed

subsection \<open>Operations of one socket\<close>

text \<open>What is waiting to be decoded.\<close>

definition inbuf :: "world \<Rightarrow> ptr \<Rightarrow> u8 list" where
  "inbuf w s = (case heap w s of None \<Rightarrow> [] | Some k \<Rightarrow> pending (sk_recvbuf k))"

text \<open>The invariant holds afterwards and no receive buffer has changed.\<close>

definition output_only :: "world \<Rightarrow> world \<Rightarrow> bool" where
  "output_only w w' \<longleftrightarrow> evolves w w' \<and> (\<forall>t. inbuf w' t = inbuf w t)"

lemma output_only_refl: "wsd_ok w \<Longrightarrow> output_only w w"
  by (simp add: output_only_def evolves_refl)

lemma output_only_trans: "output_only w w1 \<Longrightarrow> output_only w1 w2 \<Longrightarrow> output_only w w2"
  by (auto simp: output_only_def intro: evolves_trans)

lemma output_only_ok: "output_only w w' \<Longrightarrow> wsd_ok w'"
  by (auto simp: output_only_def dest: evolvesD(1))

lemma output_only_errno: "output_only w w' \<Longrightarrow> output_only w (w'\<lparr>wsd_errno := e\<rparr>)"
  by (simp add: output_only_def evolves_errno inbuf_def)

lemma output_only_set_events:
  "wsd_ok w \<Longrightarrow> heap w s = Some k \<Longrightarrow> output_only w (set_events w s k ev)"
  by (simp add: output_only_def evolves_set_events inbuf_def)

lemma output_only_put:
  assumes "wsd_ok w" "heap w s = Some k" "ident k' = ident k" "sk_events k' = sk_events k"
    and "skb_wf (sk_sendbuf k')" "sk_recvbuf k' = sk_recvbuf k"
  shows "output_only w (put_sk w s k')"
  using assms wsd_ok_wf(2) [OF assms(1,2)] evolves_put [OF assms(1-4)]
  by (simp add: output_only_def inbuf_def)

lemma post_turn_on:
  "wsd_ok w \<Longrightarrow> heap w s = Some k \<Longrightarrow> post (turn_on_events w s ev) (output_only w)"
  using wsd_ok_wf(3) [of w s k] by (simp add: turn_on_events_ok output_only_set_events)

lemma post_turn_off:
  "wsd_ok w \<Longrightarrow> heap w s = Some k \<Longrightarrow> post (turn_off_events w s ev) (output_only w)"
  using wsd_ok_wf(3) [of w s k] by (simp add: turn_off_events_ok output_only_set_events)

lemma post_ensure:
  "wsd_ok w \<Longrightarrow> heap w s = Some k \<Longrightarrow> post (ensure_events w s ev) (output_only w)"
  using wsd_ok_wf(3) [of w s k]
  by (simp add: ensure_events_def turn_on_events_ok output_only_set_events output_only_refl)

text \<open>Every encoder ends by storing the send buffer and asking for EPOLLOUT.\<close>

lemma post_send_and_ask:
  assumes "wsd_ok w" "heap w s = Some k" "ident k' = ident k" "sk_events k' = sk_events k"
    and "skb_wf (sk_sendbuf k')" "sk_recvbuf k' = sk_recvbuf k" "f k = k'"
  shows "post (obind (upd_sk w s f) (\<lambda>w. obind (ensure_events w s EPOLLOUT) (\<lambda>w. Ret (rv, w))))
    (\<lambda>(rv', w'). rv' = rv \<and> output_only w w')"
proof -
  have o: "output_only w (put_sk w s k')"
    using assms by (intro output_only_put) simp_all
  have "post (ensure_events (put_sk w s k') s EPOLLOUT) (output_only w)"
    by (rule post_mono [OF post_ensure [OF output_only_ok [OF o]]]) (auto intro: output_only_trans [OF o])
  then show ?thesis
    using assms(2,7) by (auto intro!: vcg)
qed

lemma post_emit:
  assumes ok: "wsd_ok w" and k: "heap w s = Some k"
    and enc: "(\<exists>b. enc = Ret (Inr b) \<and> skb_wf b) \<or> (\<exists>e. enc = Ret (Inl e))"
    and f: "\<And>b. ident (f b k) = ident k" "\<And>b. sk_events (f b k) = sk_events k"
      "\<And>b. sk_sendbuf (f b k) = b" "\<And>b. sk_recvbuf (f b k) = sk_recvbuf k"
  shows "post (obind enc (\<lambda>res. case res of Inl e \<Rightarrow> Ret (-1, w\<lparr>wsd_errno := e\<rparr>)
      | Inr b \<Rightarrow> obind (upd_sk w s (f b)) (\<lambda>w. obind (ensure_events w s EPOLLOUT) (\<lambda>w. Ret (0, w)))))
    (\<lambda>(rv, w'). output_only w w')"
  using enc
proof (elim disjE exE conjE)
  fix b assume "enc = Ret (Inr b)" "skb_wf b"
  then show ?thesis
    using f by (auto intro!: post_mono [OF post_send_and_ask [OF ok k, of "f b k" "f b" 0]])
qed (simp add: output_only_errno output_only_refl ok)

lemma ws_send_control_post:
  assumes ok: "wsd_ok w" and k: "heap w s = Some k"
  shows "post (ws_send_control op w s do_mask) (\<lambda>(rv, w'). output_only w w')"
proof -
  have "(\<exists>b. encode_ping_pong_frame (sk_sendbuf k) op do_mask = Ret (Inr b) \<and> skb_wf b)
      \<or> (\<exists>e. encode_ping_pong_frame (sk_sendbuf k) op do_mask = Ret (Inl e))"
    using skbq.push_ok [OF wsd_ok_wf(1) [OF ok k], of "ws_control op do_mask"]
    by (auto simp: encode_ping_pong_frame_put [OF wsd_ok_wf(1) [OF ok k]])
  from post_emit [OF ok k this, of "\<lambda>b k. k\<lparr>sk_sendbuf := b\<rparr>"] show ?thesis
    unfolding ws_send_control_def using k by (cases "sk_closing k") (simp_all add: ident_def)
qed

lemma encode_close_frame_cases:
  assumes "skb_wf b"
  shows "(\<exists>b'. encode_close_frame b status do_mask = Ret (Inr b') \<and> skb_wf b')
    \<or> (\<exists>e. encode_close_frame b status do_mask = Ret (Inl e))"
  using skbq.push_ok [OF assms, of "ws_close_bytes status do_mask"]
  by (auto simp: encode_close_frame_put [OF assms])

lemma ws_start_closing_handshake_post:
  assumes ok: "wsd_ok w" and k: "heap w s = Some k"
  shows "post (ws_start_closing_handshake w s status do_mask) (\<lambda>(rv, w'). output_only w w')"
proof -
  from post_emit [OF ok k encode_close_frame_cases [OF wsd_ok_wf(1) [OF ok k]],
      of "\<lambda>b k. k\<lparr>sk_sendbuf := b, sk_closing := True\<rparr>"] show ?thesis
    unfolding ws_start_closing_handshake_def using k by (cases "sk_closing k") (simp_all add: ident_def)
qed

lemma ws_finish_closing_handshake_post:
  assumes ok: "wsd_ok w" and k: "heap w s = Some k"
    and len: "2 \<le> len \<Longrightarrow> 2 \<le> length (inbuf w s)"
  shows "post (ws_finish_closing_handshake w s do_mask len)
    (\<lambda>(rv, w'). evolves w w' \<and> inbuf w' s = [] \<and> (\<forall>t. t \<noteq> s \<longrightarrow> inbuf w' t = inbuf w t))"
proof -
  note wf = wsd_ok_wf [OF ok k]
  have reset: "evolves w (put_sk w s k') \<and> inbuf (put_sk w s k') s = []
      \<and> (\<forall>t. t \<noteq> s \<longrightarrow> inbuf (put_sk w s k') t = inbuf w t)"
    if "ident k' = ident k" "sk_events k' = sk_events k" "skb_wf (sk_sendbuf k')"
      "sk_recvbuf k' = skb_reset rb" "length (skb_data rb) = 1048576" for k' rb
    using that evolves_put [OF ok k, of k'] by (simp add: skb_reset_ok inbuf_def)
  have status: "\<exists>st rb. (if ucast WS_FRAME_STATUS_LEN \<le> len \<and> WS_FRAME_STATUS_LEN \<le> skb_wrsz (sk_sendbuf k)
      then obind (skb_get16 (sk_recvbuf k)) (\<lambda>(status, b). Ret (be16toh status, b))
      else Ret (0, sk_recvbuf k)) = Ret (st, rb) \<and> skb_wf rb" (is "\<exists>st rb. ?m = Ret (st, rb) \<and> _")
  proof (cases "2 \<le> len")
    case True
    then have "2 \<le> length (pending (sk_recvbuf k))"
      using len k by (simp add: inbuf_def)
    then show ?thesis
      using skbq.pull_ok [OF wf(2)] wf(2) by (fastforce simp: skb_get16_def ws_len_defs)
  qed (use wf(2) in \<open>simp add: ws_len_defs\<close>)
  show ?thesis
  proof (cases "sk_closing k")
    case True
    then show ?thesis
      using k wf skb_wfD(1) [OF wf(2)] reset [of _ "sk_recvbuf k"]
      by (simp add: ws_finish_closing_handshake_def ident_def)
  next
    case False
    obtain st rb where m: "?m = Ret (st, rb)" "skb_wf rb" using status by blast
    note rb = skb_wfD(1) [OF m(2)]
    have "evolves w (w'\<lparr>wsd_errno := e\<rparr>) \<and> inbuf (w'\<lparr>wsd_errno := e\<rparr>) t = inbuf w' t" if "evolves w w'" for w' e t
      using that by (simp add: evolves_errno inbuf_def)
    then show ?thesis
      using encode_close_frame_cases [OF wf(1), of "uint st" do_mask] False k wf rb
        reset [of "k\<lparr>sk_recvbuf := skb_reset rb\<rparr>" rb] reset [OF _ _ _ _ rb]
      unfolding ws_finish_closing_handshake_def
      by (auto simp: m(1) ident_def evolves_errno)
  qed
qed

subsection \<open>Operations of a client and the backend\<close>

lemma evolves_two:
  assumes ok: "wsd_ok w" and p: "heap w p = Some pk" and s: "heap w s = Some k" and ne: "p \<noteq> s"
    and pk': "ident pk' = ident pk" "sk_events pk' = sk_events pk" "skb_wf (sk_sendbuf pk')" "skb_wf (sk_recvbuf pk')"
    and k': "ident k' = ident k" "sk_events k' = sk_events k" "skb_wf (sk_sendbuf k')" "skb_wf (sk_recvbuf k')"
  shows "evolves w (put_sk (put_sk w p pk') s k')"
proof -
  have e: "evolves w (put_sk w p pk')"
    using ok p pk' by (rule evolves_put)
  also have "evolves (put_sk w p pk') (put_sk (put_sk w p pk') s k')"
    using s ne k' by (intro evolves_put [OF evolvesD(1) [OF e]]) simp_all
  finally show ?thesis .
qed

lemma pp2_encode_frame_post:
  assumes ok: "wsd_ok w" and k: "heap w s = Some k" and p: "pp2sk w = Some p" "p \<noteq> s"
    and n: "n = unat (wsf_payload_len wsf)" "n \<le> length (inbuf w s)"
  shows "post (pp2_encode_frame w s wsf) (\<lambda>(rv, w'). evolves w w' \<and> rv \<in> {0, -1}
    \<and> (\<forall>t. t \<noteq> s \<longrightarrow> inbuf w' t = inbuf w t)
    \<and> inbuf w' s = (if rv = 0 then drop n (inbuf w s) else inbuf w s))"
proof -
  obtain pk where pk: "heap w p = Some pk"
    using wsd_ok_pp2sk [OF ok p(1)] .
  note wf = wsd_ok_wf [OF ok k] and pwf = wsd_ok_wf [OF ok pk]
  have n': "n \<le> length (pending (sk_recvbuf k))"
    using n(2) k by (simp add: inbuf_def)
  show ?thesis
  proof (cases "room (sk_sendbuf pk) < 46 + n")
    case True
    then show ?thesis
      using pp2_encode_frame_full [OF p(1) pk] n(1) n' skbq.fits [OF wf(2)]
      by (simp add: evolves_errno evolves_refl ok inbuf_def)
  next
    case False
    then have "46 + n \<le> room (sk_sendbuf pk)" by simp
    then obtain b r where r: "pp2_encode_frame w s wsf
        = Ret (0, put_sk (put_sk w p (pk\<lparr>sk_sendbuf := b\<rparr>)) s (k\<lparr>sk_recvbuf := r\<rparr>))"
      "skb_wf b" "skb_wf r" "pending r = drop n (pending (sk_recvbuf k))"
      using pp2_encode_frame_run [OF k wf(2) p pk pwf(1) n(1) n'] by blast
    have "evolves w (put_sk (put_sk w p (pk\<lparr>sk_sendbuf := b\<rparr>)) s (k\<lparr>sk_recvbuf := r\<rparr>))"
      using r(2,3) wf pwf by (intro evolves_two [OF ok pk k p(2)]) (simp_all add: ident_def)
    then show ?thesis
      using p(2) k pk by (simp add: r(1,4) inbuf_def)
  qed
qed

text \<open>A data frame to a client may overrun its buffer; when it returns, the invariant holds.\<close>

lemma skb_put_wf: "skb_put_mem b bs = Ret b' \<Longrightarrow> skb_wf b \<Longrightarrow> skb_wf b'"
  using skbq.push_RetD by blast

lemma ws_set_payload_len_wf:
  assumes "skb_wf b" "ws_set_payload_len b len byte2 = Ret (rv, b')"
  shows "skb_wf b'"
  using assms
  by (auto simp: ws_set_payload_len_def skb_put8_def skb_put16_def skb_put64_def outcome_simps
      split: if_splits intro: skb_put_wf)

lemma skb_move_RetD:
  assumes "skb_wf dst" "skb_wf src" "n \<le> length (pending src)" "skb_move f n dst src = Ret (dst', src')"
  shows "skb_wf dst' \<and> skb_wf src' \<and> pending src' = drop n (pending src)"
proof -
  have "n \<le> room dst"
    using assms skbq.move_loop_overflow [OF assms(1-3), of f 0] by (fastforce simp: skb_move_def)
  then show ?thesis
    using skbq.move_loop_ok [OF assms(1-3), of f 0] assms(4) by (auto simp: skb_move_def)
qed

lemma ws_encode_frame_RetD:
  assumes ok: "wsd_ok w" and k: "heap w s = Some k" and p: "pp2sk w = Some p" "p \<noteq> s"
    and n: "n = unat (wsf_payload_len wsf)" "n \<le> length (inbuf w p)"
    and ret: "ws_encode_frame w s wsf = Ret (rv, w')"
  shows "evolves w w' \<and> rv \<in> {0, -1} \<and> (\<forall>t. t \<noteq> p \<longrightarrow> inbuf w' t = inbuf w t)
    \<and> inbuf w' p = (if rv = 0 then drop n (inbuf w p) else inbuf w p)"
proof -
  obtain pk where pk: "heap w p = Some pk"
    using wsd_ok_pp2sk [OF ok p(1)] .
  note wf = wsd_ok_wf [OF ok k] and pwf = wsd_ok_wf [OF ok pk]
  have n': "n \<le> length (pending (sk_recvbuf pk))"
    using n(2) pk by (simp add: inbuf_def)
  obtain fl e where fl: "ws_calculate_frame_length (wsd_errno w) (wsf_payload_len wsf) = (fl, e)"
    by fastforce
  let ?b1 = "set_opcode (set_fin_bit (wsf_byte1 wsf)) WS_TEXT_FRAME" and ?w = "w\<lparr>wsd_errno := e\<rparr>"
  show ?thesis
  proof (cases "uint (skb_wrsz (sk_sendbuf k)) < fl")
    case True
    then have "rv = -1" "w' = w\<lparr>wsd_errno := WSD_EAGAIN\<rparr>"
      using ret k fl by (auto simp: ws_encode_frame_def outcome_simps)
    then show ?thesis
      by (simp add: evolves_errno evolves_refl ok inbuf_def)
  next
    case False
    then obtain b b' rv' d r r' w2 where st: "skb_put8 (sk_sendbuf k) ?b1 = Ret b"
      "ws_set_payload_len b (wsf_payload_len wsf) 0 = Ret (rv', b')"
      "skb_move (\<lambda>c _. c) n b' (sk_recvbuf pk) = Ret (d, r)" "skb_compact r = Ret r'"
      "ensure_events (put_sk (put_sk ?w s (k\<lparr>sk_sendbuf := d\<rparr>)) p (pk\<lparr>sk_recvbuf := r'\<rparr>)) s EPOLLOUT = Ret w2"
      "rv = 0" "turn_on_events w2 s EPOLLIN = Ret w' \<or> w2 = w'"
      using ret k fl p pk n(1)
      by (auto simp: ws_encode_frame_def outcome_simps Let_def split: if_splits)
    let ?w1 = "put_sk (put_sk ?w s (k\<lparr>sk_sendbuf := d\<rparr>)) p (pk\<lparr>sk_recvbuf := r'\<rparr>)"
    have b': "skb_wf b'"
      using st(1,2) ws_set_payload_len_wf skbq.push_RetD [OF wf(1)] unfolding skb_put8_def by blast
    have d: "skb_wf d" "skb_wf r" "pending r = drop n (pending (sk_recvbuf pk))"
      using skb_move_RetD [OF b' pwf(2) n' st(3)] by simp_all
    have r': "skb_wf r'" "pending r' = drop n (pending (sk_recvbuf pk))"
      using skbq.compact_RetD [OF d(2) st(4)] d(3) by simp_all
    have ok': "wsd_ok ?w"
      using evolvesD(1) [OF evolves_errno [OF evolves_refl [OF ok]]] .
    have e1: "evolves ?w ?w1"
      using p(2) k pk wf pwf d r' by (intro evolves_two [OF ok']) (auto simp: ident_def)
    have o2: "output_only ?w1 w2"
      using post_RetD [OF post_ensure [OF evolvesD(1) [OF e1]] st(5)] p(2) by simp
    have "\<exists>k2. heap w2 s = Some k2"
      using evolves_alloc [of ?w1 w2 s] o2 p(2) by (simp add: output_only_def)
    then have o3: "output_only w2 w'"
      using st(7) post_RetD [OF post_turn_on [OF output_only_ok [OF o2]]] output_only_refl [OF output_only_ok [OF o2]]
      by auto
    have "evolves ?w w'"
      using e1 output_only_trans [OF o2 o3] by (auto simp: output_only_def intro: evolves_trans)
    moreover have "inbuf w' t = inbuf ?w1 t" for t
      using output_only_trans [OF o2 o3] by (simp add: output_only_def)
    ultimately show ?thesis
      using evolves_from_errno p(2) k pk r' st(6) by (auto simp: inbuf_def)
  qed
qed

end
