(* ===== verification/Decode.thy ===== *)
theory Decode
  imports Wsk Sockets
begin

text \<open>
  The decoding half of src/ws.c, src/pp2.c and src/wscat.c: one frame off a receive buffer,
  and what is done with it. Decoding calls the encoder of the other side through its
  protocol table; the \<open>call_\<close> functions below are these indirect calls, and calling through
  a null entry is a fault.
\<close>

subsection \<open>Indirect calls\<close>

definition call_encode_frame ::
  "encode_frame_fn option \<Rightarrow> world \<Rightarrow> ptr \<Rightarrow> wsframe \<Rightarrow> (int \<times> world) outcome" where
  "call_encode_frame f w s wsf =
     (case f of
        None \<Rightarrow> Fault Null_call
      | Some Ws_encode_frame \<Rightarrow> ws_encode_frame w s wsf
      | Some Pp2_encode_frame \<Rightarrow> pp2_encode_frame w s wsf
      | Some Wssk_ws_encode_frame \<Rightarrow> wssk_ws_encode_frame w s wsf)"

definition call_ctl :: "ctl_fn option \<Rightarrow> world \<Rightarrow> ptr \<Rightarrow> bool \<Rightarrow> (int \<times> world) outcome" where
  "call_ctl f w s do_mask =
     (case f of
        None \<Rightarrow> Fault Null_call
      | Some Ws_ping \<Rightarrow> ws_ping w s do_mask
      | Some Ws_pong \<Rightarrow> ws_pong w s do_mask
      | Some Pp2_nop \<Rightarrow> pp2_nop w s do_mask
      | Some Stdin_nop \<Rightarrow> stdin_nop w s do_mask)"

definition call_closing ::
  "closing_fn option \<Rightarrow> world \<Rightarrow> ptr \<Rightarrow> int \<Rightarrow> bool \<Rightarrow> (int \<times> world) outcome" where
  "call_closing f w s status do_mask =
     (case f of
        None \<Rightarrow> Fault Null_call
      | Some Ws_start_closing_handshake \<Rightarrow> ws_start_closing_handshake w s status do_mask)"

text \<open>\<open>skb_compact(sk->recvbuf)\<close> through the socket pointer.\<close>

definition compact_recvbuf :: "world \<Rightarrow> ptr \<Rightarrow> world outcome" where
  "compact_recvbuf w s =
     obind (deref w s) (\<lambda>k.
     obind (skb_compact (sk_recvbuf k)) (\<lambda>b.
     Ret (put_sk w s (k\<lparr>sk_recvbuf := b\<rparr>))))"

subsection \<open>Frames from a client\<close>

text \<open>\<open>for (i = rdpos, j = 0; i < end; i++, j++) data[i] = unmask(data[i], j, key)\<close>\<close>

fun unmask_loop :: "u32 \<Rightarrow> u8 list \<Rightarrow> nat \<Rightarrow> u32 \<Rightarrow> nat \<Rightarrow> u8 list outcome" where
  "unmask_loop key d i j 0 = Ret d"
| "unmask_loop key d i j (Suc n) =
     obind (mem_get d i) (\<lambda>c. unmask_loop key (d[i := ws_mask c j key]) (Suc i) (j + 1) n)"

definition dispatch_payload :: "world \<Rightarrow> ptr \<Rightarrow> wsframe \<Rightarrow> (int \<times> world) outcome" where
  "dispatch_payload w s wsf =
     (let opcode = OPCODE (wsf_byte1 wsf) in
      if opcode = WS_TEXT_FRAME \<or> opcode = WS_BINARY_FRAME \<or> opcode = WS_FRAG_FRAME then
        obind (deref_global (pp2sk w)) (\<lambda>p.
        obind (deref w p) (\<lambda>pk. call_encode_frame (encode_frame (sk_proto pk)) w s wsf))
      else if opcode = WS_CLOSE_FRAME then
        ws_finish_closing_handshake w s False (wsf_payload_len wsf)
      else if opcode = WS_PING_FRAME then
        obind (compact_recvbuf w s) (\<lambda>w.
        obind (deref w s) (\<lambda>k. call_ctl (pong (sk_proto k)) w s False))
      else if opcode = WS_PONG_FRAME then
        obind (compact_recvbuf w s) (\<lambda>w. Ret (0, w))
      else
        obind (deref w s) (\<lambda>k.
        call_closing (start_closing_handshake (sk_proto k)) w s WS_1011 False))"

text \<open>
  The test \<open>0 > wsf.payload_len\<close> of the source is on an unsigned number and never true; a
  length of -1 from \<open>ws_decode_payload_len\<close> is caught by the comparison with the buffer.
\<close>

definition ws_decode_frame :: "world \<Rightarrow> ptr \<Rightarrow> (int \<times> world) outcome" where
  "ws_decode_frame w s =
     obind (deref w s) (\<lambda>k.
     if skb_rdsz (sk_recvbuf k) < WS_MASKED_FRAME_LEN then Ret (-1, w\<lparr>wsd_errno := WSD_EINPUT\<rparr>)
     else
       let old_rdpos = rdpos (sk_recvbuf k) in
       obind (skb_get8 (sk_recvbuf k)) (\<lambda>(byte1, b).
       obind (skb_get8 b) (\<lambda>(byte2, b).
       if RSV1_BIT byte1 \<noteq> 0 \<or> RSV2_BIT byte1 \<noteq> 0 \<or> RSV3_BIT byte1 \<noteq> 0 \<or> MASK_BIT byte2 = 0
       then Ret (-1, (put_sk w s (k\<lparr>sk_recvbuf := b\<rparr>))\<lparr>wsd_errno := WSD_EBADREQ\<rparr>)
       else
         obind (ws_decode_payload_len (wsd_errno w) b byte2) (\<lambda>(payload_len, b, e).
         if skb_rdsz b < 4
         then Ret (-1, (put_sk w s (k\<lparr>sk_recvbuf := b\<rparr>))\<lparr>wsd_errno := WSD_EINPUT\<rparr>)
         else
           obind (skb_get32 b) (\<lambda>(masking_key, b).
           if payload_len > ucast (skb_rdsz b)
           then Ret (-1, (put_sk w s (k\<lparr>sk_recvbuf := skb_rd_reset b old_rdpos\<rparr>))\<lparr>wsd_errno := WSD_EINPUT\<rparr>)
           else
             let end_pos = rdpos b + ucast payload_len in
             obind (unmask_loop masking_key (skb_data b) (unat (rdpos b)) 0
                      (unat end_pos - unat (rdpos b))) (\<lambda>d.
             dispatch_payload ((put_sk w s (k\<lparr>sk_recvbuf := b\<lparr>skb_data := d\<rparr>\<rparr>))\<lparr>wsd_errno := e\<rparr>) s
               \<lparr>wsf_byte1 = byte1, wsf_byte2 = byte2, wsf_payload_len = payload_len,
                wsf_masking_key = masking_key\<rparr>))))))"

subsection \<open>Frames from the backend\<close>

definition pp2_decode_error :: "world \<Rightarrow> ptr \<Rightarrow> sk \<Rightarrow> skb \<Rightarrow> u32 \<Rightarrow> (int \<times> world) outcome" where
  "pp2_decode_error w s k b old_rdpos =
     Ret (-1, (put_sk w s (k\<lparr>sk_recvbuf := b\<lparr>rdpos := old_rdpos\<rparr>\<rparr>))\<lparr>wsd_errno := WSD_ENUM\<rparr>)"

definition pp2_decode_frame :: "world \<Rightarrow> ptr \<Rightarrow> (int \<times> world) outcome" where
  "pp2_decode_frame w s =
     obind (deref w s) (\<lambda>k.
     if PP2_HEADER_LEN \<ge> skb_rdsz (sk_recvbuf k) then Ret (-1, w\<lparr>wsd_errno := WSD_EINPUT\<rparr>)
     else
       let old_rdpos = rdpos (sk_recvbuf k) in
       obind (skb_get_mem (sk_recvbuf k) 16) (\<lambda>(hdr, b).
       if take 12 hdr \<noteq> pp2_sig then pp2_decode_error w s k b old_rdpos
       else if PP2_VER_BITS (hdr ! 12) \<noteq> 2 \<or> PP2_CMD_BITS (hdr ! 12) \<noteq> 1
            \<or> PP2_FAM_BITS (hdr ! 13) \<noteq> 1 \<or> PP2_PROTO_BITS (hdr ! 13) \<noteq> 1
       then pp2_decode_error w s k b old_rdpos
       else
         let b = b\<lparr>rdpos := rdpos b + PP2_ADDR_LEN\<rparr> in
         obind (pp2_get_connhash b) (\<lambda>(val, b).
         if 0 > val then pp2_decode_error w s k b old_rdpos
         else
           let hash = (of_int val :: u64) in
           obind (pp2_get_payloadlen b) (\<lambda>(val, b).
           if 0 > val then pp2_decode_error w s k b old_rdpos
           else
             let len = (of_int val :: u32) in
             if skb_rdsz b < len
             then Ret (-1, (put_sk w s (k\<lparr>sk_recvbuf := b\<lparr>rdpos := old_rdpos\<rparr>\<rparr>))\<lparr>wsd_errno := WSD_EAGAIN\<rparr>)
             else
               let w = put_sk w s (k\<lparr>sk_recvbuf := b\<rparr>) in
               obind (hash_find w hash) (\<lambda>cln.
               case cln of
                 None \<Rightarrow>
                   obind (upd_sk w s (\<lambda>k. k\<lparr>sk_recvbuf := skb_rd_forward (sk_recvbuf k) len\<rparr>)) (\<lambda>w.
                   obind (compact_recvbuf w s) (\<lambda>w. Ret (0, w)))
               | Some c \<Rightarrow>
                   obind (deref w c) (\<lambda>ck.
                   call_encode_frame (encode_frame (sk_proto ck)) w c
                     (null_wsframe\<lparr>wsf_payload_len := ucast len\<rparr>)))))))"

subsection \<open>Frames from the server, and lines from standard input (wscat)\<close>

definition wssk_ws_decode_frame :: "world \<Rightarrow> ptr \<Rightarrow> (int \<times> u8 list \<times> world) outcome" where
  "wssk_ws_decode_frame w s =
     obind (deref w s) (\<lambda>k.
     if skb_rdsz (sk_recvbuf k) < WS_UNMASKED_FRAME_LEN then Ret (-1, [], w\<lparr>wsd_errno := WSD_EINPUT\<rparr>)
     else
       let old_rdpos = rdpos (sk_recvbuf k) in
       obind (skb_get8 (sk_recvbuf k)) (\<lambda>(byte1, b).
       obind (skb_get8 b) (\<lambda>(byte2, b).
       if RSV1_BIT byte1 \<noteq> 0 \<or> RSV2_BIT byte1 \<noteq> 0 \<or> RSV3_BIT byte1 \<noteq> 0 \<or> MASK_BIT byte2 \<noteq> 0
       then Ret (-1, [], (put_sk w s (k\<lparr>sk_recvbuf := b\<rparr>))\<lparr>wsd_errno := WSD_EBADREQ\<rparr>)
       else
         obind (ws_decode_payload_len (wsd_errno w) b byte2) (\<lambda>(payload_len, b, e).
         if payload_len > ucast SKB_SIZE
         then Ret (-1, [], (put_sk w s (k\<lparr>sk_recvbuf := skb_rd_reset b old_rdpos\<rparr>))\<lparr>wsd_errno := WSD_EBADREQ\<rparr>)
         else if payload_len > ucast (skb_rdsz b)
         then Ret (-1, [], (put_sk w s (k\<lparr>sk_recvbuf := skb_rd_reset b old_rdpos\<rparr>))\<lparr>wsd_errno := WSD_EINPUT\<rparr>)
         else
           let opcode = OPCODE byte1; w = (put_sk w s (k\<lparr>sk_recvbuf := b\<rparr>))\<lparr>wsd_errno := e\<rparr> in
           if opcode = WS_TEXT_FRAME \<or> opcode = WS_BINARY_FRAME \<or> opcode = WS_FRAG_FRAME then
             obind (skb_print b payload_len) (\<lambda>(printed, b).
             obind (skb_compact b) (\<lambda>b.
             Ret (0, printed, put_sk w s (k\<lparr>sk_recvbuf := b\<rparr>))))
           else if opcode = WS_CLOSE_FRAME then
             if no_handshake w then Ret (0, [], put_sk w s (k\<lparr>sk_recvbuf := skb_reset b\<rparr>))
             else obind (ws_finish_closing_handshake w s True payload_len) (\<lambda>(rv, w). Ret (rv, [], w))
           else if opcode = WS_PING_FRAME then
             obind (compact_recvbuf w s) (\<lambda>w.
             obind (call_ctl (pong (sk_proto k)) w s True) (\<lambda>(rv, w). Ret (rv, [], w)))
           else if opcode = WS_PONG_FRAME then
             obind (compact_recvbuf w s) (\<lambda>w. Ret (0, [], w))
           else Ret (-1, [], w\<lparr>wsd_errno := WSD_EBADREQ\<rparr>)))))"

definition stdin_decode_frame :: "world \<Rightarrow> ptr \<Rightarrow> (int \<times> world) outcome" where
  "stdin_decode_frame w s =
     obind (deref w s) (\<lambda>k.
     if 0 = skb_rdsz (sk_recvbuf k) then Ret (-1, w\<lparr>wsd_errno := WSD_EINPUT\<rparr>)
     else
       obind (if is_json w then balanced_span (sk_recvbuf k) 0x7b 0x7d
              else Ret (uint (if 32 < skb_rdsz (sk_recvbuf k) then 32 else skb_rdsz (sk_recvbuf k)))) (\<lambda>span.
       let payload_len = (of_int span :: u64) in
       if is_json w \<and> -1 = payload_len then Ret (-1, w\<lparr>wsd_errno := WSD_EINPUT\<rparr>)
       else
         obind (if 0 < repeat_last_num w
                then skb_copy (skb_reset (last_input w)) (sk_recvbuf k) payload_len
                else Ret (last_input w)) (\<lambda>li.
         let w = w\<lparr>last_input := li\<rparr> in
         obind (deref_global (wssk w)) (\<lambda>q.
         obind (deref w q) (\<lambda>qk.
         call_encode_frame (encode_frame (sk_proto qk)) w s
           (null_wsframe\<lparr>wsf_payload_len := payload_len\<rparr>))))))"

subsection \<open>Unmasking in place\<close>

lemma map_at_shift: "map_at f (Suc i) xs = map_at (\<lambda>c t. f c (Suc t)) i xs"
  by (induction xs arbitrary: i) auto

lemma unmask_loop_spec:
  "i + n \<le> length d \<Longrightarrow> unmask_loop key d i j n =
     Ret (take i d @ map_at (\<lambda>c t. ws_mask c (j + of_nat t) key) 0 (take n (drop i d)) @ drop (i + n) d)"
proof (induction n arbitrary: d i j)
  case 0
  then show ?case by simp
next
  case (Suc n)
  let ?d = "d[i := ws_mask (d ! i) j key]"
  have d: "take (Suc n) (drop i d) = d ! i # take n (drop (Suc i) d)"
    using Suc.prems by (simp add: Cons_nth_drop_Suc [symmetric])
  have t: "take (Suc i) ?d = take i d @ [ws_mask (d ! i) j key]" "drop k ?d = drop k d" if "i < k" for k
    using Suc.prems that by (simp_all add: take_Suc_conv_app_nth)
  show ?case
    using Suc.prems t [of "Suc i"] t [of "Suc i + n"] Suc.IH [of "Suc i" ?d "j + 1"]
    by (simp add: d map_at_shift ac_simps)
qed

text \<open>Unmasking the first \<open>n\<close> unread bytes of a buffer.\<close>

lemma unmask_pending:
  assumes wf: "skb_wf b" and n: "n \<le> length (pending b)"
  obtains d where "unmask_loop key (skb_data b) (unat (rdpos b)) 0 n = Ret d" "skb_wf (b\<lparr>skb_data := d\<rparr>)"
    "pending (b\<lparr>skb_data := d\<rparr>)
       = map_at (\<lambda>c t. ws_mask c (of_nat t) key) 0 (take n (pending b)) @ drop n (pending b)"
    "room (b\<lparr>skb_data := d\<rparr>) = room b"
proof -
  note D = skb_wfD [OF wf]
  let ?i = "unat (rdpos b)"
  have le: "?i + n \<le> unat (wrpos b)"
    using n D by (simp add: length_pending [OF wf])
  let ?m = "map_at (\<lambda>c t. ws_mask c (of_nat t) key) 0 (take n (drop ?i (skb_data b)))"
  let ?d = "take ?i (skb_data b) @ ?m @ drop (?i + n) (skb_data b)"
  have run: "unmask_loop key (skb_data b) ?i 0 n = Ret ?d"
    using unmask_loop_spec [of ?i n "skb_data b" key 0] le D(1,3) by simp
  have wf': "skb_wf (b\<lparr>skb_data := ?d\<rparr>)"
    using D le by (intro skb_wfI) simp_all
  have tk: "take n (pending b) = take n (drop ?i (skb_data b))"
    using le D by (simp add: pending_def min_absorb1)
  have "pending (b\<lparr>skb_data := ?d\<rparr>) = ?m @ drop n (pending b)"
    using D le unfolding pending_alt [OF wf] pending_alt [OF wf']
    by (simp add: drop_take add.commute [of n])
  moreover have "room (b\<lparr>skb_data := ?d\<rparr>) = room b"
    by (simp add: room_def skb_wrsz_def)
  ultimately show thesis
    using run wf' tk that by metis
qed

subsection \<open>A masked frame is taken apart\<close>

text \<open>What a client sends: section 5.2 of RFC 6455.\<close>

definition masked :: "u32 \<Rightarrow> u8 list \<Rightarrow> u8 list" where
  "masked key xs = map_at (\<lambda>c t. ws_mask c (of_nat t) key) 0 xs"

definition ws_masked_frame :: "u8 \<Rightarrow> u32 \<Rightarrow> u8 list \<Rightarrow> u8 list" where
  "ws_masked_frame byte1 key payload =
     byte1 # ws_len_bytes (of_nat (length payload)) 0x80 @ le_bytes 4 key @ masked key payload"

lemma length_masked [simp]: "length (masked key xs) = length xs"
  by (simp add: masked_def)

lemma masked_masked [simp]: "masked key (masked key xs) = xs"
  by (simp add: masked_def map_at_map_at ws_mask_ws_mask)

lemma MASK_BIT_iff: "MASK_BIT byte = 0 \<longleftrightarrow> \<not> bit byte 7"
proof -
  have "MASK_BIT byte = of_bool (bit byte 7)"
  proof (rule bit_eqI)
    fix n
    have "(0x80 :: u32) = push_bit 7 1" by (simp add: push_bit_eq_mult)
    then show "bit (MASK_BIT byte) n \<longleftrightarrow> bit (of_bool (bit byte 7) :: u32) n"
      by (auto simp: MASK_BIT_def bit_simps)
  qed
  then show ?thesis by simp
qed

lemma MASK_BIT_len_bytes:
  assumes "ws_len_bytes len 0x80 = x # t"
  shows "MASK_BIT x \<noteq> 0"
proof -
  have "bit (0x80 OR y :: u8) 7" for y
    by (simp add: bit_or_iff)
  then show ?thesis
    using assms by (auto simp: ws_len_bytes_def MASK_BIT_iff split: if_splits)
qed

definition rsv_clear :: "u8 \<Rightarrow> bool" where
  "rsv_clear byte \<longleftrightarrow> RSV1_BIT byte = 0 \<and> RSV2_BIT byte = 0 \<and> RSV3_BIT byte = 0"

lemma rdsz_le_iff: "skb_wf b \<Longrightarrow> (n :: u64) > ucast (skb_rdsz b) \<longleftrightarrow> length (pending b) < unat n"
proof -
  have "take_bit 64 (unat x) = unat x" for x :: u32
    by (rule take_bit_nat_eq_self) (rule order.strict_trans [OF unat_u32_less], simp)
  then show "skb_wf b \<Longrightarrow> ?thesis"
    by (simp add: word_less_nat_alt length_pending unsigned_ucast_eq)
qed

lemma errno_self [simp]: "(put_sk w s k)\<lparr>wsd_errno := wsd_errno w\<rparr> = put_sk w s k"
  by (simp add: put_sk_def)

lemma end_pos:
  assumes "skb_wf b" "n \<le> length (pending b)"
  shows "unat (rdpos b + ucast (of_nat n :: u64)) - unat (rdpos b) = n"
proof -
  note D = skb_wfD [OF assms(1)]
  have le: "unat (rdpos b) + n \<le> 1048576"
    using assms(2) D by (simp add: length_pending assms(1))
  then have "unat (of_nat n :: u64) = n"
    by (simp add: unat_of_nat take_bit_nat_eq_self)
  then have "(ucast (of_nat n :: u64) :: u32) = of_nat n"
    using le by (simp add: word_unat_eq_iff unat_ucast_small unat_of_nat_u32)
  then show ?thesis
    using unat_add_small [OF le] by simp
qed

lemma ws_decode_frame_run:
  assumes k: "heap w s = Some k" "skb_wf (sk_recvbuf k)" and rsv: "rsv_clear byte1"
    and p: "pending (sk_recvbuf k) = ws_masked_frame byte1 key payload @ rest"
  obtains b x where "skb_wf b" "pending b = payload @ rest" "room b = room (sk_recvbuf k)"
    "ws_decode_frame w s = dispatch_payload (put_sk w s (k\<lparr>sk_recvbuf := b\<rparr>)) s
       \<lparr>wsf_byte1 = byte1, wsf_byte2 = x, wsf_payload_len = of_nat (length payload), wsf_masking_key = key\<rparr>"
proof -
  let ?len = "of_nat (length payload) :: u64"
  have small: "length payload \<le> 1048576"
    using skbq.fits [OF k(2)] p by (simp add: ws_masked_frame_def)
  then have len: "unat ?len = length payload" "?len < 2 ^ 63"
    by (simp_all add: word_less_nat_alt unat_of_nat take_bit_nat_eq_self)
  obtain x t where xt: "ws_len_bytes ?len 0x80 = x # t"
    by (cases "ws_len_bytes ?len 0x80") (auto simp: ws_len_bytes_def split: if_splits)
  let ?tail = "t @ le_bytes 4 key @ masked key payload @ rest"
  have p': "pending (sk_recvbuf k) = [byte1] @ [x] @ ?tail"
    using p xt by (simp add: ws_masked_frame_def)
  obtain b1 where b1: "skb_get_mem (sk_recvbuf k) 1 = Ret ([byte1], b1)" "skb_wf b1"
    "pending b1 = [x] @ ?tail" "room b1 = room (sk_recvbuf k)"
    using skb_get_some [OF k(2) p'] by auto
  obtain b2 where b2: "skb_get_mem b1 1 = Ret ([x], b2)" "skb_wf b2" "pending b2 = ?tail" "room b2 = room b1"
    using skb_get_some [OF b1(2,3)] by auto
  obtain b3 where b3: "ws_decode_payload_len (wsd_errno w) b2 x = Ret (?len, b3, wsd_errno w)" "skb_wf b3"
    "pending b3 = le_bytes 4 key @ masked key payload @ rest" "room b3 = room b2"
    using ws_decode_payload_len_ok [OF b2(2) len(2) _ xt b2(3), of "wsd_errno w"] by auto
  obtain b4 where b4: "skb_get_mem b3 4 = Ret (le_bytes 4 key, b4)" "skb_wf b4"
    "pending b4 = masked key payload @ rest" "room b4 = room b3"
    using skb_get_some [OF b3(2,3)] by auto
  obtain d where d: "unmask_loop key (skb_data b4) (unat (rdpos b4)) 0 (length payload) = Ret d"
    "skb_wf (b4\<lparr>skb_data := d\<rparr>)" "pending (b4\<lparr>skb_data := d\<rparr>) = payload @ rest"
    "room (b4\<lparr>skb_data := d\<rparr>) = room b4"
    using unmask_pending [OF b4(2), of "length payload" key] b4(3)
    by (simp add: masked_def [symmetric] del: map_at_id) (metis length_masked)
  have "ws_decode_frame w s = dispatch_payload (put_sk w s (k\<lparr>sk_recvbuf := b4\<lparr>skb_data := d\<rparr>\<rparr>)) s
       \<lparr>wsf_byte1 = byte1, wsf_byte2 = x, wsf_payload_len = ?len, wsf_masking_key = key\<rparr>"
    using k(1) rsv b1(1) b2(1) b3(1) b4(1) d(1) MASK_BIT_len_bytes [OF xt] p' xt
      rdsz_less_iff [OF k(2)] rdsz_less_iff [OF b3(2)] rdsz_le_iff [OF b4(2), of ?len]
      end_pos [OF b4(2), of "length payload"] b3(3) b4(3) len(1)
    by (simp add: ws_decode_frame_def skb_get8_def skb_get32_def ws_len_defs rsv_clear_def Let_def)
  then show thesis
    using d b1(4) b2(4) b3(4) b4(4) that by metis
qed

end
