(* ===== verification/Frames.thy ===== *)
theory Frames
  imports Decode
begin

text \<open>
  What the decoders do with well-formed frames, in both directions, and with arbitrary bytes;
  the receive loops of \<open>ws_recv\<close>, \<open>pp2_recv\<close>, \<open>wssk_ws_recv\<close> and \<open>stdin_recv\<close>, which decode frame
  after frame until one is refused.
\<close>

subsection \<open>Data frames go to the backend\<close>

definition data_opcode :: "u8 \<Rightarrow> bool" where
  "data_opcode byte1 \<longleftrightarrow> OPCODE byte1 \<in> {WS_TEXT_FRAME, WS_BINARY_FRAME, WS_FRAG_FRAME}"

lemma ws_decode_frame_data:
  assumes k: "heap w s = Some k" "skb_wf (sk_recvbuf k)" and p: "pp2sk w = Some p" "p \<noteq> s"
    and pk: "heap w p = Some pk" "skb_wf (sk_sendbuf pk)" "encode_frame (sk_proto pk) = Some Pp2_encode_frame"
    and byte1: "rsv_clear byte1" "data_opcode byte1"
    and pend: "pending (sk_recvbuf k) = ws_masked_frame byte1 key payload @ rest"
    and room: "46 + length payload \<le> room (sk_sendbuf pk)"
  obtains b r where "ws_decode_frame w s
      = Ret (0, put_sk (put_sk w p (pk\<lparr>sk_sendbuf := b\<rparr>)) s (k\<lparr>sk_recvbuf := r\<rparr>))"
    "skb_wf b" "skb_wf r" "pending r = rest"
    "pending b = pending (sk_sendbuf pk) @ pp2_frame (sk_src_addr k) (sk_dst_addr k) (sk_hashval k) payload"
    "room b = room (sk_sendbuf pk) - (46 + length payload)"
proof -
  obtain b0 x where b0: "skb_wf b0" "pending b0 = payload @ rest"
    "ws_decode_frame w s = dispatch_payload (put_sk w s (k\<lparr>sk_recvbuf := b0\<rparr>)) s
       \<lparr>wsf_byte1 = byte1, wsf_byte2 = x, wsf_payload_len = of_nat (length payload), wsf_masking_key = key\<rparr>"
    using ws_decode_frame_run [OF k byte1(1) pend] by metis
  let ?w = "put_sk w s (k\<lparr>sk_recvbuf := b0\<rparr>)" and ?k = "k\<lparr>sk_recvbuf := b0\<rparr>"
  let ?wsf = "\<lparr>wsf_byte1 = byte1, wsf_byte2 = x, wsf_payload_len = of_nat (length payload) :: u64, wsf_masking_key = key\<rparr>"
  have n: "length payload = unat (wsf_payload_len ?wsf)"
    using skbq.fits [OF b0(1)] b0(2) by (simp add: unat_of_nat take_bit_nat_eq_self)
  have "ws_decode_frame w s = pp2_encode_frame ?w s ?wsf"
    using p pk byte1(2) b0(3) by (auto simp: dispatch_payload_def data_opcode_def call_encode_frame_def Let_def)
  moreover obtain b r where "pp2_encode_frame ?w s ?wsf
      = Ret (0, put_sk (put_sk ?w p (pk\<lparr>sk_sendbuf := b\<rparr>)) s (?k\<lparr>sk_recvbuf := r\<rparr>))"
    "skb_wf b" "skb_wf r" "pending r = drop (length payload) (pending (sk_recvbuf ?k))"
    "pending b = pending (sk_sendbuf pk) @ pp2_frame (sk_src_addr ?k) (sk_dst_addr ?k) (sk_hashval ?k)
        (take (length payload) (pending (sk_recvbuf ?k)))"
    "room b = room (sk_sendbuf pk) - (46 + length payload)"
    using pp2_encode_frame_run [of ?w s ?k p pk "length payload" ?wsf] p pk b0 n room by auto
  moreover have "put_sk (put_sk ?w p (pk\<lparr>sk_sendbuf := b\<rparr>)) s (?k\<lparr>sk_recvbuf := r\<rparr>)
      = put_sk (put_sk w p (pk\<lparr>sk_sendbuf := b\<rparr>)) s (k\<lparr>sk_recvbuf := r\<rparr>)" for b r
    using p(2) by (simp add: put_sk_def fun_upd_twist)
  ultimately show thesis
    using that [of b r] b0(2) by simp
qed

subsection \<open>Looking at unread bytes\<close>

lemma mem_read_pending:
  assumes "skb_wf b" "i + n \<le> length (pending b)"
  shows "mem_read (skb_data b) (unat (rdpos b) + i) n = Ret (take n (drop i (pending b)))"
proof -
  note D = skb_wfD [OF assms(1)]
  have "unat (rdpos b) + i + n \<le> unat (wrpos b)"
    using assms D by (simp add: length_pending)
  then show ?thesis
    using D by (simp add: mem_read_def pending_def drop_take min_absorb1 add.commute)
qed

lemma mem_get_pending:
  assumes "skb_wf b" "i < length (pending b)"
  shows "mem_get (skb_data b) (unat (rdpos b) + i) = Ret (pending b ! i)"
  using assms skb_wfD [OF assms(1)] by (simp add: pending_def)

lemma skip_pending:
  assumes "skb_wf b" "n \<le> length (pending b)"
  shows "skb_wf (b\<lparr>rdpos := rdpos b + of_nat n\<rparr>)" "pending (b\<lparr>rdpos := rdpos b + of_nat n\<rparr>) = drop n (pending b)"
    "room (b\<lparr>rdpos := rdpos b + of_nat n\<rparr>) = room b"
proof -
  obtain b' where b': "skb_get_mem b n = Ret (take n (pending b), b')" "skb_wf b'" "pending b' = drop n (pending b)"
    "room b' = room b"
    using skbq.pull_ok [OF assms] by blast
  then have "b' = b\<lparr>rdpos := rdpos b + of_nat n\<rparr>"
    by (auto simp: skb_get_mem_def outcome_simps)
  then show "skb_wf (b\<lparr>rdpos := rdpos b + of_nat n\<rparr>)" "pending (b\<lparr>rdpos := rdpos b + of_nat n\<rparr>) = drop n (pending b)"
    "room (b\<lparr>rdpos := rdpos b + of_nat n\<rparr>) = room b"
    using b' by simp_all
qed

subsection \<open>The TLVs of a backend frame\<close>

lemma pp2_tlv_matches_pending:
  assumes "skb_wf b" "3 \<le> length (pending b)"
  shows "pp2_tlv_matches (skb_data b) (unat (rdpos b)) t n = Ret (take 3 (pending b) = [t, 0, n])"
proof -
  obtain x y z r where p: "pending b = x # y # z # r"
    using assms(2) by (auto simp: numeral_3_eq_3 Suc_le_length_iff)
  show ?thesis
    using mem_get_pending [OF assms(1), of 0] mem_get_pending [OF assms(1), of 1] mem_get_pending [OF assms(1), of 2]
    by (auto simp: pp2_tlv_matches_def p numeral_3_eq_3)
qed

lemma pp2_get_connhash_pending:
  assumes "skb_wf b" "11 \<le> length (pending b)"
  shows "pp2_get_connhash b = Ret (if take 3 (pending b) = [0xE0, 0, 8]
    then (sint (of_le (take 8 (drop 3 (pending b))) :: u64), b\<lparr>rdpos := rdpos b + 11\<rparr>) else (-1, b))"
  using assms by (simp add: pp2_get_connhash_def pp2_tlv_matches_pending mem_read_pending pp2_defs)

lemma pp2_get_payloadlen_pending:
  assumes "skb_wf b" "7 \<le> length (pending b)"
  shows "pp2_get_payloadlen b = Ret (if take 3 (pending b) = [0xE1, 0, 4]
    then (sint (of_le (take 4 (drop 3 (pending b))) :: u32), b\<lparr>rdpos := rdpos b + 7\<rparr>) else (-1, b))"
  using assms by (simp add: pp2_get_payloadlen_def pp2_tlv_matches_pending mem_read_pending pp2_defs)

lemma of_int_sint [simp]: "of_int (sint (x :: 'a::len word)) = x"
  by simp

lemma sint_nonneg: "(x :: u64) < 2 ^ 63 \<Longrightarrow> 0 \<le> sint x" "(y :: u32) < 2 ^ 31 \<Longrightarrow> 0 \<le> sint y"
proof -
  assume "x < 2 ^ 63"
  then have "unat x < 2 ^ 63" by (simp add: word_less_nat_alt)
  from sint_of_nat64 [OF this] show "0 \<le> sint x" by simp
next
  assume "y < 2 ^ 31"
  then have u: "unat y < 2 ^ 31" by (simp add: word_less_nat_alt)
  have "sint (of_nat n :: u32) = int n" if "n < 2 ^ 31" for n
    using that by (simp add: signed_of_nat signed_take_bit_int_eq_self)
  from this [OF u] show "0 \<le> sint y" by simp
qed

lemma hash_find_put:
  assumes "heap w s = Some k" "sk_hashval k' = sk_hashval k"
  shows "hash_find (put_sk w s k') key = hash_find w key"
proof -
  have "hash_scan (put_sk w s k') key b = hash_scan w key b" for b
    using assms by (induction b) (auto simp: deref_def split: option.split)
  then show ?thesis
    by (simp add: hash_find_def hash_bucket_def)
qed

subsection \<open>A frame from the backend\<close>

lemma pp2_decode_frame_run:
  assumes k: "heap w s = Some k" "skb_wf (sk_recvbuf k)"
    and hash: "hash < 2 ^ 63" and payload: "payload \<noteq> []"
    and pend: "pending (sk_recvbuf k) = pp2_frame src dst hash payload @ rest"
  obtains b where "skb_wf b" "pending b = payload @ rest" "room b = room (sk_recvbuf k)"
    "pp2_decode_frame w s = obind (hash_find w hash) (\<lambda>cln.
       case cln of
         None \<Rightarrow> obind (upd_sk (put_sk w s (k\<lparr>sk_recvbuf := b\<rparr>)) s
             (\<lambda>k. k\<lparr>sk_recvbuf := skb_rd_forward (sk_recvbuf k) (of_nat (length payload))\<rparr>)) (\<lambda>w.
           obind (compact_recvbuf w s) (\<lambda>w. Ret (0, w)))
       | Some c \<Rightarrow> obind (deref (put_sk w s (k\<lparr>sk_recvbuf := b\<rparr>)) c) (\<lambda>ck.
           call_encode_frame (encode_frame (sk_proto ck)) (put_sk w s (k\<lparr>sk_recvbuf := b\<rparr>)) c
             (null_wsframe\<lparr>wsf_payload_len := of_nat (length payload)\<rparr>)))"
proof -
  let ?b = "sk_recvbuf k" and ?len = "of_nat (length payload) :: u32"
  let ?tlv1 = "[0xE0, 0, 8] @ le_bytes 8 hash :: u8 list" and ?tlv2 = "[0xE1, 0, 4] @ le_bytes 4 ?len :: u8 list"
  let ?head = "pp2_sig @ [0x21, 0x11, 0, 30] :: u8 list"
  let ?addr = "le_bytes 4 (sin_addr src) @ le_bytes 4 (sin_addr dst) @ le_bytes 2 (sin_port src) @ le_bytes 2 (sin_port dst)"
  have p: "pending ?b = ?head @ ?addr @ ?tlv1 @ ?tlv2 @ payload @ rest"
    by (simp add: pend pp2_frame_def pp2_header_def pp2_sig_def pp2_sig_ver_cmd_fam_def)
  have small: "46 + length payload + length rest \<le> 1048576"
    using skbq.fits [OF k(2)] by (simp add: pend pp2_frame_def)
  have len: "unat ?len = length payload" "?len < 2 ^ 31"
    using small by (simp_all add: unat_of_nat_u32 word_less_nat_alt)
  have big: "\<not> PP2_HEADER_LEN \<ge> skb_rdsz ?b"
  proof -
    obtain c cs where "payload = c # cs" using payload by (cases payload) auto
    then show ?thesis
      using length_pending [OF k(2)] by (simp add: pend pp2_frame_def pp2_defs word_le_nat_alt)
  qed
  have l: "length ?head = 16"
    by (simp add: pp2_sig_def)
  obtain b1 where b1: "skb_get_mem ?b 16 = Ret (?head, b1)" "skb_wf b1"
    "pending b1 = ?addr @ ?tlv1 @ ?tlv2 @ payload @ rest" "room b1 = room ?b"
    by (rule skb_get_some [OF k(2) p, unfolded l])
  define b2 where "b2 = b1\<lparr>rdpos := rdpos b1 + PP2_ADDR_LEN\<rparr>"
  have b2: "skb_wf b2" "pending b2 = ?tlv1 @ ?tlv2 @ payload @ rest" "room b2 = room b1"
    using skip_pending [OF b1(2), of 12] b1(3) by (simp_all add: b2_def pp2_defs)
  define b3 where "b3 = b2\<lparr>rdpos := rdpos b2 + 11\<rparr>"
  have b3: "skb_wf b3" "pending b3 = ?tlv2 @ payload @ rest" "room b3 = room b2"
    using skip_pending [OF b2(1), of 11] b2(2) by (simp_all add: b3_def)
  define b4 where "b4 = b3\<lparr>rdpos := rdpos b3 + 7\<rparr>"
  have b4: "skb_wf b4" "pending b4 = payload @ rest" "room b4 = room b3"
    using skip_pending [OF b3(1), of 7] b3(2) by (simp_all add: b4_def)
  have hdr: "take 12 ?head = pp2_sig" "?head ! 12 = 0x21" "?head ! 13 = 0x11"
    by (simp_all add: pp2_sig_def)
  have bits: "PP2_VER_BITS 0x21 = 2" "PP2_CMD_BITS 0x21 = 1" "PP2_FAM_BITS 0x11 = 1" "PP2_PROTO_BITS 0x11 = 1"
    by code_simp+
  have g1: "pp2_get_connhash b2 = Ret (sint hash, b3)"
    using pp2_get_connhash_pending [OF b2(1)] b2(2) by (simp add: b3_def)
  have g2: "pp2_get_payloadlen b3 = Ret (sint ?len, b4)"
    using pp2_get_payloadlen_pending [OF b3(1)] b3(2) by (simp add: b4_def)
  have room4: "\<not> skb_rdsz b4 < ?len"
    using length_pending [OF b4(1)] b4(2) len(1) by (simp add: word_less_nat_alt)
  have uc: "ucast ?len = (of_nat (length payload) :: u64)"
    using small by (simp add: word_unat_eq_iff unsigned_ucast_eq unat_of_nat take_bit_nat_eq_self)
  have nn: "\<not> 0 > sint hash" "\<not> 0 > sint ?len"
    using sint_nonneg(1) [OF hash] sint_nonneg(2) [OF len(2)] by simp_all
  have "pp2_decode_frame w s = obind (hash_find w hash) (\<lambda>cln.
       case cln of
         None \<Rightarrow> obind (upd_sk (put_sk w s (k\<lparr>sk_recvbuf := b4\<rparr>)) s
             (\<lambda>k. k\<lparr>sk_recvbuf := skb_rd_forward (sk_recvbuf k) ?len\<rparr>)) (\<lambda>w.
           obind (compact_recvbuf w s) (\<lambda>w. Ret (0, w)))
       | Some c \<Rightarrow> obind (deref (put_sk w s (k\<lparr>sk_recvbuf := b4\<rparr>)) c) (\<lambda>ck.
           call_encode_frame (encode_frame (sk_proto ck)) (put_sk w s (k\<lparr>sk_recvbuf := b4\<rparr>)) c
             (null_wsframe\<lparr>wsf_payload_len := of_nat (length payload)\<rparr>)))"
    unfolding pp2_decode_frame_def deref_Ret [OF k(1)] obind.simps if_not_P [OF big] Let_def b1(1)
      prod.case hdr bits b2_def [symmetric] g1 g2 if_not_P [OF nn(1)] if_not_P [OF nn(2)] of_int_sint
      if_not_P [OF room4] uc
    by (subst hash_find_put [OF k(1)]) simp_all
  then show thesis
    using b1(4) b2(3) b3(3) b4 by (intro that [of b4]) simp_all
qed

text \<open>
  From a client to the backend. A complete masked text, binary or continuation frame at
  the front of a client's receive buffer is consumed exactly, and its unmasked payload is
  appended to the backend's send buffer behind a proxy header with the client's addresses
  and hash; nothing else changes.
\<close>

theorem client_frame_reaches_backend:
  assumes k: "heap w s = Some k" "skb_wf (sk_recvbuf k)" and p: "pp2sk w = Some p" "p \<noteq> s"
    and pk: "heap w p = Some pk" "skb_wf (sk_sendbuf pk)" "encode_frame (sk_proto pk) = Some Pp2_encode_frame"
    and byte1: "rsv_clear byte1" "data_opcode byte1"
    and pend: "pending (sk_recvbuf k) = ws_masked_frame byte1 key payload @ rest"
    and room: "46 + length payload \<le> room (sk_sendbuf pk)"
  shows "\<exists>w' k' pk'. ws_decode_frame w s = Ret (0, w') \<and> heap w' = (heap w)(p \<mapsto> pk', s \<mapsto> k')
    \<and> k' = k\<lparr>sk_recvbuf := sk_recvbuf k'\<rparr> \<and> pk' = pk\<lparr>sk_sendbuf := sk_sendbuf pk'\<rparr>
    \<and> pending (sk_recvbuf k') = rest
    \<and> pending (sk_sendbuf pk') = pending (sk_sendbuf pk)
        @ pp2_frame (sk_src_addr k) (sk_dst_addr k) (sk_hashval k) payload"
proof -
  obtain b r where r: "ws_decode_frame w s
      = Ret (0, put_sk (put_sk w p (pk\<lparr>sk_sendbuf := b\<rparr>)) s (k\<lparr>sk_recvbuf := r\<rparr>))" "pending r = rest"
    "pending b = pending (sk_sendbuf pk) @ pp2_frame (sk_src_addr k) (sk_dst_addr k) (sk_hashval k) payload"
    using ws_decode_frame_data [OF k p pk byte1 pend room] by metis
  then show ?thesis
    by (intro exI [of _ "put_sk (put_sk w p (pk\<lparr>sk_sendbuf := b\<rparr>)) s (k\<lparr>sk_recvbuf := r\<rparr>)"]
        exI [of _ "k\<lparr>sk_recvbuf := r\<rparr>"] exI [of _ "pk\<lparr>sk_sendbuf := b\<rparr>"]) simp
qed

text \<open>A client at descriptor 7 and the backend connection at descriptor 8.\<close>

definition demo_client :: "u8 list \<Rightarrow> sk" where
  "demo_client bs = demo_sk\<lparr>sk_hashval := 5, sk_recvbuf := skb_of bs,
     sk_proto := null_proto\<lparr>decode_frame := Some Ws_decode_frame, encode_frame := Some Ws_encode_frame\<rparr>\<rparr>"

definition demo_backend :: "u8 list \<Rightarrow> sk" where
  "demo_backend bs = demo_sk\<lparr>sk_fd := 8, sk_recvbuf := skb_of bs,
     sk_proto := null_proto\<lparr>decode_frame := Some Pp2_decode_frame, encode_frame := Some Pp2_encode_frame\<rparr>\<rparr>"

definition demo_pair :: "u8 list \<Rightarrow> u8 list \<Rightarrow> world" where
  "demo_pair cs bs = (init_world default_cfg)\<lparr>heap := [1 \<mapsto> demo_client cs, 2 \<mapsto> demo_backend bs],
     epoll := [7 \<mapsto> EPOLLIN, 8 \<mapsto> EPOLLIN], pp2sk := Some 2, sk_hash := [1] # replicate 15 []\<rparr>"

lemma demo_pair_simps [simp]:
  "heap (demo_pair cs bs) = [1 \<mapsto> demo_client cs, 2 \<mapsto> demo_backend bs]"
  "pp2sk (demo_pair cs bs) = Some 2"
  "encode_frame (sk_proto (demo_backend bs)) = Some Pp2_encode_frame"
  "decode_frame (sk_proto (demo_backend bs)) = Some Pp2_decode_frame"
  "encode_frame (sk_proto (demo_client cs)) = Some Ws_encode_frame"
  "sk_hashval (demo_client cs) = 5" "\<not> sk_closing (demo_client cs)"
  "sk_recvbuf (demo_client cs) = skb_of cs" "sk_recvbuf (demo_backend bs) = skb_of bs"
  "sk_sendbuf (demo_client cs) = zero_skb" "sk_sendbuf (demo_backend bs) = zero_skb"
  "sk_fd (demo_client cs) = 7" "sk_fd (demo_backend bs) = 8"
  "sk_events (demo_client cs) = EPOLLIN" "sk_events (demo_backend bs) = EPOLLIN"
  by (simp_all add: demo_pair_def demo_client_def demo_backend_def demo_sk_def zero_sk_def)

lemma demo_pair_ok:
  assumes "length cs \<le> 1048576" "length bs \<le> 1048576"
  shows "wsd_ok (demo_pair cs bs)" "live (demo_pair cs bs) 1 (demo_client cs)"
    "live (demo_pair cs bs) 2 (demo_backend bs)" "hash_find (demo_pair cs bs) 5 = Ret (Some 1)"
proof -
  have e: "epoll (demo_pair cs bs) = [7 \<mapsto> EPOLLIN, 8 \<mapsto> EPOLLIN]"
    by (simp add: demo_pair_def)
  show l: "live (demo_pair cs bs) 1 (demo_client cs)" "live (demo_pair cs bs) 2 (demo_backend bs)"
    using assms by (simp_all add: live_def registered_def e skb_of_simps)
  then show "wsd_ok (demo_pair cs bs)"
    unfolding wsd_ok_def by (auto split: if_splits)
  have "hash_min 5 = 0" by code_simp
  then show "hash_find (demo_pair cs bs) 5 = Ret (Some 1)"
    by (simp add: hash_find_def hash_bucket_def) (simp add: demo_pair_def)
qed

theorem client_frame_reaches_backend_witness:
  "\<exists>w'. ws_decode_frame (demo_pair (ws_masked_frame 0x81 0x01020304 (bytes ''Hello'') @ [0x8a]) []) 1 = Ret (0, w')
    \<and> inbuf w' 1 = [0x8a]
    \<and> pending (sk_sendbuf (the (heap w' 2)))
        = pp2_frame (sk_src_addr (demo_client [])) (sk_dst_addr (demo_client [])) 5 (bytes ''Hello'')"
proof -
  let ?cs = "ws_masked_frame 0x81 0x01020304 (bytes ''Hello'') @ [0x8a]"
  have len: "length ?cs \<le> 1048576"
    by (simp add: ws_masked_frame_def length_ws_len_bytes)
  have byte: "rsv_clear 0x81" "data_opcode 0x81"
    by code_simp+
  have "sk_src_addr (demo_client ?cs) = sk_src_addr (demo_client [])" "sk_dst_addr (demo_client ?cs) = sk_dst_addr (demo_client [])"
    by (simp_all add: demo_client_def)
  then show ?thesis
    using client_frame_reaches_backend [of "demo_pair ?cs []" 1 "demo_client ?cs" 2 "demo_backend []" "0x81"
        "0x01020304" "bytes ''Hello''" "[0x8a]"] len byte
    by (auto simp: skb_of_simps inbuf_def)
qed

subsection \<open>Data frames go to the client they name\<close>

lemma null_wsframe_simps [simp]:
  "wsf_byte1 (null_wsframe\<lparr>wsf_payload_len := n\<rparr>) = 0" "wsf_payload_len (null_wsframe\<lparr>wsf_payload_len := n\<rparr>) = n"
  by (simp_all add: null_wsframe_def)

text \<open>
  C20: From the backend to a client. A frame of the backend whose hash names an open client is
  consumed exactly, its payload leaves as one unmasked text frame on that client's send
  buffer, the client waits for EPOLLOUT, and no third socket changes.
\<close>

theorem backend_frame_reaches_client:
  assumes p: "pp2sk w = Some p" "p \<noteq> c" and pk: "heap w p = Some pk" "skb_wf (sk_recvbuf pk)"
    and c: "live w c ck" "encode_frame (sk_proto ck) = Some Ws_encode_frame" "hash_find w hash = Ret (Some c)"
    and hash: "hash < 2 ^ 63" and payload: "payload \<noteq> []" and room: "10 + length payload \<le> room (sk_sendbuf ck)"
    and pend: "pending (sk_recvbuf pk) = pp2_frame src dst hash payload @ rest"
  shows "\<exists>w' ck' pk'. pp2_decode_frame w p = Ret (0, w') \<and> heap w' = (heap w)(c \<mapsto> ck', p \<mapsto> pk')
    \<and> pending (sk_sendbuf ck') = pending (sk_sendbuf ck) @ ws_frame 0x81 payload
    \<and> sk_events ck' AND EPOLLOUT \<noteq> 0 \<and> sk_recvbuf ck' = sk_recvbuf ck
    \<and> pending (sk_recvbuf pk') = rest \<and> sk_sendbuf pk' = sk_sendbuf pk"
proof -
  note C = liveD [OF c(1)]
  let ?wsf = "null_wsframe\<lparr>wsf_payload_len := of_nat (length payload) :: u64\<rparr>"
  obtain b where b: "skb_wf b" "pending b = payload @ rest"
    and run: "pp2_decode_frame w p = call_encode_frame (encode_frame (sk_proto ck)) (put_sk w p (pk\<lparr>sk_recvbuf := b\<rparr>)) c ?wsf"
    using pp2_decode_frame_run [OF pk hash payload pend] c(3) C(1) p(2) by (auto simp: )
  let ?w = "put_sk w p (pk\<lparr>sk_recvbuf := b\<rparr>)" and ?pk = "pk\<lparr>sk_recvbuf := b\<rparr>"
  have small: "length payload \<le> 1048576"
    using skbq.fits [OF b(1)] b(2) by simp
  then have n: "length payload = unat (wsf_payload_len ?wsf)"
    by (simp add: unat_of_nat take_bit_nat_eq_self)
  have tk: "take (length payload) (pending (sk_recvbuf ?pk)) = payload"
    "drop (length payload) (pending (sk_recvbuf ?pk)) = rest"
    using b(2) by simp_all
  have rm: "length (ws_frame 0x81 payload) \<le> room (sk_sendbuf ck)"
    using room length_ws_len_bytes [of "of_nat (length payload)" 0] by (simp add: ws_frame_def split: if_splits)
  have L: "live ?w c ck" "pp2sk ?w = Some p" "heap ?w p = Some ?pk" "skb_wf (sk_recvbuf ?pk)"
    "length payload \<le> length (pending (sk_recvbuf ?pk))"
    using C p b by (simp_all add: live_def registered_def)
  obtain b' r e w' where r: "ws_encode_frame ?w c ?wsf = Ret (0, w')"
    "heap w' = (heap ?w)(c \<mapsto> ck\<lparr>sk_sendbuf := b', sk_events := e\<rparr>, p \<mapsto> ?pk\<lparr>sk_recvbuf := r\<rparr>)"
    "epoll w' = (epoll ?w)(sk_fd ck \<mapsto> e)" "pp2sk w' = pp2sk ?w" "sk_hash w' = sk_hash ?w"
    "skb_wf b'" "skb_wf r" "e AND EPOLLOUT \<noteq> 0"
    "pending b' = pending (sk_sendbuf ck) @ ws_frame 0x81 payload" "pending r = rest"
    by (rule ws_encode_frame_run [OF L(1,2) p(2) L(3,4) n L(5) null_wsframe_simps(1), unfolded tk, OF rm])
  then show ?thesis
    using run c(2) p(2)
    by (intro exI [of _ w'] exI [of _ "ck\<lparr>sk_sendbuf := b', sk_events := e\<rparr>"] exI [of _ "pk\<lparr>sk_recvbuf := r\<rparr>"])
      (simp add: call_encode_frame_def fun_upd_twist)
qed

theorem backend_frame_reaches_client_witness:
  "let a = \<lparr>sin_addr = 0x0100007f, sin_port = 80\<rparr> in
   \<exists>w'. pp2_decode_frame (demo_pair [] (pp2_frame a a 5 (bytes ''Hi'') @ [0x0d])) 2 = Ret (0, w')
    \<and> pending (sk_sendbuf (the (heap w' 1))) = [0x81, 2] @ bytes ''Hi'' \<and> inbuf w' 2 = [0x0d]"
proof -
  let ?a = "\<lparr>sin_addr = 0x0100007f, sin_port = 80\<rparr>"
  let ?bs = "pp2_frame ?a ?a 5 (bytes ''Hi'') @ [0x0d]"
  have len: "length ?bs \<le> 1048576"
    by (simp add: pp2_frame_def)
  have "bytes ''Hi'' \<noteq> []" "ws_frame 0x81 (bytes ''Hi'') = [0x81, 2] @ bytes ''Hi''"
    by (simp_all add: bytes_def ws_frame_def ws_len_bytes_def)
  then show ?thesis
    using backend_frame_reaches_client [of "demo_pair [] ?bs" 2 1 "demo_backend ?bs" "demo_client []" 5
        "bytes ''Hi''" ?a ?a "[0x0d]"] demo_pair_ok [of "[]" ?bs] len
    by (auto simp: skb_of_simps inbuf_def Let_def)
qed

subsection \<open>The receive loop\<close>

text \<open>
  \<open>while (0 == (rv = sk->proto->decode_frame(sk))) frames++\<close>. A decoder that never refuses
  would never end: then the value is \<open>None\<close>.
\<close>

partial_function (option) decode_frames ::
  "(world \<Rightarrow> ptr \<Rightarrow> (int \<times> world) outcome) \<Rightarrow> nat \<Rightarrow> world \<Rightarrow> ptr \<Rightarrow> (int \<times> nat \<times> world) outcome option" where
  "decode_frames decode frames w s =
     (case decode w s of
        Exit \<Rightarrow> Some Exit
      | Fault e \<Rightarrow> Some (Fault e)
      | Ret (rv, w') \<Rightarrow>
          if rv = 0 then decode_frames decode (Suc frames) w' s else Some (Ret (rv, frames, w')))"

lemma decode_frames_step: "decode w s = Ret (0, w') \<Longrightarrow> decode_frames decode n w s = decode_frames decode (Suc n) w' s"
  by (subst decode_frames.simps) simp

lemma decode_frames_stop: "decode w s = Ret (rv, w') \<Longrightarrow> rv \<noteq> 0 \<Longrightarrow> decode_frames decode n w s = Some (Ret (rv, n, w'))"
  by (subst decode_frames.simps) simp

text \<open>A decoder whose every success shortens the input it works on.\<close>

locale frame_decoder =
  fixes decode :: "world \<Rightarrow> ptr \<Rightarrow> (int \<times> world) outcome"
    and inv :: "world \<Rightarrow> ptr \<Rightarrow> bool"
  assumes keeps: "inv w s \<Longrightarrow> decode w s = Ret (rv, w') \<Longrightarrow> inv w' s"
    and consumes: "inv w s \<Longrightarrow> decode w s = Ret (0, w') \<Longrightarrow> length (inbuf w' s) < length (inbuf w s)"
begin

text \<open>The loop ends, after at most as many frames as there are bytes.\<close>

lemma loop_ends:
  assumes "inv w s"
  shows "\<exists>r. decode_frames decode n w s = Some r
    \<and> (\<forall>rv m w'. r = Ret (rv, m, w') \<longrightarrow> inv w' s \<and> rv \<noteq> 0 \<and> n \<le> m \<and> m - n \<le> length (inbuf w s))"
  using assms
proof (induction "length (inbuf w s)" arbitrary: w n rule: less_induct)
  case less
  show ?case
  proof (cases "decode w s")
    case (Ret x)
    then obtain rv w' where x: "decode w s = Ret (rv, w')" by (cases x) auto
    show ?thesis
    proof (cases "rv = 0")
      case True
      then have shorter: "length (inbuf w' s) < length (inbuf w s)"
        using consumes less.prems x by blast
      from less.hyps [OF this keeps [OF less.prems x], of "Suc n"] show ?thesis
        using x True shorter by (fastforce simp: decode_frames_step)
    next
      case False
      then show ?thesis
        using x keeps [OF less.prems x] by (simp add: decode_frames_stop)
    qed
  qed (subst decode_frames.simps, simp)+
qed

lemma loop_safe:
  assumes "inv w s" and safe: "\<And>v e. inv v s \<Longrightarrow> decode v s \<noteq> Fault e"
  shows "decode_frames decode n w s \<noteq> Some (Fault e)"
  using assms(1)
proof (induction "length (inbuf w s)" arbitrary: w n rule: less_induct)
  case less
  show ?case
  proof (cases "decode w s")
    case (Ret x)
    then obtain rv w' where x: "decode w s = Ret (rv, w')" by (cases x) auto
    then show ?thesis
      using less.hyps [OF consumes [OF less.prems] keeps [OF less.prems x]]
      by (cases "rv = 0") (auto simp: decode_frames_step decode_frames_stop)
  next
    case Exit
    then show ?thesis by (subst decode_frames.simps) simp
  next
    case (Fault e')
    then show ?thesis using safe [OF less.prems] by simp
  qed
qed

end

subsection \<open>A stream of frames from a client\<close>

lemma stream_relayed:
  assumes "heap w s = Some k" "skb_wf (sk_recvbuf k)" "pp2sk w = Some p" "p \<noteq> s"
    and "heap w p = Some pk" "skb_wf (sk_sendbuf pk)" "encode_frame (sk_proto pk) = Some Pp2_encode_frame"
    and "\<forall>(byte1, key, payload) \<in> set fs. rsv_clear byte1 \<and> data_opcode byte1"
    and "pending (sk_recvbuf k) = concat (map (\<lambda>(byte1, key, payload). ws_masked_frame byte1 key payload) fs) @ rest"
    and "sum_list (map (\<lambda>(byte1, key, payload). 46 + length payload) fs) \<le> room (sk_sendbuf pk)"
  shows "\<exists>w' b r. skb_wf b \<and> skb_wf r \<and> pending r = rest
    \<and> pending b = pending (sk_sendbuf pk) @ concat (map (\<lambda>(byte1, key, payload).
        pp2_frame (sk_src_addr k) (sk_dst_addr k) (sk_hashval k) payload) fs)
    \<and> w' = put_sk (put_sk w p (pk\<lparr>sk_sendbuf := b\<rparr>)) s (k\<lparr>sk_recvbuf := r\<rparr>)
    \<and> decode_frames ws_decode_frame n w s = decode_frames ws_decode_frame (n + length fs) w' s"
  using assms
proof (induction fs arbitrary: w k pk n)
  case Nil
  have "put_sk (put_sk w p pk) s k = w"
    using Nil.prems(1,5) by (simp add: put_sk_def fun_upd_idem)
  then show ?case
    using Nil.prems by (intro exI [of _ w] exI [of _ "sk_sendbuf pk"] exI [of _ "sk_recvbuf k"]) simp
next
  case (Cons f fs)
  obtain byte1 key payload where f: "f = (byte1, key, payload)" by (cases f)
  let ?rest = "concat (map (\<lambda>(byte1, key, payload). ws_masked_frame byte1 key payload) fs) @ rest"
  obtain b r where br: "ws_decode_frame w s = Ret (0, put_sk (put_sk w p (pk\<lparr>sk_sendbuf := b\<rparr>)) s (k\<lparr>sk_recvbuf := r\<rparr>))"
    "skb_wf b" "skb_wf r" "pending r = ?rest"
    "pending b = pending (sk_sendbuf pk) @ pp2_frame (sk_src_addr k) (sk_dst_addr k) (sk_hashval k) payload"
    "room b = room (sk_sendbuf pk) - (46 + length payload)"
    using ws_decode_frame_data [OF Cons.prems(1-7), of byte1 key payload ?rest] Cons.prems(8-10) by (auto simp: f)
  let ?k = "k\<lparr>sk_recvbuf := r\<rparr>" and ?pk = "pk\<lparr>sk_sendbuf := b\<rparr>"
  let ?w = "put_sk (put_sk w p ?pk) s ?k"
  have "\<exists>w' b' r'. skb_wf b' \<and> skb_wf r' \<and> pending r' = rest
    \<and> pending b' = pending (sk_sendbuf ?pk) @ concat (map (\<lambda>(byte1, key, payload).
        pp2_frame (sk_src_addr ?k) (sk_dst_addr ?k) (sk_hashval ?k) payload) fs)
    \<and> w' = put_sk (put_sk ?w p (?pk\<lparr>sk_sendbuf := b'\<rparr>)) s (?k\<lparr>sk_recvbuf := r'\<rparr>)
    \<and> decode_frames ws_decode_frame (Suc n) ?w s = decode_frames ws_decode_frame (Suc n + length fs) w' s"
    using Cons.prems br by (intro Cons.IH) (auto simp: f)
  then obtain w' b' r' where ih: "skb_wf b'" "skb_wf r'" "pending r' = rest"
    "pending b' = pending (sk_sendbuf ?pk) @ concat (map (\<lambda>(byte1, key, payload).
        pp2_frame (sk_src_addr ?k) (sk_dst_addr ?k) (sk_hashval ?k) payload) fs)"
    "w' = put_sk (put_sk ?w p (?pk\<lparr>sk_sendbuf := b'\<rparr>)) s (?k\<lparr>sk_recvbuf := r'\<rparr>)"
    "decode_frames ws_decode_frame (Suc n) ?w s = decode_frames ws_decode_frame (Suc n + length fs) w' s"
    by (elim exE conjE)
  have "w' = put_sk (put_sk w p (pk\<lparr>sk_sendbuf := b'\<rparr>)) s (k\<lparr>sk_recvbuf := r'\<rparr>)"
    using Cons.prems(4) by (simp add: ih(5) put_sk_def fun_upd_twist)
  moreover have "decode_frames ws_decode_frame n w s = decode_frames ws_decode_frame (n + length (f # fs)) w' s"
    using decode_frames_step [where decode = ws_decode_frame, OF br(1)] ih(6) by simp
  ultimately show ?case
    using ih(1-4) br(5) by (intro exI [of _ w'] exI [of _ b'] exI [of _ r']) (simp add: f)
qed

lemma client_stream_run:
  assumes k: "heap w s = Some k" "skb_wf (sk_recvbuf k)" and p: "pp2sk w = Some p" "p \<noteq> s"
    and pk: "heap w p = Some pk" "skb_wf (sk_sendbuf pk)" "encode_frame (sk_proto pk) = Some Pp2_encode_frame"
    and data: "\<forall>(byte1, key, payload) \<in> set fs. rsv_clear byte1 \<and> data_opcode byte1"
    and pend: "pending (sk_recvbuf k) = concat (map (\<lambda>(byte1, key, payload). ws_masked_frame byte1 key payload) fs) @ rest"
    and rest: "length rest < 6"
    and room: "sum_list (map (\<lambda>(byte1, key, payload). 46 + length payload) fs) \<le> room (sk_sendbuf pk)"
  shows "\<exists>w' k' pk'. decode_frames ws_decode_frame 0 w s = Some (Ret (-1, length fs, w'))
    \<and> wsd_errno w' = WSD_EINPUT \<and> heap w' = (heap w)(p \<mapsto> pk', s \<mapsto> k') \<and> pending (sk_recvbuf k') = rest
    \<and> pending (sk_sendbuf pk') = pending (sk_sendbuf pk) @ concat (map (\<lambda>(byte1, key, payload).
        pp2_frame (sk_src_addr k) (sk_dst_addr k) (sk_hashval k) payload) fs)"
proof -
  obtain w' b r where st: "skb_wf b" "skb_wf r" "pending r = rest"
    "pending b = pending (sk_sendbuf pk) @ concat (map (\<lambda>(byte1, key, payload).
        pp2_frame (sk_src_addr k) (sk_dst_addr k) (sk_hashval k) payload) fs)"
    "w' = put_sk (put_sk w p (pk\<lparr>sk_sendbuf := b\<rparr>)) s (k\<lparr>sk_recvbuf := r\<rparr>)"
    "decode_frames ws_decode_frame 0 w s = decode_frames ws_decode_frame (0 + length fs) w' s"
    using stream_relayed [OF k p pk data pend room, of 0] by (elim exE conjE)
  have "ws_decode_frame w' s = Ret (-1, w'\<lparr>wsd_errno := WSD_EINPUT\<rparr>)"
    using rest st(3) rdsz_less_iff [OF st(2)] by (simp add: ws_decode_frame_def st(5) ws_len_defs)
  then have "decode_frames ws_decode_frame 0 w s = Some (Ret (-1, length fs, w'\<lparr>wsd_errno := WSD_EINPUT\<rparr>))"
    using decode_frames_stop [where decode = ws_decode_frame] st(6) by simp
  then show ?thesis
    using st(3,4) by (intro exI [of _ "w'\<lparr>wsd_errno := WSD_EINPUT\<rparr>"] exI [of _ "k\<lparr>sk_recvbuf := r\<rparr>"]
        exI [of _ "pk\<lparr>sk_sendbuf := b\<rparr>"]) (simp add: st(5))
qed

text \<open>
  C19: A stream of complete data frames, followed by less than a header, leaves a client in
  order: the loop decodes every frame once, the backend's send buffer receives exactly the
  concatenation of the proxy frames, the remainder stays, and the loop stops asking for more
  input. No frame is lost, repeated or reordered while the backend has room.
\<close>

theorem client_stream_relayed:
  assumes k: "heap w s = Some k" "skb_wf (sk_recvbuf k)" and p: "pp2sk w = Some p" "p \<noteq> s"
    and pk: "heap w p = Some pk" "skb_wf (sk_sendbuf pk)" "encode_frame (sk_proto pk) = Some Pp2_encode_frame"
    and data: "\<forall>(byte1, key, payload) \<in> set fs. rsv_clear byte1 \<and> data_opcode byte1"
    and pend: "pending (sk_recvbuf k) = concat (map (\<lambda>(byte1, key, payload). ws_masked_frame byte1 key payload) fs) @ rest"
    and rest: "length rest < 6"
    and room: "sum_list (map (\<lambda>(byte1, key, payload). 46 + length payload) fs) \<le> room (sk_sendbuf pk)"
  shows "\<exists>w' k' pk'. decode_frames ws_decode_frame 0 w s = Some (Ret (-1, length fs, w'))
    \<and> wsd_errno w' = WSD_EINPUT \<and> heap w' = (heap w)(p \<mapsto> pk', s \<mapsto> k') \<and> pending (sk_recvbuf k') = rest
    \<and> pending (sk_sendbuf pk') = pending (sk_sendbuf pk) @ concat (map (\<lambda>(byte1, key, payload).
        pp2_frame (sk_src_addr k) (sk_dst_addr k) (sk_hashval k) payload) fs)"
  using assms by (rule client_stream_run)

theorem client_stream_relayed_witness:
  "\<exists>w'. decode_frames ws_decode_frame 0
      (demo_pair (ws_masked_frame 0x81 7 (bytes ''one'') @ ws_masked_frame 0x82 8 (bytes ''two'') @ [0x81]) []) 1
      = Some (Ret (-1, 2, w')) \<and> inbuf w' 1 = [0x81]"
proof -
  let ?fs = "[(0x81, 7, bytes ''one''), (0x82, 8, bytes ''two'')] :: (u8 \<times> u32 \<times> u8 list) list"
  let ?cs = "ws_masked_frame 0x81 7 (bytes ''one'') @ ws_masked_frame 0x82 8 (bytes ''two'') @ [0x81]"
  have len: "length ?cs \<le> 1048576"
    by (simp add: ws_masked_frame_def length_ws_len_bytes)
  have "rsv_clear 0x81" "data_opcode 0x81" "rsv_clear 0x82" "data_opcode 0x82"
    by code_simp+
  then show ?thesis
    using client_stream_relayed [of "demo_pair ?cs []" 1 "demo_client ?cs" 2 "demo_backend []" ?fs "[0x81]"] len
    by (auto simp: skb_of_simps inbuf_def)
qed

subsection \<open>Arbitrary bytes from a client\<close>

text \<open>Two buffers that differ in the read position only.\<close>

definition same_bytes :: "skb \<Rightarrow> skb \<Rightarrow> bool" where
  "same_bytes b b' \<longleftrightarrow> b'\<lparr>rdpos := rdpos b\<rparr> = b"

lemma same_bytes_refl: "same_bytes b b"
  by (simp add: same_bytes_def)

lemma same_bytes_trans: "same_bytes b b' \<Longrightarrow> same_bytes b' b'' \<Longrightarrow> same_bytes b b''"
  by (cases b; cases b'; cases b'') (simp add: same_bytes_def)

lemma same_bytes_reset: "same_bytes b b' \<Longrightarrow> skb_rd_reset b' (rdpos b) = b"
  by (simp add: same_bytes_def skb_rd_reset_def)

lemma skb_get_any:
  assumes "skb_wf b" "n \<le> length (pending b)"
  obtains bs b' where "skb_get_mem b n = Ret (bs, b')" "length bs = n" "bs = take n (pending b)" "skb_wf b'" "same_bytes b b'"
    "pending b' = drop n (pending b)"
proof -
  obtain b' where b': "skb_get_mem b n = Ret (take n (pending b), b')" "skb_wf b'" "pending b' = drop n (pending b)"
    using skbq.pull_ok [OF assms] by blast
  moreover have "same_bytes b b'"
    using b'(1) by (auto simp: skb_get_mem_def outcome_simps same_bytes_def)
  ultimately show thesis using assms(2) that by simp
qed

lemma ws_decode_payload_len_any:
  assumes wf: "skb_wf b"
  obtains len b' e' where "ws_decode_payload_len e b x = Ret (len, b', e')" "skb_wf b'" "same_bytes b b'"
    "length (pending b') \<le> length (pending b)"
proof (cases "PAYLOAD_LEN x = 126 \<and> 2 \<le> length (pending b) \<or> PAYLOAD_LEN x = 127 \<and> 8 \<le> length (pending b)")
  case True
  then obtain n where n: "(n, PAYLOAD_LEN x) \<in> {(2, 126), (8, 127)}" "n \<le> length (pending b)" by auto
  obtain bs b' where "skb_get_mem b n = Ret (bs, b')" "skb_wf b'" "same_bytes b b'" "pending b' = drop n (pending b)"
    using skb_get_any [OF wf n(2)] by metis
  then show thesis
    using n that rdsz_less_iff [OF wf]
    by (auto simp: ws_decode_payload_len_def skb_get16_def skb_get64_def)
next
  case False
  then show thesis
    using that [of _ b] wf rdsz_less_iff [OF wf]
    by (cases "PAYLOAD_LEN x < 126"; cases "PAYLOAD_LEN x = 126"; cases "PAYLOAD_LEN x = 127")
      (auto simp: ws_decode_payload_len_def same_bytes_refl)
qed

text \<open>A socket that speaks websocket frames with a client, next to a backend connection.\<close>

definition ws_client :: "sk \<Rightarrow> bool" where
  "ws_client k \<longleftrightarrow> pong (sk_proto k) = Some Ws_pong
     \<and> start_closing_handshake (sk_proto k) = Some Ws_start_closing_handshake"

definition client_ready :: "world \<Rightarrow> ptr \<Rightarrow> bool" where
  "client_ready w s \<longleftrightarrow> wsd_ok w \<and> (\<exists>k. heap w s = Some k \<and> ws_client k)
     \<and> (\<exists>p. pp2sk w = Some p \<and> p \<noteq> s)"

lemma client_ready_evolves:
  assumes "client_ready w s" "evolves w w'"
  shows "client_ready w' s"
proof -
  obtain k where k: "heap w s = Some k" "ws_client k"
    using assms(1) by (auto simp: client_ready_def)
  obtain k' where "heap w' s = Some k'" "ident k' = ident k"
    using evolves_heap [OF assms(2) k(1)] .
  then show ?thesis
    using assms k evolvesD(1,2) [OF assms(2)] by (auto simp: client_ready_def ws_client_def ident_def)
qed

lemma compact_recvbuf_post:
  assumes ok: "wsd_ok w" and k: "heap w s = Some k"
  shows "post (compact_recvbuf w s) (output_only w)"
proof -
  note wf = wsd_ok_wf [OF ok k]
  obtain b where b: "skb_compact (sk_recvbuf k) = Ret b" "skb_wf b" "pending b = pending (sk_recvbuf k)"
    using skbq.compact_ok [OF wf(2)] by blast
  have "evolves w (put_sk w s (k\<lparr>sk_recvbuf := b\<rparr>))"
    using wf b by (intro evolves_put [OF ok k]) (simp_all add: ident_def)
  then show ?thesis
    using k b by (simp add: compact_recvbuf_def output_only_def inbuf_def)
qed

text \<open>What dispatching promises: the invariant, and no input but the socket's own is touched.\<close>

definition digested :: "ptr \<Rightarrow> world \<Rightarrow> world \<Rightarrow> bool" where
  "digested s w w' \<longleftrightarrow> evolves w w' \<and> length (inbuf w' s) \<le> length (inbuf w s)
     \<and> (\<forall>t. t \<noteq> s \<longrightarrow> inbuf w' t = inbuf w t)"

lemma digested_output: "output_only w w' \<Longrightarrow> digested s w w'"
  by (simp add: output_only_def digested_def)

lemma dispatch_payload_post:
  assumes ready: "client_ready w s" and len: "unat (wsf_payload_len wsf) \<le> length (inbuf w s)"
  shows "post (dispatch_payload w s wsf) (\<lambda>(rv, w'). digested s w w')"
proof -
  obtain k p where ok: "wsd_ok w" and k: "heap w s = Some k" "ws_client k" and p: "pp2sk w = Some p" "p \<noteq> s"
    using ready by (auto simp: client_ready_def)
  obtain pk where pk: "heap w p = Some pk" "encode_frame (sk_proto pk) = Some Pp2_encode_frame"
    using wsd_ok_pp2sk [OF ok p(1)] .
  have data: "post (pp2_encode_frame w s wsf) (\<lambda>(rv, w'). digested s w w')"
    by (rule post_mono [OF pp2_encode_frame_post [OF ok k(1) p refl len]]) (auto simp: digested_def)
  have close: "post (ws_finish_closing_handshake w s False (wsf_payload_len wsf)) (\<lambda>(rv, w'). digested s w w')"
  proof (rule post_mono [OF ws_finish_closing_handshake_post [OF ok k(1)]])
    assume "2 \<le> wsf_payload_len wsf"
    then show "2 \<le> length (inbuf w s)"
      using len by (simp add: word_le_nat_alt)
  qed (auto simp: digested_def)
  have pong: "post (call_ctl (pong (sk_proto k1)) w1 s False) (\<lambda>(rv, w'). digested s w w')"
    if "output_only w w1" "heap w1 s = Some k1" for w1 k1
  proof -
    have "ident k1 = ident k"
      using evolves_heap [of w w1 s k] that k(1) by (auto simp: output_only_def)
    then have "call_ctl (pong (sk_proto k1)) w1 s False = ws_send_control WS_PONG_FRAME w1 s False"
      using k(2) by (simp add: ws_client_def ident_def call_ctl_def ws_pong_def)
    moreover have "post (ws_send_control WS_PONG_FRAME w1 s False) (\<lambda>(rv, w'). digested s w w')"
      using post_mono [OF ws_send_control_post [OF output_only_ok [OF that(1)] that(2)]]
        output_only_trans [OF that(1)] digested_output by fastforce
    ultimately show ?thesis by simp
  qed
  obtain w1 where w1: "compact_recvbuf w s = Ret w1" "output_only w w1"
    using compact_recvbuf_post [OF ok k(1)] k(1) skbq.compact_ok [OF wsd_ok_wf(2) [OF ok k(1)]]
    by (auto simp: compact_recvbuf_def)
  obtain k1 where k1: "heap w1 s = Some k1"
    using evolves_alloc [of w w1 s] w1(2) k(1) by (auto simp: output_only_def)
  have unknown: "post (ws_start_closing_handshake w s WS_1011 False) (\<lambda>(rv, w'). digested s w w')"
    using post_mono [OF ws_start_closing_handshake_post [OF ok k(1)]] digested_output by fastforce
  show ?thesis
    unfolding dispatch_payload_def Let_def
    using p(1) pk k data close pong [OF w1(2) k1] w1 k1 unknown digested_output [OF w1(2)]
    by (simp add: call_encode_frame_def call_closing_def ws_client_def)
qed

lemma evolves_recvbuf:
  assumes "wsd_ok w" "heap w s = Some k" "skb_wf b"
  shows "evolves w ((put_sk w s (k\<lparr>sk_recvbuf := b\<rparr>))\<lparr>wsd_errno := e\<rparr>)"
    "inbuf ((put_sk w s (k\<lparr>sk_recvbuf := b\<rparr>))\<lparr>wsd_errno := e\<rparr>) t = (if t = s then pending b else inbuf w t)"
  using assms wsd_ok_wf [OF assms(1,2)]
  by (auto intro!: evolves_errno evolves_put simp: ident_def inbuf_def)

lemma ws_decode_frame_post:
  assumes ready: "client_ready w s"
  shows "post (ws_decode_frame w s) (\<lambda>(rv, w'). evolves w w' \<and> (\<forall>t. t \<noteq> s \<longrightarrow> inbuf w' t = inbuf w t)
    \<and> (rv = 0 \<longrightarrow> length (inbuf w' s) < length (inbuf w s)))"
proof -
  obtain k where ok: "wsd_ok w" and k: "heap w s = Some k"
    using ready by (auto simp: client_ready_def)
  note wf = wsd_ok_wf [OF ok k] and store = evolves_recvbuf [OF ok k]
  show ?thesis
  proof (cases "length (pending (sk_recvbuf k)) < 6")
    case True
    then show ?thesis
      using k rdsz_less_iff [OF wf(2)]
      by (simp add: ws_decode_frame_def ws_len_defs evolves_errno evolves_refl ok inbuf_def)
  next
    case False
    let ?rb = "sk_recvbuf k"
    have l1: "1 \<le> length (pending ?rb)"
      using False by simp
    obtain bs1 b1 where b1: "skb_get_mem ?rb 1 = Ret (bs1, b1)" "length bs1 = 1" "bs1 = take 1 (pending ?rb)" "skb_wf b1"
      "same_bytes ?rb b1" "pending b1 = drop 1 (pending ?rb)"
      by (rule skb_get_any [OF wf(2) l1])
    have l2: "1 \<le> length (pending b1)"
      using False b1(6) by simp
    obtain bs2 b2 where b2: "skb_get_mem b1 1 = Ret (bs2, b2)" "length bs2 = 1" "bs2 = take 1 (pending b1)" "skb_wf b2"
      "same_bytes b1 b2" "pending b2 = drop 1 (pending b1)"
      by (rule skb_get_any [OF b1(4) l2])
    let ?byte1 = "of_le bs1 :: u8" and ?byte2 = "of_le bs2 :: u8"
    obtain len b3 e where b3: "ws_decode_payload_len (wsd_errno w) b2 ?byte2 = Ret (len, b3, e)" "skb_wf b3"
      "same_bytes b2 b3" "length (pending b3) \<le> length (pending b2)"
      by (rule ws_decode_payload_len_any [OF b2(4)])
    have start: "ws_decode_frame w s =
      (if RSV1_BIT ?byte1 \<noteq> 0 \<or> RSV2_BIT ?byte1 \<noteq> 0 \<or> RSV3_BIT ?byte1 \<noteq> 0 \<or> MASK_BIT ?byte2 = 0
       then Ret (-1, (put_sk w s (k\<lparr>sk_recvbuf := b2\<rparr>))\<lparr>wsd_errno := WSD_EBADREQ\<rparr>)
       else if skb_rdsz b3 < 4 then Ret (-1, (put_sk w s (k\<lparr>sk_recvbuf := b3\<rparr>))\<lparr>wsd_errno := WSD_EINPUT\<rparr>)
       else obind (skb_get32 b3) (\<lambda>(masking_key, b).
         if len > ucast (skb_rdsz b)
         then Ret (-1, (put_sk w s (k\<lparr>sk_recvbuf := skb_rd_reset b (rdpos ?rb)\<rparr>))\<lparr>wsd_errno := WSD_EINPUT\<rparr>)
         else
           let end_pos = rdpos b + ucast len in
           obind (unmask_loop masking_key (skb_data b) (unat (rdpos b)) 0 (unat end_pos - unat (rdpos b))) (\<lambda>d.
           dispatch_payload ((put_sk w s (k\<lparr>sk_recvbuf := b\<lparr>skb_data := d\<rparr>\<rparr>))\<lparr>wsd_errno := e\<rparr>) s
             \<lparr>wsf_byte1 = ?byte1, wsf_byte2 = ?byte2, wsf_payload_len = len, wsf_masking_key = masking_key\<rparr>)))"
      using k False rdsz_less_iff [OF wf(2)] b1(1) b2(1) b3(1)
      by (simp add: ws_decode_frame_def ws_len_defs skb_get8_def Let_def del: of_le.simps)
    show ?thesis
    proof (cases "length (pending b3) < 4")
      case True
      then show ?thesis
        using store b2(4) b3(2) rdsz_less_iff [OF b3(2)] by (simp add: start)
    next
      case False
      then have l4: "4 \<le> length (pending b3)"
        by simp
      obtain bs4 b4 where b4: "skb_get_mem b3 4 = Ret (bs4, b4)" "length bs4 = 4" "bs4 = take 4 (pending b3)" "skb_wf b4"
        "same_bytes b3 b4" "pending b4 = drop 4 (pending b3)"
        by (rule skb_get_any [OF b3(2) l4])
      have "same_bytes ?rb b4"
        using b1(5) b2(5) b3(3) b4(5) same_bytes_trans by blast
      then have reset: "skb_rd_reset b4 (rdpos ?rb) = ?rb"
        by (rule same_bytes_reset)
      have shorter: "length (pending b4) < length (inbuf w s)"
        using b1(6) b2(6) b3(4) b4(6) l4 k by (simp add: inbuf_def)
      show ?thesis
      proof (cases "length (pending b4) < unat len")
        case True
        then show ?thesis
          using store store [OF wf(2)] b2(4) rdsz_less_iff [OF b3(2)] False rdsz_le_iff [OF b4(4), of len] b4(1) k
          by (simp add: start skb_get32_def reset del: of_le.simps)
      next
        case fits: False
        have le: "unat len \<le> length (pending b4)"
          using fits by simp
        obtain d where d: "unmask_loop (of_le bs4) (skb_data b4) (unat (rdpos b4)) 0 (unat len) = Ret d"
          "skb_wf (b4\<lparr>skb_data := d\<rparr>)" and pd: "pending (b4\<lparr>skb_data := d\<rparr>)
            = map_at (\<lambda>c t. ws_mask c (of_nat t) (of_le bs4)) 0 (take (unat len) (pending b4)) @ drop (unat len) (pending b4)"
          and "room (b4\<lparr>skb_data := d\<rparr>) = room b4"
          by (rule unmask_pending [OF b4(4) le])
        have d3: "length (pending (b4\<lparr>skb_data := d\<rparr>)) = length (pending b4)"
          using le by (simp add: pd min_absorb2)
        let ?w = "(put_sk w s (k\<lparr>sk_recvbuf := b4\<lparr>skb_data := d\<rparr>\<rparr>))\<lparr>wsd_errno := e\<rparr>"
        let ?wsf = "\<lparr>wsf_byte1 = ?byte1, wsf_byte2 = ?byte2, wsf_payload_len = len, wsf_masking_key = of_le bs4\<rparr>"
        have ev: "evolves w ?w" and ib: "inbuf ?w t = (if t = s then pending (b4\<lparr>skb_data := d\<rparr>) else inbuf w t)" for t
          using store [OF d(2)] by simp_all
        have "post (dispatch_payload ?w s ?wsf) (\<lambda>(rv, w'). digested s ?w w')"
          using client_ready_evolves [OF ready ev] fits ib [of s] d3
          by (intro dispatch_payload_post) simp_all
        then have "post (dispatch_payload ?w s ?wsf) (\<lambda>(rv, w'). evolves w w' \<and> (\<forall>t. t \<noteq> s \<longrightarrow> inbuf w' t = inbuf w t)
            \<and> (rv = 0 \<longrightarrow> length (inbuf w' s) < length (inbuf w s)))"
          by (rule post_mono) (use ib d3 shorter in \<open>auto simp: digested_def intro: evolves_trans [OF ev]\<close>)
        moreover have "unat (rdpos b4 + ucast len) - unat (rdpos b4) = unat len"
          using end_pos [OF b4(4), of "unat len"] fits by simp
        ultimately show ?thesis
          using store b2(4) rdsz_less_iff [OF b3(2)] False rdsz_le_iff [OF b4(4), of len] b4(1) fits d(1)
          by (simp add: start skb_get32_def Let_def del: of_le.simps)
      qed
    qed
  qed
qed

text \<open>
  C22: Whatever bytes a client sends, decoding a frame never reads or writes outside a buffer
  and never calls a missing handler, and every socket keeps its identity, its well-formed
  buffers and its epoll registration.
\<close>

theorem ws_decode_frame_safe:
  assumes "client_ready w s"
  shows "ws_decode_frame w s \<noteq> Fault e
    \<and> (\<forall>rv w'. ws_decode_frame w s = Ret (rv, w') \<longrightarrow> client_ready w' s \<and> same_sockets w w')"
proof -
  have p: "post (ws_decode_frame w s) (\<lambda>(rv, w'). evolves w w')"
    by (rule post_mono [OF ws_decode_frame_post [OF assms]]) auto
  have "client_ready w' s \<and> same_sockets w w'" if "ws_decode_frame w s = Ret (rv, w')" for rv w'
    using post_RetD [OF p that] client_ready_evolves [OF assms] by (auto simp: evolves_def)
  then show ?thesis
    using post_no_fault [OF p] by blast
qed

lemma demo_pair_ready:
  assumes "length cs \<le> 1048576"
  shows "client_ready ((demo_pair cs [])\<lparr>heap := [1 \<mapsto> (demo_client cs)\<lparr>sk_proto := null_proto\<lparr>pong := Some Ws_pong,
     start_closing_handshake := Some Ws_start_closing_handshake\<rparr>\<rparr>, 2 \<mapsto> demo_backend []]\<rparr>) 1"
    (is "client_ready ?w 1")
proof -
  have "epoll (demo_pair cs []) = [7 \<mapsto> EPOLLIN, 8 \<mapsto> EPOLLIN]"
    by (simp add: demo_pair_def)
  then have "live ?w t k" if "heap ?w t = Some k" for t k
    using that assms by (auto simp: live_def registered_def skb_of_simps split: if_splits)
  then show ?thesis
    by (auto simp: client_ready_def ws_client_def wsd_ok_def split: if_splits)
qed

theorem ws_decode_frame_safe_witness:
  "\<exists>w. client_ready w 1 \<and> ws_decode_frame w 1 \<noteq> Fault Out_of_bounds"
proof -
  have "length (replicate 6 (0xff :: u8)) \<le> 1048576" by simp
  from demo_pair_ready [OF this] show ?thesis
    using ws_decode_frame_safe [of _ 1 Out_of_bounds] by blast
qed

interpretation client_decoder: frame_decoder ws_decode_frame client_ready
proof unfold_locales
  fix w s rv w' assume r: "client_ready w s" and ret: "ws_decode_frame w s = Ret (rv, w')"
  from post_RetD [OF ws_decode_frame_post [OF r] ret] show "client_ready w' s"
    using client_ready_evolves [OF r] by simp
next
  fix w s w' assume r: "client_ready w s" and ret: "ws_decode_frame w s = Ret (0, w')"
  from post_RetD [OF ws_decode_frame_post [OF r] ret] show "length (inbuf w' s) < length (inbuf w s)"
    by simp
qed

text \<open>
  C23: The receive loop of a client ends on every input: each accepted frame uses up input, so
  the loop stops after at most as many frames as there are bytes, without a memory fault,
  with a refusal of the decoder, and with the invariant intact.
\<close>

theorem client_loop_terminates:
  assumes "client_ready w s"
  shows "\<exists>r. decode_frames ws_decode_frame 0 w s = Some r \<and> r \<noteq> Fault e
    \<and> (\<forall>rv frames w'. r = Ret (rv, frames, w') \<longrightarrow> rv \<noteq> 0 \<and> frames \<le> length (inbuf w s) \<and> client_ready w' s)"
proof -
  obtain r where r: "decode_frames ws_decode_frame 0 w s = Some r"
    "\<forall>rv m w'. r = Ret (rv, m, w') \<longrightarrow> client_ready w' s \<and> rv \<noteq> 0 \<and> 0 \<le> m \<and> m - 0 \<le> length (inbuf w s)"
    using client_decoder.loop_ends [OF assms, of 0] by blast
  moreover have "ws_decode_frame v s \<noteq> Fault e" if "client_ready v s" for v e
    using post_no_fault [OF ws_decode_frame_post [OF that]] .
  then have "r \<noteq> Fault e"
    using client_decoder.loop_safe [OF assms, of 0 e] r(1) by auto
  ultimately show ?thesis by auto
qed

theorem client_loop_terminates_witness:
  "\<exists>w r. client_ready w 1 \<and> decode_frames ws_decode_frame 0 w 1 = Some r"
proof -
  have "length (replicate 6 (0xff :: u8)) \<le> 1048576" by simp
  from demo_pair_ready [OF this] show ?thesis
    using client_loop_terminates [of _ 1 Out_of_bounds] by blast
qed

end
