(* ===== verification/Parser.thy ===== *)
theory Parser
  imports Common
begin

text \<open>
  src/parser.c: tokenising and parsing an HTTP/1.1 upgrade request.

  A \<open>char *\<close> is an index into the byte array the request stands in (the receive buffer).
  The tokenisers keep their position in a function-level \<open>static\<close> variable; it is an
  argument and a result here. Loop counters are \<open>nat\<close>: a token is shorter than the buffer.
\<close>

subsection \<open>Character classes\<close>

abbreviation COLON :: u8 where "COLON \<equiv> 0x3a"
abbreviation COMMA :: u8 where "COMMA \<equiv> 0x2c"
abbreviation SLASH :: u8 where "SLASH \<equiv> 0x2f"

definition is_alnum :: "u8 \<Rightarrow> bool" where
  "is_alnum c \<longleftrightarrow> 0x41 \<le> c \<and> c \<le> 0x5a \<or> 0x61 \<le> c \<and> c \<le> 0x7a \<or> 0x30 \<le> c \<and> c \<le> 0x39"

definition is_rfc7230_start_line :: "u8 \<Rightarrow> bool" where
  "is_rfc7230_start_line c \<longleftrightarrow> is_alnum c \<or> c \<in> set [SP, SLASH, 0x2e, 0x3f, 0x2d, COLON, 0x2a]"

definition is_rfc7230_field_value :: "u8 \<Rightarrow> bool" where
  "is_rfc7230_field_value c \<longleftrightarrow>
     is_rfc7230_start_line c \<or> c \<in> set [HTAB, 0x3d, 0x5f, 0x3b, COMMA, 0x28, 0x29, 0x2b]"

definition is_rfc7230_header_field :: "u8 \<Rightarrow> bool" where
  "is_rfc7230_header_field c \<longleftrightarrow> is_alnum c \<or> c = 0x2d"

text \<open>\<open>isupper\<close> and \<open>tolower\<close> of ctype.h in the C locale.\<close>

definition is_upper :: "u8 \<Rightarrow> bool" where
  "is_upper c \<longleftrightarrow> 0x41 \<le> c \<and> c \<le> 0x5a"

definition to_lower :: "u8 \<Rightarrow> u8" where
  "to_lower c = (if is_upper c then c + 0x20 else c)"

subsection \<open>Scanning\<close>

text \<open>\<open>while (P(*cur++));\<close>: the position one past the first byte outside \<open>P\<close>.\<close>

function scan_past :: "(u8 \<Rightarrow> bool) \<Rightarrow> u8 list \<Rightarrow> nat \<Rightarrow> nat outcome" where
  "scan_past P m i =
     (if i < length m then if P (m ! i) then scan_past P m (Suc i) else Ret (Suc i)
      else Fault Out_of_bounds)"
  by pat_completeness auto
termination
  by (relation "measure (\<lambda>(P, m, i). length m - i)") auto

declare scan_past.simps [simp del]

text \<open>\<open>while (i++ < n) if (stop(*cur++)) break;\<close>\<close>

function scan_brk :: "(u8 \<Rightarrow> bool) \<Rightarrow> u8 list \<Rightarrow> nat \<Rightarrow> nat \<Rightarrow> nat \<Rightarrow> (nat \<times> nat) outcome" where
  "scan_brk stop m n i cur =
     (if i < n then
        obind (mem_get m cur) (\<lambda>c.
          if stop c then Ret (Suc i, Suc cur) else scan_brk stop m n (Suc i) (Suc cur))
      else Ret (Suc i, cur))"
  by pat_completeness auto
termination
  by (relation "measure (\<lambda>(stop, m, n, i, cur). n - i)") auto

declare scan_brk.simps [simp del]

text \<open>
  \<open>strncmp\<close> and \<open>strncasecmp\<close> of the bytes at \<open>p\<close> with a literal: whether the result is 0.
  The literal's terminating NUL is compared too.
\<close>

fun strn_eq :: "(u8 \<Rightarrow> u8) \<Rightarrow> u8 list \<Rightarrow> nat \<Rightarrow> u8 list \<Rightarrow> nat \<Rightarrow> bool outcome" where
  "strn_eq f m p lit 0 = Ret True"
| "strn_eq f m p [] (Suc n) = obind (mem_get m p) (\<lambda>c. Ret (c = NUL))"
| "strn_eq f m p (l # ls) (Suc n) =
     obind (mem_get m p) (\<lambda>c. if f c = f l then strn_eq f m (Suc p) ls n else Ret False)"

text \<open>The same through a chunk's pointer; with \<open>n = 0\<close> nothing is read.\<close>

definition chunk_eq :: "(u8 \<Rightarrow> u8) \<Rightarrow> u8 list \<Rightarrow> chunk \<Rightarrow> string \<Rightarrow> nat \<Rightarrow> bool outcome" where
  "chunk_eq f m chk lit n =
     (if n = 0 then Ret True
      else case chunk_p chk of None \<Rightarrow> Fault Null_deref | Some p \<Rightarrow> strn_eq f m p (bytes lit) n)"

definition chunk_strncmp :: "u8 list \<Rightarrow> chunk \<Rightarrow> string \<Rightarrow> nat \<Rightarrow> bool outcome" where
  "chunk_strncmp m chk lit n = chunk_eq (\<lambda>c. c) m chk lit n"

definition chunk_strncasecmp :: "u8 list \<Rightarrow> chunk \<Rightarrow> string \<Rightarrow> nat \<Rightarrow> bool outcome" where
  "chunk_strncasecmp m chk lit n = chunk_eq to_lower m chk lit n"

subsection \<open>Tokens of the header\<close>

definition CRLF :: u16 where
  "CRLF = 0x0a0d"

definition HTTP_version :: u64 where
  "HTTP_version = 0x312e312f50545448"

definition http_header_tok ::
  "u8 list \<Rightarrow> nat option \<Rightarrow> nat option \<Rightarrow> (int \<times> chunk \<times> nat option \<times> wsd_err) outcome" where
  "http_header_tok m s prev0 =
     (let (cur0, prev) = (case s of None \<Rightarrow> (prev0, prev0) | Some p \<Rightarrow> (Some p, None)) in
      case cur0 of
        None \<Rightarrow> Ret (-1, null_chunk, prev, WSD_EINPUT)
      | Some start \<Rightarrow>
          obind
            (if prev = None then scan_past is_rfc7230_start_line m start
             else obind (scan_past is_rfc7230_header_field m start) (\<lambda>cur.
                  obind (mem_get m (cur - 1)) (\<lambda>c.
                  if c \<noteq> COLON then Ret cur else scan_past is_rfc7230_field_value m cur)))
            (\<lambda>cur.
          obind (mem_read m (cur - 1) 2) (\<lambda>eol.
          if of_le eol \<noteq> CRLF then Ret (-1, null_chunk, prev, WSD_ECHAR)
          else let len = (of_nat (cur - start - 1) :: u32)
               in Ret (sint len, \<lparr>chunk_p = Some start, chunk_len = len\<rparr>, Some (cur + 1),
                       WSD_CHECKERRNO))))"

subsection \<open>The request line\<close>

definition parse_request_line ::
  "u8 list \<Rightarrow> chunk option \<Rightarrow> http_req \<Rightarrow> (int \<times> http_req \<times> wsd_err option) outcome" where
  "parse_request_line m tok0 req =
     (case tok0 of
        None \<Rightarrow> Ret (-1, req, Some WSD_EINPUT)
      | Some tok \<Rightarrow>
     if chunk_len tok = 0 then Ret (-1, req, Some WSD_EINPUT)
     else case chunk_p tok of
        None \<Rightarrow> Fault Null_deref
      | Some p \<Rightarrow>
     obind (scan_brk (\<lambda>c. \<not> is_upper c) m (unat (chunk_len tok)) 0 p) (\<lambda>(i, cur).
     let len = cur - p in
     obind (if len = 0 then Ret SP else mem_get m (cur - 1)) (\<lambda>c.
     if len = 0 \<or> c \<noteq> SP then Ret (-1, req, Some WSD_ECHAR)
     else
       let req = req\<lparr>req_method := \<lparr>chunk_p = Some p, chunk_len = of_nat (len - 1)\<rparr>\<rparr>;
           start = cur
       in obind (scan_brk (\<lambda>c. c = SP) m (unat (chunk_len tok)) i cur) (\<lambda>(i, cur).
       let len = cur - start in
       if len = 0 \<or> i = len then Ret (-1, req, Some WSD_ECHAR)
       else
         let req = req\<lparr>req_target := \<lparr>chunk_p = Some start, chunk_len = of_nat (len - 1)\<rparr>\<rparr> in
         if 8 \<noteq> chunk_len tok - of_nat i then Ret (-1, req, Some WSD_ECHAR)
         else obind (mem_read m cur 8) (\<lambda>v.
           if of_le v \<noteq> HTTP_version then Ret (-1, req, Some WSD_ECHAR)
           else Ret (0, req\<lparr>req_http_ver := \<lparr>chunk_p = Some start, chunk_len = 8\<rparr>\<rparr>, None))))))"

subsection \<open>Header fields\<close>

definition parse_header_field :: "u8 list \<Rightarrow> chunk \<Rightarrow> http_req \<Rightarrow> (int \<times> http_req) outcome" where
  "parse_header_field m tok req =
     (case chunk_p tok of
        None \<Rightarrow> Fault Null_deref
      | Some p \<Rightarrow>
     obind (scan_past (\<lambda>c. c \<noteq> COLON) m p) (\<lambda>cur.
     let len = cur - p;
         v = \<lparr>chunk_p = Some (p + len), chunk_len = chunk_len tok - of_nat len\<rparr>
     in
     obind (chunk_strncasecmp m tok ''Host'' 4) (\<lambda>b.
     if b then Ret (1, req\<lparr>req_host := v\<rparr>) else
     obind (chunk_strncasecmp m tok ''Upgrade'' 7) (\<lambda>b.
     if b then Ret (1, req\<lparr>req_upgrade := v\<rparr>) else
     obind (chunk_strncasecmp m tok ''Connection'' 10) (\<lambda>b.
     if b then
       if chunk_len (req_conn req) = 0 then Ret (1, req\<lparr>req_conn := v\<rparr>)
       else Ret (1, req\<lparr>req_conn2 := v\<rparr>)
     else
     obind (chunk_strncasecmp m tok ''Sec-WebSocket-Key'' 17) (\<lambda>b.
     if b then Ret (1, req\<lparr>req_sec_ws_key := v\<rparr>) else
     obind (chunk_strncasecmp m tok ''Sec-WebSocket-Version'' 21) (\<lambda>b.
     if b then Ret (1, req\<lparr>req_sec_ws_ver := v\<rparr>) else
     obind (chunk_strncasecmp m tok ''Sec-WebSocket-Protocol'' 22) (\<lambda>b.
     if b then Ret (1, req\<lparr>req_sec_ws_proto := v\<rparr>) else
     obind (chunk_strncasecmp m tok ''Sec-WebSocket-Extensions'' 24) (\<lambda>b.
     if b then Ret (1, req\<lparr>req_sec_ws_ext := v\<rparr>) else
     obind (chunk_strncasecmp m tok ''Origin'' 6) (\<lambda>b.
     if b then Ret (1, req\<lparr>req_origin := v\<rparr>) else
     obind (chunk_strncasecmp m tok ''User-Agent'' 10) (\<lambda>b.
     if b then Ret (1, req\<lparr>req_user_agent := v\<rparr>) else
     Ret (0, req))))))))))))"

subsection \<open>Elements of a field value\<close>

text \<open>\<open>while (cur->len) { cur->len--; if (',' == *cur->p++) { found = 1; break; } }\<close>\<close>

fun scan_comma :: "u8 list \<Rightarrow> nat \<Rightarrow> nat \<Rightarrow> (bool \<times> nat \<times> nat) outcome" where
  "scan_comma m p 0 = Ret (False, p, 0)"
| "scan_comma m p (Suc n) =
     obind (mem_get m p) (\<lambda>c. if c = COMMA then Ret (True, Suc p, n) else scan_comma m (Suc p) n)"

text \<open>
  The static \<open>prev\<close> points to the caller's chunk, which nobody else changes between two
  calls: it is the value of that chunk.
\<close>

definition http_field_value_tok ::
  "u8 list \<Rightarrow> chunk option \<Rightarrow> chunk option \<Rightarrow>
   (int \<times> chunk \<times> chunk option \<times> wsd_err option) outcome" where
  "http_field_value_tok m s prev0 =
     (let (cur0, prev) = (case s of None \<Rightarrow> (prev0, prev0) | Some c \<Rightarrow> (Some c, None)) in
      case cur0 of
        None \<Rightarrow> Ret (-1, null_chunk, prev, Some WSD_EINPUT)
      | Some cur \<Rightarrow>
     if chunk_len cur = 0 then Ret (-1, null_chunk, prev, Some WSD_EINPUT)
     else case chunk_p cur of
        None \<Rightarrow> Fault Null_deref
      | Some start \<Rightarrow>
     obind (scan_comma m start (unat (chunk_len cur))) (\<lambda>(found, p, n).
     let cur' = \<lparr>chunk_p = Some p, chunk_len = of_nat n\<rparr>;
         len = (if found then of_nat (p - start - 1) else chunk_len cur)
     in Ret (sint len, \<lparr>chunk_p = Some start, chunk_len = len\<rparr>, Some cur', None)))"

subsection \<open>Scanning lemmas\<close>

lemma scan_past_RetD:
  "scan_past P m i = Ret j \<Longrightarrow>
     i < j \<and> j \<le> length m \<and> (\<forall>k. i \<le> k \<longrightarrow> k < j - 1 \<longrightarrow> P (m ! k)) \<and> \<not> P (m ! (j - 1))"
proof (induction P m i rule: scan_past.induct)
  case (1 P m i)
  show ?case
  proof (cases "i < length m \<and> P (m ! i)")
    case True
    then have "scan_past P m (Suc i) = Ret j"
      using "1.prems" by (simp add: scan_past.simps [of P m i])
    then have *: "Suc i < j" "j \<le> length m" "\<forall>k. Suc i \<le> k \<longrightarrow> k < j - 1 \<longrightarrow> P (m ! k)"
      "\<not> P (m ! (j - 1))"
      using "1.IH" True by auto
    have "P (m ! k)" if "i \<le> k" "k < j - 1" for k
      using that *(3) True by (cases "k = i") auto
    with * show ?thesis by auto
  next
    case False
    then show ?thesis
      using "1.prems" by (auto simp: scan_past.simps [of P m i] split: if_splits)
  qed
qed

lemma scan_past_stop:
  "i \<le> j \<Longrightarrow> j < length m \<Longrightarrow> (\<And>k. i \<le> k \<Longrightarrow> k < j \<Longrightarrow> P (m ! k)) \<Longrightarrow> \<not> P (m ! j) \<Longrightarrow>
     scan_past P m i = Ret (Suc j)"
proof (induction "j - i" arbitrary: i)
  case 0
  then show ?case by (simp add: scan_past.simps [of P m i])
next
  case (Suc d)
  then have "scan_past P m (Suc i) = Ret (Suc j)" by (intro Suc.hyps(1)) auto
  with Suc show ?case by (simp add: scan_past.simps [of P m i])
qed

lemma scan_past_before:
  assumes "i \<le> e" "e < length m" "\<not> P (m ! e)"
  shows "\<exists>j. scan_past P m i = Ret j \<and> i < j \<and> j \<le> Suc e"
proof -
  let ?j = "LEAST j. i \<le> j \<and> \<not> P (m ! j)"
  have j: "i \<le> ?j \<and> \<not> P (m ! ?j)"
    by (rule LeastI [of _ e]) (use assms in auto)
  have le: "?j \<le> e"
    by (rule Least_le) (use assms in auto)
  have "P (m ! k)" if "i \<le> k" "k < ?j" for k
    using not_less_Least [OF that(2)] that(1) by auto
  then have "scan_past P m i = Ret (Suc ?j)"
    using j le assms by (intro scan_past_stop) auto
  with j le show ?thesis by auto
qed

lemma not_CR: "\<not> is_rfc7230_start_line CR" "\<not> is_rfc7230_field_value CR" "\<not> is_rfc7230_header_field CR"
  by (simp_all add: is_rfc7230_start_line_def is_rfc7230_field_value_def is_rfc7230_header_field_def is_alnum_def)
lemma COLON_class: "is_rfc7230_start_line COLON" "\<not> is_rfc7230_header_field COLON"
  by (simp_all add: is_rfc7230_start_line_def is_rfc7230_header_field_def is_alnum_def)

lemma of_le_eq_CRLF: "of_le bs = CRLF \<longleftrightarrow> bs = [CR, LF]" if "length bs = 2"
proof -
  have v: "le_bytes 2 CRLF = [CR, LF]" by code_simp
  have "le_bytes 2 (of_le bs :: u16) = bs" by (rule le_bytes_of_le) (use that in auto)
  then show ?thesis using v of_le_bytes2 by metis
qed

lemma of_le_eq_HTTP_version:
  "of_le bs = HTTP_version \<longleftrightarrow> bs = bytes ''HTTP/1.1''" if "length bs = 8"
proof -
  have v: "le_bytes 8 HTTP_version = bytes ''HTTP/1.1''" by code_simp
  have "le_bytes 8 (of_le bs :: u64) = bs" by (rule le_bytes_of_le) (use that in auto)
  then show ?thesis using v of_le_bytes8 by metis
qed

subsection \<open>The loop over the header fields\<close>

lemma http_header_tok_progress:
  assumes "http_header_tok m None (Some start) = Ret (rv, tok, prev, e)" and "0 < rv"
  shows "\<exists>q. prev = Some q \<and> start < q \<and> q \<le> length m"
  using assms
  by (auto simp: http_header_tok_def Let_def outcome_simps mem_read_def split: if_splits
      dest!: scan_past_RetD)

lemma http_header_tok_None [simp]:
  "http_header_tok m None None = Ret (-1, null_chunk, None, WSD_EINPUT)"
  by (simp add: http_header_tok_def)

text \<open>
  The loop \<open>while (0 < http_header_tok(NULL, &tok)) parse_header_field(&tok, &hreq)\<close> of
  \<open>http_recv\<close> (src/http.c) and \<open>wssk_http_recv\<close> (src/wscat.c). It ends because every token
  moves the saved position forward.
\<close>

function header_loop ::
  "u8 list \<Rightarrow> nat option \<Rightarrow> http_req \<Rightarrow> (int \<times> http_req \<times> nat option \<times> wsd_err) outcome" where
  "header_loop m prev req =
     obind (http_header_tok m None prev) (\<lambda>(rv, tok, prev', e).
     if 0 < rv then
       obind (parse_header_field m tok req) (\<lambda>(rv', req').
       if rv' < 0 then Ret (-1, req', prev', e) else header_loop m prev' req')
     else Ret (0, req, prev', e))"
  by pat_completeness auto
termination
proof (relation "measure (\<lambda>(m, prev, req).
    case prev of None \<Rightarrow> 0 | Some p \<Rightarrow> Suc (length m) - p)", goal_cases)
  case 1
  then show ?case by simp
next
  case (2 m prev req x rv p1 tok p2 prev' e y rv' req')
  then show ?case
    by (cases prev) (auto dest!: http_header_tok_progress)
qed

declare header_loop.simps [simp del]

subsection \<open>Tokenising stays inside a terminated header\<close>

lemma http_header_tok_safe:
  assumes e: "e + 4 \<le> length m" "m ! e = CR" "m ! (e + 1) = LF" "m ! (e + 2) = CR" "m ! (e + 3) = LF"
    and cur: "(case p of None \<Rightarrow> prev | Some x \<Rightarrow> Some x) = Some s" and s: "s \<le> e \<or> s = e + 2"
  shows "\<exists>rv tok prev' err. http_header_tok m p prev = Ret (rv, tok, prev', err)
    \<and> (0 < rv \<longrightarrow> s \<le> e \<and> (\<exists>q. prev' = Some q \<and> (q \<le> e \<or> q = e + 2)))"
proof -
  let ?scan = "if p = None
     then obind (scan_past is_rfc7230_header_field m s) (\<lambda>cur.
          obind (mem_get m (cur - 1)) (\<lambda>c.
          if c \<noteq> COLON then Ret cur else scan_past is_rfc7230_field_value m cur))
     else scan_past is_rfc7230_start_line m s"
  let ?pr = "case p of None \<Rightarrow> prev | Some x \<Rightarrow> None"
  have tok: "http_header_tok m p prev = obind ?scan (\<lambda>cur.
      obind (mem_read m (cur - 1) 2) (\<lambda>eol.
      if of_le eol \<noteq> CRLF then Ret (-1, null_chunk, ?pr, WSD_ECHAR)
      else let len = (of_nat (cur - s - 1) :: u32)
           in Ret (sint len, \<lparr>chunk_p = Some s, chunk_len = len\<rparr>, Some (cur + 1), WSD_CHECKERRNO)))"
    using cur by (cases p) (simp_all add: http_header_tok_def cong del: if_weak_cong)
  show ?thesis
  proof (cases "s \<le> e")
    case True
    obtain c where c: "?scan = Ret c" "s < c" "c \<le> Suc e"
    proof (cases p)
      case None
      obtain c1 where c1: "scan_past is_rfc7230_header_field m s = Ret c1" "s < c1" "c1 \<le> Suc e"
        using scan_past_before [of s e m is_rfc7230_header_field] True e not_CR by auto
      show thesis
      proof (cases "m ! (c1 - 1) = COLON")
        case colon: True
        then have "c1 \<le> e" using c1 e by (cases "c1 = Suc e") auto
        then obtain c2 where "scan_past is_rfc7230_field_value m c1 = Ret c2" "c1 < c2" "c2 \<le> Suc e"
          using scan_past_before [of c1 e m is_rfc7230_field_value] e not_CR by auto
        then show thesis using that [of c2] None colon c1 e by auto
      next
        case False
        then show thesis using that [of c1] None c1 e by auto
      qed
    next
      case (Some x)
      then show thesis
        using that scan_past_before [of s e m is_rfc7230_start_line] True e not_CR by auto
    qed
    have rd: "mem_read m (c - 1) 2 = Ret [m ! (c - 1), m ! c]"
      using c e by (auto simp: mem_read_def take_Suc_conv_app_nth numeral_2_eq_2 take_hd_drop
          Cons_nth_drop_Suc [symmetric])
    have "m ! c = LF \<Longrightarrow> c \<noteq> e" using e by auto
    then show ?thesis
      unfolding tok using c(1) rd True c(2,3) by (auto simp: of_le_eq_CRLF Let_def simp del: of_le.simps)
  next
    case False
    then have s2: "s = e + 2" using s by simp
    have "?scan = Ret (Suc s)"
      using e s2 not_CR scan_past_stop [of s s m] by auto
    moreover have "mem_read m s 2 = Ret [m ! s, m ! Suc s]"
      using e s2 by (auto simp: mem_read_def numeral_2_eq_2 Cons_nth_drop_Suc [symmetric])
    ultimately show ?thesis
      unfolding tok by (auto simp: of_le_eq_CRLF Let_def simp del: of_le.simps)
  qed
qed

subsection \<open>Tokenising recovers the lines of a header\<close>

lemma nth_drop_eq: "drop p m = xs @ ys \<Longrightarrow> k < length xs \<Longrightarrow> p \<le> length m \<Longrightarrow> m ! (p + k) = xs ! k"
  by (metis nth_append nth_drop)

lemma drop_len: "drop p m = xs @ ys \<Longrightarrow> p \<le> length m \<Longrightarrow> length m = p + length xs + length ys"
  by (metis add.assoc append_take_drop_id length_append length_take min.absorb2)

text \<open>A scan over a run of accepted bytes followed by a rejected one.\<close>

lemma scan_past_run:
  assumes "drop p m = xs @ c # ys" "p \<le> length m" "\<forall>x\<in>set xs. P x" "\<not> P c"
  shows "scan_past P m p = Ret (p + length xs + 1)"
proof -
  have "m ! (p + k) = xs ! k" if "k < length xs" for k
    using nth_drop_eq [OF assms(1) that assms(2)] .
  moreover have "m ! (p + length xs) = c"
    using nth_drop_eq [of p m "xs @ [c]" ys "length xs"] assms by simp
  moreover have "P (m ! k)" if "p \<le> k" "k < p + length xs" for k
    using that calculation(1) [of "k - p"] assms(3) by (auto simp: all_set_conv_all_nth)
  ultimately show ?thesis
    using scan_past_stop [of p "p + length xs" m P] drop_len [OF assms(1,2)] assms(4) by simp
qed

lemma mem_read_run:
  assumes "drop p m = xs @ ys" "p \<le> length m"
  shows "mem_read m p (length xs) = Ret xs"
  using assms drop_len [OF assms] by (simp add: mem_read_def)

definition field_line :: "u8 list \<times> u8 list \<Rightarrow> u8 list" where
  "field_line nv = fst nv @ [COLON] @ snd nv"

definition legal_field :: "u8 list \<times> u8 list \<Rightarrow> bool" where
  "legal_field nv \<longleftrightarrow> (\<forall>c\<in>set (fst nv). is_rfc7230_header_field c)
     \<and> (\<forall>c\<in>set (snd nv). is_rfc7230_field_value c) \<and> length (field_line nv) < 2 ^ 31"

lemma sint_small: "n < 2 ^ 31 \<Longrightarrow> sint (of_nat n :: u32) = int n"
  by (simp add: signed_of_nat signed_take_bit_int_eq_self)

lemma http_header_tok_field:
  assumes "legal_field nv" "drop p m = field_line nv @ [CR, LF] @ ys" "p \<le> length m"
  shows "http_header_tok m None (Some p) =
    Ret (int (length (field_line nv)),
         \<lparr>chunk_p = Some p, chunk_len = of_nat (length (field_line nv))\<rparr>,
         Some (p + length (field_line nv) + 2), WSD_CHECKERRNO)"
proof -
  obtain n v where nv: "nv = (n, v)" by force
  have l: "\<forall>c\<in>set n. is_rfc7230_header_field c" "\<forall>c\<in>set v. is_rfc7230_field_value c"
    using assms(1) by (auto simp: legal_field_def nv)
  let ?q = "p + length n + 1"
  have d1: "drop p m = n @ COLON # (v @ [CR, LF] @ ys)" using assms(2) by (simp add: field_line_def nv)
  have d2: "drop ?q m = v @ CR # LF # ys"
    using arg_cong [OF d1, of "drop (length n + 1)"] by (simp add: add.commute add.left_commute)
  have len: "length m = ?q + length v + 2 + length ys" using drop_len [OF d1 assms(3)] by simp
  have s1: "scan_past is_rfc7230_header_field m p = Ret ?q"
    using scan_past_run [OF d1 assms(3) l(1)] COLON_class by simp
  have c1: "m ! (p + length n) = COLON"
    using nth_drop_eq [of p m "n @ [COLON]" _ "length n"] d1 assms(3) by simp
  have s2: "scan_past is_rfc7230_field_value m ?q = Ret (?q + length v + 1)"
    using scan_past_run [OF d2 _ l(2)] not_CR len by simp
  have d3: "drop (?q + length v) m = [CR, LF] @ ys"
    using arg_cong [OF d2, of "drop (length v)"] by (simp add: add.commute add.left_commute)
  have r: "mem_read m (?q + length v) 2 = Ret [CR, LF]"
    using mem_read_run [OF d3] len by (simp add: numeral_2_eq_2)
  have fl: "length (field_line nv) = length n + 1 + length v" by (simp add: field_line_def nv)
  have "sint (of_nat (length n + 1 + length v) :: u32) = int (length n + 1 + length v)"
    using assms(1) by (intro sint_small) (simp add: legal_field_def fl)
  then show ?thesis
    using s1 c1 s2 r len by (simp add: http_header_tok_def fl of_le_eq_CRLF Let_def del: of_le.simps)
qed

lemma http_header_tok_end:
  assumes "drop p m = [CR, LF] @ ys" "p \<le> length m"
  shows "http_header_tok m None (Some p) =
    Ret (0, \<lparr>chunk_p = Some p, chunk_len = 0\<rparr>, Some (p + 2), WSD_CHECKERRNO)"
proof -
  have len: "length m = p + 2 + length ys" using drop_len [OF assms] by simp
  have c: "m ! p = CR" using nth_drop_eq [OF assms(1), of 0] assms(2) by simp
  have "scan_past is_rfc7230_header_field m p = Ret (Suc p)"
    using scan_past_run [of p m "[]" CR "LF # ys"] assms not_CR by simp
  moreover have "mem_read m p 2 = Ret [CR, LF]"
    using mem_read_run [OF assms] by (simp add: numeral_2_eq_2)
  ultimately show ?thesis
    using c len by (simp add: http_header_tok_def of_le_eq_CRLF Let_def del: of_le.simps)
qed

lemma http_header_tok_first:
  assumes "\<forall>c\<in>set l. is_rfc7230_start_line c" "drop p m = l @ [CR, LF] @ ys" "p \<le> length m"
    "length l < 2 ^ 31"
  shows "http_header_tok m (Some p) prev =
    Ret (int (length l), \<lparr>chunk_p = Some p, chunk_len = of_nat (length l)\<rparr>,
         Some (p + length l + 2), WSD_CHECKERRNO)"
proof -
  have len: "length m = p + length l + 2 + length ys" using drop_len [OF assms(2,3)] by simp
  have "scan_past is_rfc7230_start_line m p = Ret (p + length l + 1)"
    using scan_past_run [of p m l CR "LF # ys"] assms not_CR by simp
  moreover have d3: "drop (p + length l) m = [CR, LF] @ ys"
    using arg_cong [OF assms(2), of "drop (length l)"] by (simp add: add.commute)
  then have "mem_read m (p + length l) 2 = Ret [CR, LF]"
    using mem_read_run [OF d3] len by (simp add: numeral_2_eq_2)
  ultimately show ?thesis
    using sint_small [OF assms(4)] by (simp add: http_header_tok_def of_le_eq_CRLF Let_def del: of_le.simps)
qed

text \<open>
  A header name is compared over the literal's length only: a match is a case-insensitive
  prefix of the name.
\<close>

definition name_matches :: "u8 list \<Rightarrow> string \<Rightarrow> bool" where
  "name_matches n lit \<longleftrightarrow> take (length lit) (map to_lower n) = map to_lower (bytes lit)"

lemma strn_eq_name:
  assumes "drop p m = n @ COLON # ys" "p \<le> length m" "\<forall>c\<in>set lit. to_lower c \<noteq> to_lower COLON"
  shows "strn_eq to_lower m p lit (length lit) =
    Ret (take (length lit) (map to_lower n) = map to_lower lit)"
  using assms
proof (induction lit arbitrary: p n)
  case Nil
  then show ?case by simp
next
  case (Cons c cs)
  show ?case
  proof (cases n)
    case Nil
    have "m ! p = COLON" using nth_drop_eq [of p m "[COLON]" ys 0] Cons.prems Nil by simp
    moreover have "p < length m" using drop_len [OF Cons.prems(1,2)] by simp
    ultimately show ?thesis using Cons.prems Nil by auto
  next
    case (Cons x xs)
    have "m ! p = x" using nth_drop_eq [of p m "[x]" "xs @ COLON # ys" 0] Cons.prems Cons by simp
    moreover have "p < length m" using drop_len [OF Cons.prems(1,2)] by simp
    moreover have "drop (Suc p) m = xs @ COLON # ys"
      using arg_cong [OF Cons.prems(1), of "drop 1"] Cons by simp
    ultimately show ?thesis using Cons.IH [of "Suc p" xs] Cons.prems Cons by auto
  qed
qed


definition field_update :: "u8 list \<Rightarrow> chunk \<Rightarrow> http_req \<Rightarrow> int \<times> http_req" where
  "field_update n v req =
     (if name_matches n ''Host'' then (1, req\<lparr>req_host := v\<rparr>)
      else if name_matches n ''Upgrade'' then (1, req\<lparr>req_upgrade := v\<rparr>)
      else if name_matches n ''Connection'' then
        (if chunk_len (req_conn req) = 0 then (1, req\<lparr>req_conn := v\<rparr>)
         else (1, req\<lparr>req_conn2 := v\<rparr>))
      else if name_matches n ''Sec-WebSocket-Key'' then (1, req\<lparr>req_sec_ws_key := v\<rparr>)
      else if name_matches n ''Sec-WebSocket-Version'' then (1, req\<lparr>req_sec_ws_ver := v\<rparr>)
      else if name_matches n ''Sec-WebSocket-Protocol'' then (1, req\<lparr>req_sec_ws_proto := v\<rparr>)
      else if name_matches n ''Sec-WebSocket-Extensions'' then (1, req\<lparr>req_sec_ws_ext := v\<rparr>)
      else if name_matches n ''Origin'' then (1, req\<lparr>req_origin := v\<rparr>)
      else if name_matches n ''User-Agent'' then (1, req\<lparr>req_user_agent := v\<rparr>)
      else (0, req))"

lemma chunk_strncasecmp_name:
  assumes "drop p m = n @ COLON # ys" "p \<le> length m" "chunk_p tok = Some p"
    "list_all (\<lambda>c. to_lower c \<noteq> to_lower COLON) (bytes lit)" "l = length lit"
  shows "chunk_strncasecmp m tok lit l = Ret (name_matches n lit)"
  using strn_eq_name [OF assms(1,2), of "bytes lit"] assms(3,4,5)
  by (simp add: chunk_strncasecmp_def chunk_eq_def name_matches_def list_all_iff)

lemma header_literals:
  "list_all (\<lambda>lit. list_all (\<lambda>c. to_lower c \<noteq> to_lower COLON) (bytes lit))
    [''Host'', ''Upgrade'', ''Connection'', ''Sec-WebSocket-Key'', ''Sec-WebSocket-Version'',
     ''Sec-WebSocket-Protocol'', ''Sec-WebSocket-Extensions'', ''Origin'', ''User-Agent'']"
  by code_simp

lemma parse_header_field_line:
  assumes "drop p m = field_line (n, v) @ ys" "p \<le> length m" "COLON \<notin> set n"
    "chunk_p tok = Some p"
  shows "parse_header_field m tok req =
    Ret (field_update n \<lparr>chunk_p = Some (p + length n + 1),
      chunk_len = chunk_len tok - of_nat (length n + 1)\<rparr> req)"
proof -
  have d: "drop p m = n @ COLON # (v @ ys)" using assms(1) by (simp add: field_line_def)
  have s: "scan_past (\<lambda>c. c \<noteq> COLON) m p = Ret (p + length n + 1)"
    using scan_past_run [OF d assms(2), of "\<lambda>c. c \<noteq> COLON"] assms(3) by auto
  have lits: "list_all (\<lambda>c. to_lower c \<noteq> to_lower COLON) (bytes ''Host'')"
    "list_all (\<lambda>c. to_lower c \<noteq> to_lower COLON) (bytes ''Upgrade'')"
    "list_all (\<lambda>c. to_lower c \<noteq> to_lower COLON) (bytes ''Connection'')"
    "list_all (\<lambda>c. to_lower c \<noteq> to_lower COLON) (bytes ''Sec-WebSocket-Key'')"
    "list_all (\<lambda>c. to_lower c \<noteq> to_lower COLON) (bytes ''Sec-WebSocket-Version'')"
    "list_all (\<lambda>c. to_lower c \<noteq> to_lower COLON) (bytes ''Sec-WebSocket-Protocol'')"
    "list_all (\<lambda>c. to_lower c \<noteq> to_lower COLON) (bytes ''Sec-WebSocket-Extensions'')"
    "list_all (\<lambda>c. to_lower c \<noteq> to_lower COLON) (bytes ''Origin'')"
    "list_all (\<lambda>c. to_lower c \<noteq> to_lower COLON) (bytes ''User-Agent'')"
    using header_literals by simp_all
  note cmp = lits [THEN chunk_strncasecmp_name [OF d assms(2) assms(4)]]
  show ?thesis
    using s assms(4) by (simp add: parse_header_field_def field_update_def Let_def cmp)
qed

fun fold_fields :: "nat \<Rightarrow> (u8 list \<times> u8 list) list \<Rightarrow> http_req \<Rightarrow> http_req" where
  "fold_fields p [] req = req"
| "fold_fields p ((n, v) # fs) req =
     fold_fields (p + length (field_line (n, v)) + 2) fs
       (snd (field_update n \<lparr>chunk_p = Some (p + length n + 1), chunk_len = of_nat (length v)\<rparr> req))"

definition header_text :: "(u8 list \<times> u8 list) list \<Rightarrow> u8 list" where
  "header_text fs = concat (map (\<lambda>nv. field_line nv @ [CR, LF]) fs) @ [CR, LF]"

lemma fst_field_update: "\<not> fst (field_update n v req) < 0"
  by (simp add: field_update_def)

lemma legal_name: "legal_field (n, v) \<Longrightarrow> COLON \<notin> set n"
  using COLON_class by (auto simp: legal_field_def)

lemma header_loop_fields:
  "drop p m = header_text fs @ ys \<Longrightarrow> p \<le> length m \<Longrightarrow> \<forall>nv\<in>set fs. legal_field nv \<Longrightarrow>
   header_loop m (Some p) req =
     Ret (0, fold_fields p fs req, Some (p + length (header_text fs)), WSD_CHECKERRNO)"
proof (induction fs arbitrary: p req)
  case Nil
  then show ?case
    using http_header_tok_end [of p m ys] by (simp add: header_text_def header_loop.simps [of m "Some p"])
next
  case (Cons nv fs)
  obtain n v where nv: "nv = (n, v)" by force
  let ?k = "length (field_line nv)"
  have d: "drop p m = field_line nv @ [CR, LF] @ header_text fs @ ys"
    using Cons.prems(1) by (simp add: header_text_def)
  have len: "p + ?k + 2 \<le> length m"
    using drop_len [OF d Cons.prems(2)] by simp
  have legal: "legal_field nv" using Cons.prems(3) by simp
  note tok = http_header_tok_field [OF legal d Cons.prems(2)]
  have fl: "(of_nat ?k :: u32) - of_nat (length n + 1) = of_nat (length v)"
    by (simp add: field_line_def nv)
  have d': "drop (p + ?k + 2) m = header_text fs @ ys"
    using arg_cong [OF d, of "drop (?k + 2)"] by (simp add: add.commute add.left_commute)
  have pos: "0 < int ?k" by (simp add: field_line_def)
  obtain r req' where u: "field_update n \<lparr>chunk_p = Some (p + length n + 1), chunk_len = of_nat (length v)\<rparr> req = (r, req')"
    by force
  have r: "\<not> r < 0"
    using fst_field_update [of n _ req] u by (metis fst_conv)
  let ?tok = "\<lparr>chunk_p = Some p, chunk_len = of_nat ?k\<rparr> :: chunk"
  have "parse_header_field m ?tok req = Ret (field_update n \<lparr>chunk_p = Some (p + length n + 1),
      chunk_len = chunk_len ?tok - of_nat (length n + 1)\<rparr> req)"
    using d Cons.prems(2) legal by (intro parse_header_field_line legal_name [of n v]) (simp_all add: nv)
  then have fld: "parse_header_field m ?tok req = Ret (r, req')"
    using fl u by simp
  have "header_loop m (Some p) req = header_loop m (Some (p + ?k + 2)) req'"
    using tok fld pos r by (subst header_loop.simps) simp
  also have "\<dots> = Ret (0, fold_fields (p + ?k + 2) fs req', Some (p + ?k + 2 + length (header_text fs)),
      WSD_CHECKERRNO)"
    using Cons.prems(3) by (intro Cons.IH d' len) simp
  finally show ?case
    using u by (simp add: nv header_text_def)
qed

lemma scan_brk_spec:
  "i \<le> n \<Longrightarrow> cur + (n - i) \<le> length m \<Longrightarrow> xs = takeWhile (\<lambda>c. \<not> stop c) (take (n - i) (drop cur m)) \<Longrightarrow>
   scan_brk stop m n i cur =
     Ret (if length xs < n - i then (i + length xs + 1, cur + length xs + 1) else (n + 1, cur + (n - i)))"
proof (induction "n - i" arbitrary: i cur xs)
  case 0
  then show ?case by (subst scan_brk.simps) simp
next
  case (Suc d)
  have t: "take (n - i) (drop cur m) = m ! cur # take (n - Suc i) (drop (Suc cur) m)"
  proof -
    have "n - i = Suc (n - Suc i)" and "cur < length m"
      using Suc.hyps(2) Suc.prems(2) by auto
    then show ?thesis
      by (simp add: Cons_nth_drop_Suc [symmetric])
  qed
  have lt: "i < n" "cur < length m"
    using Suc.hyps(2) Suc.prems(2) by auto
  show ?case
  proof (cases "stop (m ! cur)")
    case True
    then have "xs = []"
      using Suc.prems(3) t by simp
    moreover have "scan_brk stop m n i cur = Ret (Suc i, Suc cur)"
      using True lt by (subst scan_brk.simps) simp
    ultimately show ?thesis
      using Suc.hyps(2) by simp
  next
    case False
    define ys where "ys = takeWhile (\<lambda>c. \<not> stop c) (take (n - Suc i) (drop (Suc cur) m))"
    have xs: "xs = m ! cur # ys"
      using Suc.prems(3) False t by (simp add: ys_def)
    have "scan_brk stop m n i cur = scan_brk stop m n (Suc i) (Suc cur)"
      using False lt by (subst scan_brk.simps) simp
    also have "\<dots> = Ret (if length ys < n - Suc i
        then (Suc i + length ys + 1, Suc cur + length ys + 1) else (n + 1, Suc cur + (n - Suc i)))"
      using Suc.hyps(2) Suc.prems(2) ys_def by (intro Suc.hyps(1)) auto
    finally show ?thesis
      using Suc.hyps(2) by (auto simp: xs)
  qed
qed

subsection \<open>The request line\<close>

lemma takeWhile_split:
  assumes "length (takeWhile P xs) < length xs"
  shows "xs = takeWhile P xs @ xs ! length (takeWhile P xs) # drop (Suc (length (takeWhile P xs))) xs
    \<and> \<not> P (xs ! length (takeWhile P xs))"
  using assms nth_length_takeWhile [of P xs]
  by (metis append_take_drop_id Cons_nth_drop_Suc takeWhile_eq_take)

lemma takeWhile_full: "\<not> length (takeWhile P xs) < length xs \<Longrightarrow> takeWhile P xs = xs"
  by (metis length_takeWhile_le linorder_not_less nat_less_le takeWhile_eq_take take_all_iff)

text \<open>
  The lines \<open>parse_request_line\<close> accepts: upper-case letters (possibly none), a blank, a target
  without blanks (possibly empty), a blank and the version. A request line of RFC 7230, section
  3.1.1, has a method that is a token, that is, at least one \<open>tchar\<close>, and a target, of which
  only that it is not empty and has no blank is said here.
\<close>

definition accepted_request_line :: "u8 list \<Rightarrow> u8 list \<Rightarrow> u8 list \<Rightarrow> bool" where
  "accepted_request_line t meth targ \<longleftrightarrow> t = meth @ SP # targ @ SP # bytes ''HTTP/1.1''
     \<and> (\<forall>c\<in>set meth. is_upper c) \<and> SP \<notin> set targ"

definition is_tchar :: "u8 \<Rightarrow> bool" where
  "is_tchar c \<longleftrightarrow> is_alnum c
     \<or> c \<in> set [0x21, 0x23, 0x24, 0x25, 0x26, 0x27, 0x2a, 0x2b, 0x2d, 0x2e, 0x5e, 0x5f, 0x60, 0x7c, 0x7e]"

definition rfc7230_request_line :: "u8 list \<Rightarrow> u8 list \<Rightarrow> u8 list \<Rightarrow> bool" where
  "rfc7230_request_line t meth targ \<longleftrightarrow> t = meth @ SP # targ @ SP # bytes ''HTTP/1.1''
     \<and> meth \<noteq> [] \<and> (\<forall>c\<in>set meth. is_tchar c) \<and> targ \<noteq> [] \<and> SP \<notin> set targ"

lemma takeWhile_run: "\<forall>x\<in>set xs. P x \<Longrightarrow> \<not> P c \<Longrightarrow> takeWhile P (xs @ c # ys) = xs"
  by (induction xs) auto

lemma upper_tchar: "is_upper c \<Longrightarrow> is_tchar c"
  by (simp add: is_upper_def is_tchar_def is_alnum_def)

lemma SP_not_tchar: "\<not> is_tchar SP"
  by code_simp

lemma accepted_rfc7230:
  "accepted_request_line t meth targ \<Longrightarrow> meth \<noteq> [] \<Longrightarrow> targ \<noteq> [] \<Longrightarrow> rfc7230_request_line t meth targ"
  by (auto simp: accepted_request_line_def rfc7230_request_line_def upper_tchar)

text \<open>The two grammars agree on which lines have an upper-case method.\<close>

lemma rfc7230_accepted_iff:
  assumes rfc: "rfc7230_request_line t meth targ"
  shows "(\<exists>m g. accepted_request_line t m g) \<longleftrightarrow> (\<forall>c \<in> set meth. is_upper c)"
proof
  assume "\<exists>m g. accepted_request_line t m g"
  then obtain m g where a: "accepted_request_line t m g" by blast
  have "takeWhile is_tchar t = meth"
    using rfc unfolding rfc7230_request_line_def by (metis takeWhile_run SP_not_tchar)
  moreover have "takeWhile is_tchar t = m"
    using a unfolding accepted_request_line_def by (metis takeWhile_run SP_not_tchar upper_tchar)
  ultimately show "\<forall>c \<in> set meth. is_upper c"
    using a by (simp add: accepted_request_line_def)
next
  assume "\<forall>c \<in> set meth. is_upper c"
  then show "\<exists>m g. accepted_request_line t m g"
    using rfc by (auto simp: accepted_request_line_def rfc7230_request_line_def)
qed

text \<open>
  Both differences are real: a line without a method is accepted, and one with a lower-case
  method, which RFC 7230 allows, is not.
\<close>

lemma request_line_gap:
  "accepted_request_line (bytes '' / HTTP/1.1'') [] (bytes ''/'')"
  "\<not> rfc7230_request_line (bytes '' / HTTP/1.1'') meth targ"
  "rfc7230_request_line (bytes ''get / HTTP/1.1'') (bytes ''get'') (bytes ''/'')"
  "\<not> accepted_request_line (bytes ''get / HTTP/1.1'') meth targ"
proof -
  have up: "\<not> is_upper 0x67" "\<not> is_tchar SP" "list_all is_tchar (bytes ''get'')"
    by code_simp+
  show "accepted_request_line (bytes '' / HTTP/1.1'') [] (bytes ''/'')"
    by (simp add: accepted_request_line_def bytes_def)
  show "rfc7230_request_line (bytes ''get / HTTP/1.1'') (bytes ''get'') (bytes ''/'')"
    using up(3) by (simp add: rfc7230_request_line_def bytes_def)
  show "\<not> rfc7230_request_line (bytes '' / HTTP/1.1'') meth targ"
    using up(2) by (cases meth) (auto simp: rfc7230_request_line_def bytes_def)
  show "\<not> accepted_request_line (bytes ''get / HTTP/1.1'') meth targ"
    using up(1) by (cases meth) (auto simp: accepted_request_line_def bytes_def)
qed

lemma scan_brk_found:
  assumes "i \<le> n" "cur + (n - i) \<le> length m"
    and "takeWhile (\<lambda>c. \<not> stop c) (take (n - i) (drop cur m)) = xs" "length xs < n - i"
  shows "scan_brk stop m n i cur = Ret (i + length xs + 1, cur + length xs + 1)"
  using scan_brk_spec [OF assms(1,2) assms(3) [symmetric]] assms(4) by simp

lemma scan_brk_none:
  assumes "i \<le> n" "cur + (n - i) \<le> length m"
    and "takeWhile (\<lambda>c. \<not> stop c) (take (n - i) (drop cur m)) = xs" "\<not> length xs < n - i"
  shows "scan_brk stop m n i cur = Ret (n + 1, cur + (n - i))"
  using scan_brk_spec [OF assms(1,2) assms(3) [symmetric]] assms(4) by simp

lemma parse_request_line_accepts:
  assumes "chunk_p tok = Some p" "p + unat (chunk_len tok) \<le> length m"
    and t: "take (unat (chunk_len tok)) (drop p m) = t" and rl: "accepted_request_line t meth targ"
  shows "parse_request_line m (Some tok) req = Ret (0, req
    \<lparr>req_method := \<lparr>chunk_p = Some p, chunk_len = of_nat (length meth)\<rparr>,
     req_target := \<lparr>chunk_p = Some (p + length meth + 1), chunk_len = of_nat (length targ)\<rparr>,
     req_http_ver := \<lparr>chunk_p = Some (p + length meth + 1), chunk_len = 8\<rparr>\<rparr>, None)"
proof -
  let ?n = "unat (chunk_len tok)"
  let ?i = "length meth + 1" and ?j = "length meth + 1 + length targ + 1"
  have r: "t = meth @ SP # targ @ SP # bytes ''HTTP/1.1''" "\<forall>c\<in>set meth. is_upper c" "SP \<notin> set targ"
    using rl by (auto simp: accepted_request_line_def)
  have n: "?n = ?j + 8"
    using arg_cong [OF t, of length] assms(2) by (simp add: r(1))
  have dr: "take (?n - k) (drop (p + k) m) = drop k t" if "k \<le> ?n" for k
    using that by (simp flip: t add: drop_take add.commute)
  have up: "\<not> is_upper SP" by (simp add: is_upper_def)
  have tw1: "takeWhile is_upper t = meth"
    unfolding r(1) using r(2) up by (rule takeWhile_run)
  have "takeWhile (\<lambda>c. \<not> c = SP) (targ @ SP # bytes ''HTTP/1.1'') = targ"
    by (rule takeWhile_run) (use r(3) in auto)
  then have tw2: "takeWhile (\<lambda>c. \<not> c = SP) (drop ?i t) = targ"
    by (simp add: r(1))
  have s1: "scan_brk (\<lambda>c. \<not> is_upper c) m ?n 0 p = Ret (?i, p + ?i)"
  proof -
    have "scan_brk (\<lambda>c. \<not> is_upper c) m ?n 0 p = Ret (0 + length meth + 1, p + length meth + 1)"
      by (rule scan_brk_found) (use assms(2) t tw1 n in simp_all)
    then show ?thesis by simp
  qed
  have c: "m ! (p + length meth) = SP"
  proof -
    have "take ?n (drop p m) ! length meth = SP" unfolding t r(1) by simp
    then show ?thesis using n assms(2) by simp
  qed
  have s2: "scan_brk (\<lambda>c. c = SP) m ?n ?i (p + ?i) = Ret (?j, p + ?j)"
  proof -
    have "scan_brk (\<lambda>c. c = SP) m ?n ?i (p + ?i) = Ret (?i + length targ + 1, p + ?i + length targ + 1)"
      by (rule scan_brk_found) (use assms(2) dr [of ?i] tw2 n in simp_all)
    then show ?thesis by (simp add: add.assoc)
  qed
  have v: "mem_read m (p + ?j) 8 = Ret (bytes ''HTTP/1.1'')"
    using dr [of ?j] n assms(2) by (simp add: mem_read_def r(1))
  have u: "chunk_len tok - of_nat ?j = 8"
  proof -
    have "chunk_len tok = of_nat ?n" by simp
    then have "chunk_len tok = of_nat (?j + 8)" unfolding n .
    then show ?thesis by (simp add: algebra_simps)
  qed
  have nz: "chunk_len tok \<noteq> 0" using n by (auto simp: unat_eq_0)
  have hv: "of_le (bytes ''HTTP/1.1'') = HTTP_version"
    using of_le_eq_HTTP_version [of "bytes ''HTTP/1.1''"] by simp
  show ?thesis
    using s1 c s2 v u nz hv assms(1,2) n by (simp add: parse_request_line_def Let_def)
qed

lemma parse_request_line_rejects:
  assumes "chunk_p tok = Some p" "p + unat (chunk_len tok) \<le> length m"
    and t: "take (unat (chunk_len tok)) (drop p m) = t" 
    and no: "\<nexists>meth targ. accepted_request_line t meth targ"
  shows "\<exists>req' e. parse_request_line m (Some tok) req = Ret (-1, req', Some e)"
proof (cases "chunk_len tok = 0")
  case True
  then show ?thesis by (simp add: parse_request_line_def)
next
  case nz: False
  let ?n = "unat (chunk_len tok)"
  define ms where "ms = takeWhile is_upper t"
  let ?i = "length ms + 1"
  have len: "length t = ?n" using t assms(2) by auto
  have n0: "0 < ?n" using nz by (simp add: unat_gt_0)
  have dr: "take (?n - k) (drop (p + k) m) = drop k t" if "k \<le> ?n" for k
    using that by (simp flip: t add: drop_take add.commute)
  have nth: "m ! (p + k) = t ! k" if "k < ?n" for k
    using that assms(2) by (simp flip: t)
  have s1: "scan_brk (\<lambda>c. \<not> is_upper c) m ?n 0 p =
      Ret (if length ms < ?n then (?i, p + ?i) else (?n + 1, p + ?n))"
    using scan_brk_spec [of 0 ?n p m ms "\<lambda>c. \<not> is_upper c"] assms(2) t by (simp add: ms_def)
  show ?thesis
  proof (cases "length ms < ?n \<and> t ! length ms = SP")
    case False
    have "m ! (p + ?n - 1) \<noteq> SP" if "\<not> length ms < ?n"
    proof -
      have "ms = t" using that len takeWhile_full [of is_upper t] by (simp add: ms_def)
      then have "is_upper (t ! (?n - 1))" 
        using n0 len by (metis diff_less less_one ms_def nth_mem set_takeWhileD)
      then show ?thesis using nth [of "?n - 1"] n0 by (auto simp: is_upper_def)
    qed
    then show ?thesis
      using False nz s1 nth [of "length ms"] n0 assms(1,2)
      by (auto simp: parse_request_line_def Let_def)
  next
    case True
    define t2 where "t2 = drop ?i t"
    define ts where "ts = takeWhile (\<lambda>c. c \<noteq> SP) t2"
    let ?j = "?i + length ts + 1"
    have len2: "length t2 = ?n - ?i" by (simp add: t2_def len)
    have t_eq: "t = ms @ SP # t2"
      using True takeWhile_split [of is_upper t] len by (simp add: ms_def t2_def)
    have s2: "scan_brk (\<lambda>c. c = SP) m ?n ?i (p + ?i) =
        Ret (if length ts < ?n - ?i then (?j, p + ?j) else (?n + 1, p + ?n))"
      using scan_brk_spec [of ?i ?n "p + ?i" m ts "\<lambda>c. c = SP"] assms(2) dr [of ?i] True
      by (simp add: ts_def t2_def)
    have c: "mem_get m (p + ?i - 1) = Ret SP"
      using True nth [of "length ms"] assms(2) by simp
    have cl: "chunk_len tok = of_nat ?n" by simp
    show ?thesis
    proof (cases "length ts < ?n - ?i")
      case False
      have "chunk_len tok - of_nat (?n + 1) \<noteq> 8" by simp
      then show ?thesis
        using s1 s2 c False True nz assms(1,2) by (auto simp: parse_request_line_def Let_def)
    next
      case ts: True
      have t2: "t2 = ts @ SP # drop (Suc (length ts)) t2"
        using takeWhile_split [of "\<lambda>c. c \<noteq> SP" t2] ts len2 by (auto simp: ts_def)
      have j: "?j \<le> ?n" using ts by simp
      have rest: "drop ?j t = drop (Suc (length ts)) t2"
        by (simp add: t_eq add.commute)
      have read: "mem_read m (p + ?j) 8 = Ret (drop ?j t)" if "?n - ?j = 8"
        using that dr [of ?j] j assms(2) by (simp add: mem_read_def)
      have "drop ?j t \<noteq> bytes ''HTTP/1.1''"
      proof
        assume "drop ?j t = bytes ''HTTP/1.1''"
        then have "t = ms @ SP # ts @ SP # bytes ''HTTP/1.1''"
          using t_eq t2 rest by metis
        moreover have "\<forall>c\<in>set ms. is_upper c" "SP \<notin> set ts"
          by (auto simp: ms_def ts_def dest: set_takeWhileD)
        ultimately have "accepted_request_line t ms ts"
          by (simp add: accepted_request_line_def)
        with no show False by blast
      qed
      then have ne: "of_le (drop ?j t) \<noteq> HTTP_version" if "?n - ?j = 8"
        using that len of_le_eq_HTTP_version [of "drop ?j t"] by simp
      have "chunk_len tok - of_nat ?j = of_nat (?n - ?j)" using j by (simp add: of_nat_diff)
      moreover have "(of_nat (?n - ?j) :: u32) = 8 \<longleftrightarrow> ?n - ?j = 8"
        by (rule of_nat_u32_eq_numeral) (simp_all add: le_less_trans [OF diff_le_self unat_u32_less])
      ultimately have eq8: "chunk_len tok - of_nat ?j = 8 \<longleftrightarrow> ?n - ?j = 8" by simp
      have s1': "scan_brk (\<lambda>c. \<not> is_upper c) m ?n 0 p = Ret (?i, p + ?i)"
        and s2': "scan_brk (\<lambda>c. c = SP) m ?n ?i (p + ?i) = Ret (?j, p + ?j)"
        using s1 s2 True ts by simp_all
      show ?thesis
      proof (cases "?n - ?j = 8")
        case True
        then have "chunk_len tok - of_nat ?j = 8" using eq8 by blast
        then show ?thesis
          using s1' s2' c nz assms(1) read [OF True] ne [OF True]
          by (simp add: parse_request_line_def Let_def)
      next
        case False
        then have "chunk_len tok - of_nat ?j \<noteq> 8" using eq8 by blast
        then show ?thesis
          using s1' s2' c nz assms(1) by (simp add: parse_request_line_def Let_def)
      qed
    qed
  qed
qed

subsection \<open>Elements of a field value\<close>

lemma scan_comma_spec:
  "p + n \<le> length m \<Longrightarrow> e = takeWhile (\<lambda>c. c \<noteq> COMMA) (take n (drop p m)) \<Longrightarrow>
   scan_comma m p n =
     Ret (if length e < n then (True, p + length e + 1, n - length e - 1) else (False, p + n, 0))"
proof (induction n arbitrary: p e)
  case 0
  then show ?case by simp
next
  case (Suc n)
  have t: "take (Suc n) (drop p m) = m ! p # take n (drop (Suc p) m)"
    using Suc.prems(1) by (simp add: Cons_nth_drop_Suc [symmetric])
  have IH: "scan_comma m (Suc p) n = Ret (let e = takeWhile (\<lambda>c. c \<noteq> COMMA) (take n (drop (Suc p) m)) in
      if length e < n then (True, Suc p + length e + 1, n - length e - 1) else (False, Suc p + n, 0))"
    using Suc.IH [OF _ refl, of "Suc p"] Suc.prems(1) by (simp add: Let_def)
  show ?case
    using Suc.prems(1) unfolding Suc.prems(2) t by (auto simp: IH Let_def)
qed

lemma http_field_value_tok_elem:
  assumes cur: "(case s of None \<Rightarrow> prev | Some c \<Rightarrow> Some c) = Some c"
    and c: "chunk_p c = Some p" "chunk_len c \<noteq> 0" "unat (chunk_len c) < 2 ^ 31"
    and m: "p + unat (chunk_len c) \<le> length m"
    and e: "takeWhile (\<lambda>x. x \<noteq> COMMA) (chunk_text m c) = e"
  shows "\<exists>c'. http_field_value_tok m s prev =
      Ret (int (length e), \<lparr>chunk_p = Some p, chunk_len = of_nat (length e)\<rparr>, Some c', None)
    \<and> chunk_text m c' = drop (length e + 1) (chunk_text m c)
    \<and> chunk_p c' = Some (p + unat (chunk_len c) - unat (chunk_len c'))
    \<and> unat (chunk_len c') < unat (chunk_len c)"
proof -
  let ?n = "unat (chunk_len c)"
  have ct: "chunk_text m c = take ?n (drop p m)" using c by (simp add: chunk_text_def)
  have tok: "http_field_value_tok m s prev = obind (scan_comma m p ?n) (\<lambda>(found, q, k).
     let len = (if found then of_nat (q - p - 1) else chunk_len c)
     in Ret (sint len, \<lparr>chunk_p = Some p, chunk_len = len\<rparr>,
             Some \<lparr>chunk_p = Some q, chunk_len = of_nat k\<rparr>, None))"
    using cur c by (cases s) (auto simp: http_field_value_tok_def)
  have sc: "scan_comma m p ?n =
     Ret (if length e < ?n then (True, p + length e + 1, ?n - length e - 1) else (False, p + ?n, 0))"
    using scan_comma_spec [of p ?n m e] m e by (simp add: ct)
  have n0: "0 < ?n" using c(2) by (simp add: unat_gt_0)
  show ?thesis
  proof (cases "length e < ?n")
    case True
    have k: "unat (of_nat (?n - length e - 1) :: u32) = ?n - length e - 1"
      by (rule unat_of_nat_u32) (rule le_less_trans [OF _ unat_u32_less [of "chunk_len c"]], simp)
    let ?c = "\<lparr>chunk_p = Some (p + length e + 1), chunk_len = of_nat (?n - length e - 1)\<rparr> :: chunk"
    have "chunk_text m ?c = drop (length e + 1) (chunk_text m c)"
      unfolding ct using True k by (simp add: chunk_text_def drop_take add.commute add.left_commute)
    moreover have "sint (of_nat (length e) :: u32) = int (length e)"
      using True c(3) by (intro sint_small) simp
    ultimately show ?thesis
      using True k n0 by (intro exI [of _ ?c]) (simp add: tok sc Let_def)
  next
    case False
    have le: "length e = ?n"
      using False e m length_takeWhile_le [of "\<lambda>x. x \<noteq> COMMA" "chunk_text m c"] by (simp add: ct)
    let ?c = "\<lparr>chunk_p = Some (p + ?n), chunk_len = 0\<rparr> :: chunk"
    have s: "sint (chunk_len c) = int ?n"
      using sint_small [OF c(3)] by simp
    show ?thesis
      using False le n0 s c(1) by (intro exI [of _ ?c]) (simp add: tok sc Let_def chunk_text_def)
  qed
qed

lemma http_field_value_tok_empty:
  assumes "(case s of None \<Rightarrow> prev | Some c \<Rightarrow> Some c) = Some c" "chunk_len c = 0"
  shows "\<exists>prev'. http_field_value_tok m s prev = Ret (-1, null_chunk, prev', Some WSD_EINPUT)"
  using assms by (cases s) (auto simp: http_field_value_tok_def)

subsection \<open>Properties\<close>

text \<open>
  C36: On any token inside the array \<open>parse_request_line\<close> returns 0 or -1. It returns 0 exactly
  for upper-case letters (possibly none), a blank, a target without blanks (possibly empty), a
  blank and \<open>HTTP/1.1\<close>, and then the method and target chunks are those parts of the token. Of
  the request lines of RFC 7230 it thus accepts those with an upper-case method and no others;
  \<open>request_line_gap\<close> shows lines on which the two differ.
\<close>

theorem parse_request_line_iff:
  assumes "chunk_p tok = Some p" "p + unat (chunk_len tok) \<le> length m"
  shows "\<exists>rv req' e. parse_request_line m (Some tok) req = Ret (rv, req', e) \<and> rv \<in> {0, -1}
    \<and> (rv = 0 \<longleftrightarrow> (\<exists>meth targ. accepted_request_line (chunk_text m tok) meth targ))
    \<and> (rv = 0 \<longrightarrow> accepted_request_line (chunk_text m tok)
          (chunk_text m (req_method req')) (chunk_text m (req_target req')))
    \<and> (\<forall>meth targ. rfc7230_request_line (chunk_text m tok) meth targ
          \<longrightarrow> (rv = 0 \<longleftrightarrow> (\<forall>c \<in> set meth. is_upper c)))"
proof (cases "\<exists>meth targ. accepted_request_line (chunk_text m tok) meth targ")
  case True
  then obtain meth targ where rl: "accepted_request_line (chunk_text m tok) meth targ" by blast
  have t: "take (unat (chunk_len tok)) (drop p m) = chunk_text m tok"
    using assms(1) by (simp add: chunk_text_def)
  have d: "drop p m = meth @ SP # targ @ SP # bytes ''HTTP/1.1'' @ drop (p + unat (chunk_len tok)) m"
    using rl append_take_drop_id [of "unat (chunk_len tok)" "drop p m"] unfolding t
    by (simp add: accepted_request_line_def add.commute)
  have l: "length meth + length targ + 10 = unat (chunk_len tok)"
    using arg_cong [OF t, of length] assms(2) rl by (simp add: accepted_request_line_def)
  have u: "unat (of_nat (length meth) :: u32) = length meth" "unat (of_nat (length targ) :: u32) = length targ"
    by (rule unat_of_nat_u32; use l unat_u32_less [of "chunk_len tok"] in linarith)+
  have "drop (p + length meth + 1) m = targ @ SP # bytes ''HTTP/1.1'' @ drop (p + unat (chunk_len tok)) m"
    using arg_cong [OF d, of "drop (length meth + 1)"] by (simp add: add.commute add.left_commute)
  then have "chunk_text m \<lparr>chunk_p = Some p, chunk_len = of_nat (length meth)\<rparr> = meth"
    "chunk_text m \<lparr>chunk_p = Some (p + length meth + 1), chunk_len = of_nat (length targ)\<rparr> = targ"
    using d u by (simp_all add: chunk_text_def)
  with rl show ?thesis
    using parse_request_line_accepts [OF assms t rl] rfc7230_accepted_iff [of "chunk_text m tok"] by fastforce
next
  case False
  then show ?thesis
    using parse_request_line_rejects [OF assms refl, of req] False rfc7230_accepted_iff assms(1)
    by (fastforce simp: chunk_text_def)
qed

theorem parse_request_line_iff_witness:
  "\<exists>rv req' e. parse_request_line (bytes ''GET / HTTP/1.1'') (Some \<lparr>chunk_p = Some 0, chunk_len = 14\<rparr>)
     null_http_req = Ret (rv, req', e) \<and> rv = 0"
proof -
  let ?m = "bytes ''GET / HTTP/1.1''" and ?t = "\<lparr>chunk_p = Some 0, chunk_len = 14\<rparr> :: chunk"
  have "chunk_text ?m ?t = ?m" by (simp add: chunk_text_def)
  then have "accepted_request_line (chunk_text ?m ?t) (bytes ''GET'') (bytes ''/'')"
    by (simp add: accepted_request_line_def bytes_def is_upper_def)
  then show ?thesis
    using parse_request_line_iff [of ?t 0 ?m null_http_req] by auto
qed

text \<open>
  C35: Round trip. The bytes of any list of legal header fields, followed by the empty line, are
  tokenised and parsed back to exactly these fields: the loop returns, stops right behind the
  empty line and has stored the value of every known name where the name (case-insensitively)
  says, and nothing else.
\<close>

theorem header_fields_roundtrip:
  assumes "drop p m = header_text fs @ ys" "p \<le> length m" "\<forall>nv\<in>set fs. legal_field nv"
  shows "header_loop m (Some p) req =
     Ret (0, fold_fields p fs req, Some (p + length (header_text fs)), WSD_CHECKERRNO)"
  using assms by (rule header_loop_fields)

theorem header_fields_roundtrip_witness:
  "header_loop (header_text [(bytes ''hOst'', bytes '' a''), (bytes ''X'', []), (bytes ''Upgrade'', bytes ''b'')])
     (Some 0) null_http_req = Ret (0, null_http_req
       \<lparr>req_host := \<lparr>chunk_p = Some 5, chunk_len = 2\<rparr>, req_upgrade := \<lparr>chunk_p = Some 21, chunk_len = 1\<rparr>\<rparr>,
       Some 26, WSD_CHECKERRNO)"
proof -
  let ?fs = "[(bytes ''hOst'', bytes '' a''), (bytes ''X'', []), (bytes ''Upgrade'', bytes ''b'')]"
  have "fold_fields 0 ?fs null_http_req = null_http_req
       \<lparr>req_host := \<lparr>chunk_p = Some 5, chunk_len = 2\<rparr>, req_upgrade := \<lparr>chunk_p = Some 21, chunk_len = 1\<rparr>\<rparr>"
    and "length (header_text ?fs) = 26"
    and "list_all (\<lambda>nv. list_all is_rfc7230_header_field (fst nv) \<and> list_all is_rfc7230_field_value (snd nv)) ?fs"
    by code_simp+
  moreover have "\<forall>nv\<in>set ?fs. length (field_line nv) < 2 ^ 31"
    by (simp add: field_line_def)
  ultimately show ?thesis
    using header_fields_roundtrip [of 0 "header_text ?fs" ?fs "[]" null_http_req]
    by (simp add: list_all_iff legal_field_def)
qed

text \<open>
  C0: Memory safety of the tokeniser. Wherever a scan starts before the CR LF CR LF at \<open>e\<close>
  that \<open>has_rnrn_termination\<close> found, and whatever the bytes are, \<open>http_header_tok\<close> returns
  without reading behind that mark; it can be resumed only before the mark or at its second
  CR, and from there it reports the end of the header.
\<close>

theorem http_header_tok_memory_safe:
  assumes "e + 4 \<le> length m" "m ! e = CR" "m ! (e + 1) = LF" "m ! (e + 2) = CR" "m ! (e + 3) = LF"
    and "(case p of None \<Rightarrow> prev | Some x \<Rightarrow> Some x) = Some s" and "s \<le> e \<or> s = e + 2"
  shows "\<exists>rv tok prev' err. http_header_tok m p prev = Ret (rv, tok, prev', err)
    \<and> (0 < rv \<longrightarrow> s \<le> e \<and> (\<exists>q. prev' = Some q \<and> (q \<le> e \<or> q = e + 2)))"
  using assms by (rule http_header_tok_safe)

theorem http_header_tok_memory_safe_witness:
  "\<exists>rv tok prev' err. http_header_tok [0x80, CR, LF, CR, LF] (Some 0) None = Ret (rv, tok, prev', err)"
proof -
  have "[0x80, CR, LF, CR, LF] ! (1 + 1) = LF" "[0x80, CR, LF, CR, LF] ! (1 + 2) = CR"
    "[0x80, CR, LF, CR, LF] ! (1 + 3) = LF"
    by simp_all
  then show ?thesis
    using http_header_tok_memory_safe [of 1 "[0x80, CR, LF, CR, LF]" None "Some 0" 0] by fastforce
qed

text \<open>
  \<open>http_field_value_tok\<close> splits a non-empty value at its first comma: it returns the
  element before the comma and leaves what is behind it for the next call, which is shorter.
\<close>

theorem http_field_value_tok_splits:
  assumes "(case s of None \<Rightarrow> prev | Some c \<Rightarrow> Some c) = Some c"
    and "chunk_p c = Some p" "chunk_len c \<noteq> 0" "unat (chunk_len c) < 2 ^ 31"
    and "p + unat (chunk_len c) \<le> length m"
  shows "\<exists>rv res c'. http_field_value_tok m s prev = Ret (rv, res, Some c', None)
    \<and> chunk_text m res = takeWhile (\<lambda>x. x \<noteq> COMMA) (chunk_text m c) \<and> rv = int (length (chunk_text m res))
    \<and> chunk_text m c' = drop (length (chunk_text m res) + 1) (chunk_text m c)
    \<and> unat (chunk_len c') < unat (chunk_len c)"
proof -
  let ?e = "takeWhile (\<lambda>x. x \<noteq> COMMA) (chunk_text m c)"
  have ct: "chunk_text m c = take (unat (chunk_len c)) (drop p m)"
    using assms(2) by (simp add: chunk_text_def)
  have le: "length ?e \<le> unat (chunk_len c)"
    using length_takeWhile_le [of "\<lambda>x. x \<noteq> COMMA" "chunk_text m c"] assms(5) by (simp add: ct)
  have "take (length ?e) (drop p m) = take (length ?e) (chunk_text m c)"
    using le by (simp add: ct min_absorb1)
  then have "take (length ?e) (drop p m) = ?e"
    by (simp add: takeWhile_eq_take [symmetric])
  moreover have "unat (of_nat (length ?e) :: u32) = length ?e"
    using le assms(4) by (intro unat_of_nat_u32) simp
  ultimately have "chunk_text m \<lparr>chunk_p = Some p, chunk_len = of_nat (length ?e)\<rparr> = ?e"
    by (simp add: chunk_text_def)
  then show ?thesis
    using http_field_value_tok_elem [OF assms refl] by fastforce
qed

theorem http_field_value_tok_splits_witness:
  "\<exists>rv res c'. http_field_value_tok (bytes ''keep-alive, Upgrade'') (Some \<lparr>chunk_p = Some 0, chunk_len = 19\<rparr>) None
     = Ret (rv, res, Some c', None) \<and> chunk_text (bytes ''keep-alive, Upgrade'') res = bytes ''keep-alive''
    \<and> chunk_text (bytes ''keep-alive, Upgrade'') c' = bytes '' Upgrade''"
proof -
  let ?m = "bytes ''keep-alive, Upgrade''" and ?c = "\<lparr>chunk_p = Some 0, chunk_len = 19\<rparr> :: chunk"
  have e: "takeWhile (\<lambda>x. x \<noteq> COMMA) (chunk_text ?m ?c) = bytes ''keep-alive''"
    "drop (length (bytes ''keep-alive'') + 1) (chunk_text ?m ?c) = bytes '' Upgrade''"
    by code_simp+
  show ?thesis
    using http_field_value_tok_splits [of None "Some ?c" ?c 0 ?m] e by (elim meta_impE exE) auto
qed

subsection \<open>Header lines without a colon\<close>

lemma scan_past_fault:
  "\<forall>k. i \<le> k \<longrightarrow> k < length m \<longrightarrow> P (m ! k) \<Longrightarrow> scan_past P m i = Fault Out_of_bounds"
proof (induction P m i rule: scan_past.induct)
  case (1 P m i)
  then show ?case by (subst scan_past.simps) auto
qed

text \<open>
  \<open>http_header_tok\<close> accepts a line without a colon, but \<open>parse_header_field\<close> looks for the colon
  without a bound: it leaves the array when no colon follows, and takes the colon of a later
  line otherwise, so that the length of the value wraps around.
\<close>

lemma parse_header_field_overrun:
  assumes "chunk_p tok = Some p" "COLON \<notin> set (drop p m)"
  shows "parse_header_field m tok req = Fault Out_of_bounds"
proof -
  have "m ! k \<noteq> COLON" if "p \<le> k" "k < length m" for k
    using assms(2) that in_set_conv_nth [of "m ! k" "drop p m"]
    by (auto dest!: spec [of _ "k - p"])
  then have "scan_past (\<lambda>c. c \<noteq> COLON) m p = Fault Out_of_bounds"
    by (intro scan_past_fault) blast
  then show ?thesis
    using assms(1) by (simp add: parse_header_field_def)
qed

lemma parse_header_field_wraps:
  "parse_header_field (bytes ''Host'' @ [CR, LF] @ bytes ''Upgrade: websocket'' @ [CR, LF])
     \<lparr>chunk_p = Some 0, chunk_len = 4\<rparr> null_http_req
   = Ret (1, null_http_req\<lparr>req_host := \<lparr>chunk_p = Some 14, chunk_len = 4294967286\<rparr>\<rparr>)"
  by code_simp

end
