(* ===== verification/Handshake.thy ===== *)
theory Handshake
  imports Frames Parser
begin

text \<open>
  The websocket handshake of wsd (src/ws_wsd.c): the checks on the upgrade request, the
  101 answer, the switch of a client into websocket mode, the connection to the backend,
  and \<open>ws_recv\<close>, the receive handler of a client in websocket mode.

  What the program gets from outside is an argument: \<open>digest\<close> is the base64 text of the
  SHA-1 of a byte string (OpenSSL), and a \<open>dial\<close> says how the system calls of \<open>sk_open\<close>
  turn out.
\<close>

subsection \<open>Literals\<close>

definition HTTP_101 :: "u8 list" where
  "HTTP_101 = bytes ''HTTP/1.1 101 Switching Protocols'' @ [CR, LF] @ bytes ''Upgrade: websocket'' @ [CR, LF]
     @ bytes ''Connection: Upgrade'' @ [CR, LF] @ bytes ''Sec-WebSocket-Accept: ''"

definition WS_HTTP_400 :: "u8 list" where
  "WS_HTTP_400 = bytes ''HTTP/1.1 400 Bad Request'' @ [CR, LF] @ bytes ''Sec-WebSocket-Version: 13'' @ [CR, LF]
     @ bytes ''Content-Length: 0'' @ [CR, LF, CR, LF]"

definition HTTP_500 :: "u8 list" where
  "HTTP_500 = bytes ''HTTP/1.1 500 Internal Server Error'' @ [CR, LF] @ bytes ''Content-Length: 0'' @ [CR, LF, CR, LF]"

definition WS_GUID :: "u8 list" where
  "WS_GUID = bytes ''258EAFA5-E914-47DA-95CA-C5AB0DC85B11''"

definition WS_VER :: "u8 list" where
  "WS_VER = bytes ''Sec-WebSocket-Version: ''"

definition WS_PROTO :: "u8 list" where
  "WS_PROTO = bytes ''Sec-WebSocket-Protocol: ''"

definition FLD_SEC_WS_VER_VAL :: "u8 list" where
  "FLD_SEC_WS_VER_VAL = bytes ''13''"

definition WS_ACCEPT_KEY_LEN :: nat where "WS_ACCEPT_KEY_LEN = 28"

definition SCRATCH_SIZE :: nat where "SCRATCH_SIZE = 64"

subsection \<open>Refusing a request\<close>

text \<open>\<open>if (0 == skb_put_strn(sk->sendbuf, lit, strlen(lit))) sk->close_on_write = 1;\<close>\<close>

definition answer :: "world \<Rightarrow> ptr \<Rightarrow> u8 list \<Rightarrow> world outcome" where
  "answer w s lit =
     obind (deref w s) (\<lambda>k.
     obind (skb_put_strn (sk_sendbuf k) (lit @ [NUL]) 0 (of_nat (length lit))) (\<lambda>(rv, b).
     let k = k\<lparr>sk_sendbuf := b\<rparr>
     in Ret (put_sk w s (if rv = 0 then k\<lparr>sk_close_on_write := True\<rparr> else k))))"

text \<open>The label \<open>error\<close> of \<open>http_recv\<close> and of \<open>ws_decode_handshake\<close>.\<close>

definition reject :: "world \<Rightarrow> ptr \<Rightarrow> (int \<times> world) outcome" where
  "reject w s =
     obind (upd_sk w s (\<lambda>k. k\<lparr>sk_recvbuf := skb_reset (sk_recvbuf k)\<rparr>)) (\<lambda>w.
     let w = w\<lparr>wsd_errno := WSD_EBADREQ\<rparr> in
     obind (deref w s) (\<lambda>k.
     if sk_close_on_write k then
       obind (turn_off_events w s EPOLLIN) (\<lambda>w.
       obind (ensure_events w s EPOLLOUT) (\<lambda>w. Ret (-1, w)))
     else Ret (-1, w)))"

subsection \<open>Checks\<close>

definition is_valid_ver :: "u8 list \<Rightarrow> http_req \<Rightarrow> (bool \<times> http_req) outcome" where
  "is_valid_ver m req =
     obind (trim m (req_sec_ws_ver req)) (\<lambda>c.
     obind (chunk_strncmp m c ''13'' (unat (chunk_len c))) (\<lambda>b.
     Ret (b, req\<lparr>req_sec_ws_ver := c\<rparr>)))"

definition is_valid_proto :: "u8 list \<Rightarrow> string \<Rightarrow> http_req \<Rightarrow> (bool \<times> http_req) outcome" where
  "is_valid_proto m proto req =
     obind (trim m (req_sec_ws_proto req)) (\<lambda>c.
     obind (chunk_strncmp m c proto (unat (chunk_len c))) (\<lambda>b.
     Ret (b, req\<lparr>req_sec_ws_proto := c\<rparr>)))"

subsection \<open>The answer to a valid request\<close>

text \<open>\<open>strcpy(&b->data[b->wrpos], lit); b->wrpos += strlen(lit);\<close> the NUL is written too.\<close>

definition skb_strcpy :: "skb \<Rightarrow> u8 list \<Rightarrow> skb outcome" where
  "skb_strcpy b lit =
     obind (mem_write (skb_data b) (unat (wrpos b)) (lit @ [NUL]))
       (\<lambda>d. Ret (b\<lparr>skb_data := d, wrpos := wrpos b + of_nat (length lit)\<rparr>))"

text \<open>\<open>strncpy(dst, chk.p, chk.len)\<close>: the bytes written.\<close>

definition chunk_strncpy :: "u8 list \<Rightarrow> chunk \<Rightarrow> u8 list outcome" where
  "chunk_strncpy m c =
     (if chunk_len c = 0 then Ret []
      else case chunk_p c of
        None \<Rightarrow> Fault Null_deref
      | Some p \<Rightarrow> strncpy_bytes m p (unat (chunk_len c)))"

definition generate_accept_val ::
  "(u8 list \<Rightarrow> u8 list) \<Rightarrow> u8 list \<Rightarrow> skb \<Rightarrow> http_req \<Rightarrow> (int \<times> skb \<times> http_req) outcome" where
  "generate_accept_val digest m b req =
     obind (trim m (req_sec_ws_key req)) (\<lambda>key.
     let req = req\<lparr>req_sec_ws_key := key\<rparr>; scratch = replicate SCRATCH_SIZE NUL in
     obind (chunk_strncpy m key) (\<lambda>bs.
     obind (mem_write scratch 0 bs) (\<lambda>scratch.
     obind (mem_write scratch (unat (chunk_len key)) (WS_GUID @ [NUL])) (\<lambda>scratch.
     obind (skb_put_mem b (digest (takeWhile (\<lambda>c. c \<noteq> NUL) scratch))) (\<lambda>b.
     obind (skb_put8 b CR) (\<lambda>b.
     obind (skb_put8 b LF) (\<lambda>b.
     Ret (1, b, req))))))))"

definition prepare_handshake ::
  "(u8 list \<Rightarrow> u8 list) \<Rightarrow> u8 list \<Rightarrow> skb \<Rightarrow> http_req \<Rightarrow> (int \<times> skb \<times> http_req) outcome" where
  "prepare_handshake digest m b req =
     (if skb_wrsz b < of_nat (length HTTP_101) then Ret (-1, b, req)
      else
        let old_wrpos = wrpos b in
        obind (skb_strcpy b HTTP_101) (\<lambda>b.
        if skb_wrsz b < of_nat (WS_ACCEPT_KEY_LEN + 2) then Ret (-1, b\<lparr>wrpos := old_wrpos\<rparr>, req)
        else
        obind (generate_accept_val digest m b req) (\<lambda>(rv, b, req).
        if 0 > rv then Ret (-1, b\<lparr>wrpos := old_wrpos\<rparr>, req)
        else if skb_wrsz b < of_nat (length WS_VER + length FLD_SEC_WS_VER_VAL + 2)
        then Ret (-1, b\<lparr>wrpos := old_wrpos\<rparr>, req)
        else
        obind (skb_strcpy b WS_VER) (\<lambda>b.
        obind (skb_strcpy b FLD_SEC_WS_VER_VAL) (\<lambda>b.
        obind (skb_put8 b CR) (\<lambda>b.
        obind (skb_put8 b LF) (\<lambda>b.
        obind (trim m (req_sec_ws_proto req)) (\<lambda>c.
        let req = req\<lparr>req_sec_ws_proto := c\<rparr> in
        if skb_wrsz b < of_nat (length WS_PROTO) + chunk_len c + 2
        then Ret (-1, b\<lparr>wrpos := old_wrpos\<rparr>, req)
        else
        obind (skb_strcpy b WS_PROTO) (\<lambda>b.
        obind (chunk_strncpy m c) (\<lambda>bs.
        obind (skb_put_mem b bs) (\<lambda>b.
        obind (skb_put8 b CR) (\<lambda>b.
        obind (skb_put8 b LF) (\<lambda>b.
        if skb_wrsz b < 2 then Ret (-1, b\<lparr>wrpos := old_wrpos\<rparr>, req)
        else
        obind (skb_put8 b CR) (\<lambda>b.
        obind (skb_put8 b LF) (\<lambda>b.
        Ret (0, b, req))))))))))))))))"

text \<open>The tables of a client in websocket mode.\<close>

definition ws_mode :: "sk \<Rightarrow> sk" where
  "ws_mode k = k
     \<lparr>sk_proto := (sk_proto k)\<lparr>decode_frame := Some Ws_decode_frame, encode_frame := Some Ws_encode_frame,
        ping := Some Ws_ping, pong := Some Ws_pong,
        start_closing_handshake := Some Ws_start_closing_handshake\<rparr>,
      sk_ops := (sk_ops k)\<lparr>ops_recv := Some Ws_recv\<rparr>\<rparr>"

definition ws_decode_handshake ::
  "(u8 list \<Rightarrow> u8 list) \<Rightarrow> world \<Rightarrow> ptr \<Rightarrow> http_req \<Rightarrow> (int \<times> world) outcome" where
  "ws_decode_handshake digest w s req =
     obind (deref w s) (\<lambda>k.
     let m = skb_data (sk_recvbuf k) in
     obind (is_valid_ver m req) (\<lambda>(ok, req).
     if \<not> ok then obind (answer w s WS_HTTP_400) (\<lambda>w. reject w s)
     else
     obind (case cfg_sec_ws_proto (wsd_cfg w) of
              None \<Rightarrow> Ret (True, req)
            | Some proto \<Rightarrow> is_valid_proto m proto req) (\<lambda>(ok, req).
     if \<not> ok then obind (answer w s WS_HTTP_400) (\<lambda>w. reject w s)
     else
     obind (guard (skb_wrsz (sk_sendbuf k) \<noteq> 0)) (\<lambda>_.
     obind (prepare_handshake digest m (sk_sendbuf k) req) (\<lambda>(rv, b, req).
     let w = put_sk w s (k\<lparr>sk_sendbuf := b\<rparr>) in
     if 0 > rv then obind (answer w s HTTP_500) (\<lambda>w. reject w s)
     else
     obind (upd_sk w s ws_mode) (\<lambda>w.
     obind (guard (skb_rdsz (sk_recvbuf k) = 0)) (\<lambda>_.
     obind (guard (skb_wrsz b \<noteq> 0)) (\<lambda>_.
     obind (compact_recvbuf w s) (\<lambda>w.
     obind (ensure_events w s EPOLLOUT) (\<lambda>w.
     Ret (0, w)))))))))))"

text \<open>\<open>sk->proto->decode_handshake(sk, req)\<close>\<close>

definition call_decode_handshake ::
  "(u8 list \<Rightarrow> u8 list) \<Rightarrow> decode_handshake_fn option \<Rightarrow> world \<Rightarrow> ptr \<Rightarrow> http_req \<Rightarrow> (int \<times> world) outcome" where
  "call_decode_handshake digest f w s req =
     (case f of
        None \<Rightarrow> Fault Null_call
      | Some Ws_decode_handshake \<Rightarrow> ws_decode_handshake digest w s req)"

subsection \<open>Texts in a request\<close>

text \<open>The chunk shows the text \<open>t\<close>, which is followed by \<open>rest\<close> in memory.\<close>

definition chunk_at :: "u8 list \<Rightarrow> chunk \<Rightarrow> u8 list \<Rightarrow> u8 list \<Rightarrow> bool" where
  "chunk_at m c t rest \<longleftrightarrow> (\<exists>q. chunk_p c = Some q \<and> q \<le> length m \<and> drop q m = t @ rest)
     \<and> chunk_len c = of_nat (length t) \<and> length t < 2 ^ 31"

text \<open>A field value with the text \<open>t\<close>, as \<open>trim\<close> handles it.\<close>

definition tidy :: "u8 list \<Rightarrow> u8 list \<Rightarrow> bool" where
  "tidy v t \<longleftrightarrow> (\<exists>lead trail. v = lead @ t @ trail \<and> t \<noteq> [] \<and> \<not> is_blank (hd t) \<and> \<not> is_blank (last t)
     \<and> (\<forall>c \<in> set trail. is_blank c)
     \<and> (lead = [] \<or> (\<exists>b. lead = [b] \<and> is_blank b \<and> \<not> is_blank ((t @ trail @ [CR]) ! 1))))"

lemma tidy_plain: "t \<noteq> [] \<Longrightarrow> \<not> is_blank (hd t) \<Longrightarrow> \<not> is_blank (last t) \<Longrightarrow> tidy t t"
  unfolding tidy_def by (intro exI [of _ "[]"]) simp

lemma CR_not_blank [simp]: "\<not> is_blank CR"
  by (simp add: is_blank_def)

lemma tidy_blank:
  assumes "t \<noteq> []" "\<forall>c \<in> set t. \<not> is_blank c"
  shows "tidy (SP # t) t"
proof -
  have "\<not> is_blank ((t @ [CR]) ! 1)"
    using assms by (cases t; cases "tl t") auto
  then show ?thesis
    unfolding tidy_def using assms
    by (intro exI [of _ "[SP]"] exI [of _ "[]"]) (auto simp: is_blank_def)
qed

lemma chunk_at_len: "chunk_at m c t rest \<Longrightarrow> unat (chunk_len c) = length t"
  by (simp add: chunk_at_def unat_of_nat_u32)

lemma trim_tidy:
  assumes at: "chunk_at m c v (x # rest)" and t: "tidy v t" and x: "\<not> is_blank x"
  shows "\<exists>c' trail. trim m c = Ret c' \<and> chunk_at m c' t (trail @ x # rest) \<and> (\<forall>x \<in> set trail. is_blank x)"
proof -
  obtain q where q: "chunk_p c = Some q" "q \<le> length m" "drop q m = v @ x # rest" and v: "length v < 2 ^ 31"
    using at by (auto simp: chunk_at_def)
  obtain lead trail where sp: "v = lead @ t @ trail" "t \<noteq> []" "\<not> is_blank (hd t)" "\<not> is_blank (last t)"
    "\<forall>c \<in> set trail. is_blank c"
    and ld: "lead = [] \<or> (\<exists>b. lead = [b] \<and> is_blank b \<and> \<not> is_blank ((t @ trail @ [CR]) ! 1))"
    using t by (auto simp: tidy_def)
  have len: "length m = q + length v + 1 + length rest"
    using drop_len [OF q(3,2)] by simp
  have n: "unat (chunk_len c) = length v"
    using chunk_at_len [OF at] .
  have ct: "chunk_text m c = lead @ t @ trail"
    using q n sp(1) by (simp add: chunk_text_def)
  have "lead = [] \<or> (\<exists>b. lead = [b] \<and> is_blank b \<and> q + 2 < length m \<and> \<not> is_blank (m ! (q + 2)))"
    using ld
  proof
    assume "\<exists>b. lead = [b] \<and> is_blank b \<and> \<not> is_blank ((t @ trail @ [CR]) ! 1)"
    then obtain b where b: "lead = [b]" "is_blank b" "\<not> is_blank ((t @ trail @ [CR]) ! 1)"
      by blast
    have l: "1 < length (t @ trail @ [x])"
      using sp(2) by (cases t) simp_all
    have x1: "\<not> is_blank ((t @ trail @ [x]) ! 1)"
    proof (cases "1 < length (t @ trail)")
      case True
      then have "(t @ trail @ [x]) ! 1 = (t @ trail @ [CR]) ! 1"
        by (metis append.assoc nth_append)
      then show ?thesis using b(3) by simp
    next
      case False
      then have "(t @ trail @ [x]) ! 1 = x"
        using l by (metis One_nat_def Suc_lessI append.assoc length_append_singleton less_Suc_eq nth_append_length)
      then show ?thesis using x by simp
    qed
    have "m ! (q + 2) = (b # (t @ trail @ [x])) ! 2"
      using q b(1) sp(1) l by (intro nth_drop_eq [of _ _ _ rest]) simp_all
    then show ?thesis
      using b x1 len sp(1,2) l by (auto simp: numeral_2_eq_2)
  qed simp
  from trim_core [OF q(1) _ ct sp(2-5) this] n len
  have tr: "trim m c = Ret \<lparr>chunk_p = Some (q + length lead), chunk_len = of_nat (length t)\<rparr>"
    "q + length lead + length t \<le> length m"
    by simp_all
  have "drop (q + length lead) m = t @ trail @ x # rest"
    using arg_cong [OF q(3), of "drop (length lead)"] sp(1) by (simp add: add.commute)
  then have "chunk_at m \<lparr>chunk_p = Some (q + length lead), chunk_len = of_nat (length t)\<rparr> t (trail @ x # rest)"
    using tr(2) v sp(1) by (simp add: chunk_at_def)
  then show ?thesis
    using tr(1) sp(5) by blast
qed

lemma trim_null [simp]: "chunk_len c = 0 \<Longrightarrow> trim m c = Ret c"
  by (simp add: trim_def)

text \<open>Copying a text.\<close>

lemma chunk_strncpy_at:
  assumes "chunk_at m c t rest" "NUL \<notin> set t"
  shows "chunk_strncpy m c = Ret t"
proof -
  obtain q where q: "chunk_p c = Some q" "q \<le> length m" "drop q m = t @ rest"
    using assms(1) by (auto simp: chunk_at_def)
  have tw: "takeWhile (\<lambda>c. c \<noteq> 0) t = t"
    using assms(2) by (auto simp: takeWhile_eq_all_conv)
  have s: "take (length t) (drop q m) = t"
    by (simp add: q(3))
  have "strncpy_bytes m q (length t) = Ret t"
    unfolding strncpy_bytes_def s Let_def tw by simp
  then show ?thesis
    using q chunk_at_len [OF assms(1)] by (cases "chunk_len c = 0") (auto simp: chunk_strncpy_def)
qed

text \<open>Comparing a text with a literal.\<close>

lemma strn_eq_prefix:
  "drop p m = t @ rest \<Longrightarrow> p \<le> length m \<Longrightarrow> map f t = map f lit \<Longrightarrow> strn_eq f m p lit (length lit) = Ret True"
proof (induction lit arbitrary: p t)
  case Nil
  then show ?case by simp
next
  case (Cons l ls)
  then obtain c cs where t: "t = c # cs" "f c = f l" "map f cs = map f ls"
    by (cases t) auto
  have p: "p < length m"
    using Cons.prems(1,2) t(1) by (cases "p = length m") auto
  then have "m ! p = c" and "drop (Suc p) m = cs @ rest"
    using Cons.prems(1) t(1) by (auto simp: Cons_nth_drop_Suc [symmetric])
  then show ?case
    using Cons.IH [of "Suc p" cs] p t by simp
qed

lemma chunk_eq_prefix:
  assumes "chunk_at m c (t @ u) rest" "map f t = map f (bytes lit)"
  shows "chunk_eq f m c lit (length lit) = Ret True"
  using assms strn_eq_prefix [of _ m t "u @ rest" f "bytes lit"]
  by (auto simp: chunk_at_def chunk_eq_def)

lemma strncmp_same: "chunk_at m c (bytes lit) rest \<Longrightarrow> chunk_strncmp m c lit (unat (chunk_len c)) = Ret True"
  using chunk_eq_prefix [of m c "bytes lit" "[]" rest "\<lambda>c. c" lit] chunk_at_len [of m c "bytes lit" rest]
  by (simp add: chunk_strncmp_def)

subsection \<open>Appending to a buffer\<close>

definition grew :: "skb \<Rightarrow> skb \<Rightarrow> u8 list \<Rightarrow> bool" where
  "grew b b' bs \<longleftrightarrow> skb_wf b' \<and> rdpos b' = rdpos b \<and> wrpos b \<le> wrpos b' \<and> pending b' = pending b @ bs
     \<and> length bs \<le> room b \<and> room b' = room b - length bs"

lemma grew_refl: "skb_wf b \<Longrightarrow> grew b b []"
  by (simp add: grew_def)

lemma grew_trans: "grew b b1 xs \<Longrightarrow> grew b1 b2 ys \<Longrightarrow> grew b b2 (xs @ ys)"
  by (auto simp: grew_def)

lemma grew_wf: "grew b b' bs \<Longrightarrow> skb_wf b'"
  by (simp add: grew_def)

lemma grew_room: "grew b b' bs \<Longrightarrow> room b = room b' + length bs"
  by (simp add: grew_def)

lemma skb_put_mem_grew:
  assumes "skb_wf b" "length bs \<le> room b"
  shows "\<exists>b'. skb_put_mem b bs = Ret b' \<and> grew b b' bs"
proof -
  obtain b' where b': "skb_put_mem b bs = Ret b'" "skb_wf b'" "pending b' = pending b @ bs"
    "room b' = room b - length bs" "rdpos b' = rdpos b"
    using skb_put_mem_ok [OF assms] by blast
  have "unat (wrpos b) \<le> unat (wrpos b')"
    using skb_wfD [OF assms(1)] skb_wfD [OF b'(2)] b'(4) assms(2) by simp
  then show ?thesis
    using b' assms(2) by (auto simp: grew_def word_le_nat_alt)
qed

lemma skb_strcpy_grew:
  assumes "skb_wf b" "length lit < room b"
  shows "\<exists>b'. skb_strcpy b lit = Ret b' \<and> grew b b' lit"
proof -
  note D = skb_wfD [OF assms(1)]
  obtain b1 where b1: "skb_put_mem b lit = Ret b1" "grew b b1 lit"
    using skb_put_mem_grew [OF assms(1), of lit] assms(2) by fastforce
  obtain b2 where b2: "skb_put_mem b1 [NUL] = Ret b2" "grew b1 b2 [NUL]"
    using skb_put_mem_grew [OF grew_wf [OF b1(2)], of "[NUL]"] grew_room [OF b1(2)] assms(2) by auto
  have "skb_put_mem b (lit @ [NUL]) = Ret b2"
    using skb_put_mem_append [OF assms(1), of lit "[NUL]"] b1 b2 by simp
  then have d: "mem_write (skb_data b) (unat (wrpos b)) (lit @ [NUL]) = Ret (skb_data b2)"
    by (auto simp: skb_put_mem_def outcome_simps)
  have e: "b1 = b\<lparr>skb_data := skb_data b1, wrpos := wrpos b + of_nat (length lit)\<rparr>"
    and e2: "b2 = b1\<lparr>skb_data := skb_data b2, wrpos := wrpos b1 + 1\<rparr>"
    using b1(1) b2(1) by (auto simp: skb_put_mem_def outcome_simps)
  have w1: "wrpos b1 = wrpos b + of_nat (length lit)"
    by (subst e) simp
  let ?b = "b\<lparr>skb_data := skb_data b2, wrpos := wrpos b + of_nat (length lit)\<rparr>"
  have "skb_strcpy b lit = Ret ?b"
    using d by (simp add: skb_strcpy_def)
  moreover have "grew b ?b lit"
  proof -
    note D1 = skb_wfD [OF grew_wf [OF b1(2)]] and D2 = skb_wfD [OF grew_wf [OF b2(2)]]
    have w: "unat (wrpos ?b) = unat (wrpos b1)"
      by (simp add: w1)
    have wf: "skb_wf ?b"
      using D1 D2 b1(2) by (intro skb_wfI) (simp_all add: w1 [symmetric] grew_def)
    have "unat (wrpos b1) \<le> unat (wrpos b2)"
      using b2(2) by (simp add: grew_def word_le_nat_alt)
    then have "pending ?b = take (length (pending b1)) (pending b2)"
      using D1 D2 b1(2) b2(2) grew_wf [OF b1(2)] grew_wf [OF b2(2)] wf
      by (simp add: pending_alt grew_def take_drop w1 [symmetric] min_def)
    then have "pending ?b = pending b @ lit"
      using b1(2) b2(2) by (simp add: grew_def)
    then show ?thesis
      using b1(2) wf w1 by (simp add: grew_def room_def skb_wrsz_def)
  qed
  ultimately show ?thesis by blast
qed

lemma grew_undo:
  assumes "skb_wf b" "grew b b' bs"
  shows "skb_wf (b'\<lparr>wrpos := wrpos b\<rparr>)" "pending (b'\<lparr>wrpos := wrpos b\<rparr>) = pending b"
    "room (b'\<lparr>wrpos := wrpos b\<rparr>) = room b"
proof -
  note D = skb_wfD [OF assms(1)] and D' = skb_wfD [OF grew_wf [OF assms(2)]]
  show wf: "skb_wf (b'\<lparr>wrpos := wrpos b\<rparr>)"
    using D D' assms(2) by (intro skb_wfI) (simp_all add: grew_def)
  have le: "unat (wrpos b) \<le> unat (wrpos b')"
    using assms(2) by (simp add: grew_def word_le_nat_alt)
  have "pending (b'\<lparr>wrpos := wrpos b\<rparr>) = take (length (pending b)) (pending b')"
    using D D' le assms wf grew_wf [OF assms(2)]
    by (simp add: pending_alt grew_def take_drop min_absorb1 length_pending)
  then show "pending (b'\<lparr>wrpos := wrpos b\<rparr>) = pending b"
    using assms(2) by (simp add: grew_def)
  show "room (b'\<lparr>wrpos := wrpos b\<rparr>) = room b"
    by (simp add: room_def skb_wrsz_def)
qed

subsection \<open>The answer to a valid request\<close>

text \<open>
  A field is absent, or its value is a text with blanks around it as \<open>trim\<close> handles them, or
  it has been trimmed already.
\<close>

definition field_text :: "u8 list \<Rightarrow> chunk \<Rightarrow> u8 list \<Rightarrow> bool" where
  "field_text m c t \<longleftrightarrow> (t = [] \<and> chunk_len c = 0) \<or> (\<exists>v rest. chunk_at m c v (CR # rest) \<and> tidy v t)
     \<or> (\<exists>rest. chunk_at m c t rest \<and> t \<noteq> [] \<and> \<not> is_blank (hd t) \<and> \<not> is_blank (last t))"

lemma tidyD: "tidy v t \<Longrightarrow> t \<noteq> [] \<and> \<not> is_blank (hd t) \<and> \<not> is_blank (last t)"
  by (auto simp: tidy_def)

lemma chunk_at_null: "chunk_len c = 0 \<Longrightarrow> chunk_strncpy m c = Ret []"
  by (simp add: chunk_strncpy_def)

lemma trim_trimmed:
  assumes "chunk_at m c t rest" "t \<noteq> []" "\<not> is_blank (hd t)" "\<not> is_blank (last t)"
  shows "\<exists>c'. trim m c = Ret c' \<and> chunk_at m c' t rest"
proof -
  obtain q where q: "chunk_p c = Some q" "q \<le> length m" "drop q m = t @ rest" "length t < 2 ^ 31"
    using assms(1) by (auto simp: chunk_at_def)
  have "length m = q + length t + length rest"
    using drop_len [OF q(3,2)] by simp
  moreover have "chunk_text m c = [] @ t @ []"
    using q chunk_at_len [OF assms(1)] by (simp add: chunk_text_def)
  ultimately have "trim m c = Ret \<lparr>chunk_p = Some q, chunk_len = of_nat (length t)\<rparr>"
    using trim_core [OF q(1), of m "[]" t "[]"] chunk_at_len [OF assms(1)] assms(2-4) by simp
  then show ?thesis
    using q by (auto simp: chunk_at_def)
qed

lemma trim_field:
  assumes "field_text m c t" "NUL \<notin> set t"
  shows "\<exists>c'. trim m c = Ret c' \<and> field_text m c' t \<and> chunk_len c' = of_nat (length t)
    \<and> length t < 2 ^ 31 \<and> chunk_strncpy m c' = Ret t
    \<and> (\<forall>lit. t = bytes lit \<longrightarrow> chunk_strncmp m c' lit (unat (chunk_len c')) = Ret True)"
proof -
  have at: "field_text m c' t \<and> chunk_len c' = of_nat (length t) \<and> length t < 2 ^ 31 \<and> chunk_strncpy m c' = Ret t
      \<and> (\<forall>lit. t = bytes lit \<longrightarrow> chunk_strncmp m c' lit (unat (chunk_len c')) = Ret True)"
    if "chunk_at m c' t rest" "t \<noteq> []" "\<not> is_blank (hd t)" "\<not> is_blank (last t)" for c' rest
    using that chunk_strncpy_at [OF that(1) assms(2)] strncmp_same [of m c' _ rest]
    by (auto simp: field_text_def chunk_at_def)
  consider "t = []" "chunk_len c = 0"
    | (v) v rest where "chunk_at m c v (CR # rest)" "tidy v t"
    | (t) rest where "chunk_at m c t rest" "t \<noteq> []" "\<not> is_blank (hd t)" "\<not> is_blank (last t)"
    using assms(1) unfolding field_text_def by blast
  then show ?thesis
  proof cases
    case 1
    then show ?thesis
      by (intro exI [of _ c]) (simp add: chunk_at_null field_text_def chunk_strncmp_def chunk_eq_def)
  next
    case v
    then obtain c' trail where "trim m c = Ret c'" "chunk_at m c' t (trail @ CR # rest)"
      using trim_tidy CR_not_blank by blast
    then show ?thesis
      using at tidyD [OF v(2)] by blast
  next
    case t
    then obtain c' where "trim m c = Ret c'" "chunk_at m c' t rest"
      using trim_trimmed by blast
    then show ?thesis
      using at t by blast
  qed
qed

text \<open>The whole answer.\<close>

definition handshake_answer :: "(u8 list \<Rightarrow> u8 list) \<Rightarrow> u8 list \<Rightarrow> u8 list \<Rightarrow> u8 list" where
  "handshake_answer digest k proto = HTTP_101 @ (digest (k @ WS_GUID) @ [CR, LF])
     @ WS_VER @ FLD_SEC_WS_VER_VAL @ [CR] @ [LF] @ WS_PROTO @ proto @ [CR] @ [LF] @ [CR] @ [LF]"

lemma wrsz_less_iff: "n < 2 ^ 32 \<Longrightarrow> skb_wrsz b < of_nat n \<longleftrightarrow> room b < n"
  by (simp add: word_less_nat_alt unat_of_nat_u32 room_def)

lemma length_literals [simp]:
  "length HTTP_101 = 97" "length WS_GUID = 36" "length WS_VER = 23" "length WS_PROTO = 24"
  "length FLD_SEC_WS_VER_VAL = 2" "WS_ACCEPT_KEY_LEN = 28" "SCRATCH_SIZE = 64"
  by (simp_all add: HTTP_101_def WS_GUID_def WS_VER_def WS_PROTO_def FLD_SEC_WS_VER_VAL_def
      WS_ACCEPT_KEY_LEN_def SCRATCH_SIZE_def)

lemma WS_GUID_no_NUL: "NUL \<notin> set WS_GUID"
  by code_simp

lemma skb_put8_grew: "skb_wf b \<Longrightarrow> 1 \<le> room b \<Longrightarrow> \<exists>b'. skb_put8 b c = Ret b' \<and> grew b b' [c]"
  using skb_put_mem_grew [of b "[c]"] by (simp add: skb_put8_def)

lemma generate_accept_val_ok:
  assumes b: "skb_wf b" and key: "field_text m (req_sec_ws_key req) k" "NUL \<notin> set k" "length k \<le> 27"
    and room: "length (digest (k @ WS_GUID)) + 2 \<le> room b"
  shows "\<exists>b' c. generate_accept_val digest m b req = Ret (1, b', req\<lparr>req_sec_ws_key := c\<rparr>)
    \<and> grew b b' (digest (k @ WS_GUID) @ [CR, LF])"
proof -
  obtain c where c: "trim m (req_sec_ws_key req) = Ret c" "chunk_len c = of_nat (length k)" "chunk_strncpy m c = Ret k"
    using trim_field [OF key(1,2)] by blast
  have n: "unat (chunk_len c) = length k"
    using c(2) key(3) by (simp add: unat_of_nat_u32)
  let ?s1 = "k @ replicate (64 - length k) NUL"
  have w1: "mem_write (replicate 64 NUL) 0 k = Ret ?s1"
    using key(3) by (simp add: mem_write_def)
  let ?s2 = "k @ WS_GUID @ [NUL] @ replicate (64 - length k - 37) NUL"
  have w2: "mem_write ?s1 (length k) (WS_GUID @ [NUL]) = Ret ?s2"
    using key(3) by (simp add: mem_write_def drop_append)
  have tw: "takeWhile (\<lambda>c. c \<noteq> NUL) ?s2 = k @ WS_GUID"
    using key(2) WS_GUID_no_NUL by (simp add: takeWhile_append takeWhile_eq_all_conv)
  let ?d = "digest (k @ WS_GUID)"
  obtain b1 where b1: "skb_put_mem b ?d = Ret b1" "grew b b1 ?d"
    using skb_put_mem_grew [OF b, of ?d] room by auto
  obtain b2 where b2: "skb_put8 b1 CR = Ret b2" "grew b1 b2 [CR]"
    using skb_put8_grew [OF grew_wf [OF b1(2)], of CR] grew_room [OF b1(2)] room by auto
  obtain b3 where b3: "skb_put8 b2 LF = Ret b3" "grew b2 b3 [LF]"
    using skb_put8_grew [OF grew_wf [OF b2(2)], of LF] grew_room [OF b1(2)] grew_room [OF b2(2)] room by auto
  have "grew b b3 (?d @ [CR, LF])"
    using grew_trans [OF b1(2) grew_trans [OF b2(2) b3(2)]] by simp
  then show ?thesis
    using c(1,3) n w1 w2 tw b1(1) b2(1) b3(1)
    by (intro exI [of _ b3] exI [of _ c]) (simp add: generate_accept_val_def Let_def)
qed

lemma length_answer:
  "length (handshake_answer digest k proto) = 154 + length (digest (k @ WS_GUID)) + length proto"
  by (simp add: handshake_answer_def)

lemma prepare_handshake_ok:
  assumes b: "skb_wf b" and key: "field_text m (req_sec_ws_key req) k" "NUL \<notin> set k" "length k \<le> 27"
    and proto: "field_text m (req_sec_ws_proto req) pr" "NUL \<notin> set pr"
    and digest: "length (digest (k @ WS_GUID)) = 28"
    and room: "length (handshake_answer digest k pr) \<le> room b"
  shows "\<exists>b' req'. prepare_handshake digest m b req = Ret (0, b', req')
    \<and> grew b b' (handshake_answer digest k pr)"
proof -
  let ?d = "digest (k @ WS_GUID)"
  have r: "182 + length pr \<le> room b"
    using room digest by (simp add: length_answer)
  obtain b1 where b1: "skb_strcpy b HTTP_101 = Ret b1" "grew b b1 HTTP_101"
    using skb_strcpy_grew [OF b, of HTTP_101] r by auto
  note r1 = grew_room [OF b1(2)]
  obtain b2 c where b2: "generate_accept_val digest m b1 req = Ret (1, b2, req\<lparr>req_sec_ws_key := c\<rparr>)"
    "grew b1 b2 (?d @ [CR, LF])"
    using generate_accept_val_ok [OF grew_wf [OF b1(2)] key, of digest] r digest r1 by auto
  note r2 = grew_room [OF b2(2)]
  obtain b3 where b3: "skb_strcpy b2 WS_VER = Ret b3" "grew b2 b3 WS_VER"
    using skb_strcpy_grew [OF grew_wf [OF b2(2)], of WS_VER] r digest r1 r2 by auto
  note r3 = grew_room [OF b3(2)]
  obtain b4 where b4: "skb_strcpy b3 FLD_SEC_WS_VER_VAL = Ret b4" "grew b3 b4 FLD_SEC_WS_VER_VAL"
    using skb_strcpy_grew [OF grew_wf [OF b3(2)], of FLD_SEC_WS_VER_VAL] r digest r1 r2 r3 by auto
  note r4 = grew_room [OF b4(2)]
  obtain b5 where b5: "skb_put8 b4 CR = Ret b5" "grew b4 b5 [CR]"
    using skb_put8_grew [OF grew_wf [OF b4(2)], of CR] r digest r1 r2 r3 r4 by auto
  note r5 = grew_room [OF b5(2)]
  obtain b6 where b6: "skb_put8 b5 LF = Ret b6" "grew b5 b6 [LF]"
    using skb_put8_grew [OF grew_wf [OF b5(2)], of LF] r digest r1 r2 r3 r4 r5 by auto
  note r6 = grew_room [OF b6(2)]
  obtain cp where cp: "trim m (req_sec_ws_proto req) = Ret cp" "chunk_len cp = of_nat (length pr)"
    "length pr < 2 ^ 31" "chunk_strncpy m cp = Ret pr"
    using trim_field [OF proto] by blast
  obtain b7 where b7: "skb_strcpy b6 WS_PROTO = Ret b7" "grew b6 b7 WS_PROTO"
    using skb_strcpy_grew [OF grew_wf [OF b6(2)], of WS_PROTO] r digest r1 r2 r3 r4 r5 r6 by auto
  note r7 = grew_room [OF b7(2)]
  obtain b8 where b8: "skb_put_mem b7 pr = Ret b8" "grew b7 b8 pr"
    using skb_put_mem_grew [OF grew_wf [OF b7(2)], of pr] r digest r1 r2 r3 r4 r5 r6 r7 by auto
  note r8 = grew_room [OF b8(2)]
  obtain b9 where b9: "skb_put8 b8 CR = Ret b9" "grew b8 b9 [CR]"
    using skb_put8_grew [OF grew_wf [OF b8(2)], of CR] r digest r1 r2 r3 r4 r5 r6 r7 r8 by auto
  note r9 = grew_room [OF b9(2)]
  obtain b10 where b10: "skb_put8 b9 LF = Ret b10" "grew b9 b10 [LF]"
    using skb_put8_grew [OF grew_wf [OF b9(2)], of LF] r digest r1 r2 r3 r4 r5 r6 r7 r8 r9 by auto
  note r10 = grew_room [OF b10(2)]
  obtain b11 where b11: "skb_put8 b10 CR = Ret b11" "grew b10 b11 [CR]"
    using skb_put8_grew [OF grew_wf [OF b10(2)], of CR] r digest r1 r2 r3 r4 r5 r6 r7 r8 r9 r10 by auto
  note r11 = grew_room [OF b11(2)]
  obtain b12 where b12: "skb_put8 b11 LF = Ret b12" "grew b11 b12 [LF]"
    using skb_put8_grew [OF grew_wf [OF b11(2)], of LF] r digest r1 r2 r3 r4 r5 r6 r7 r8 r9 r10 r11 by auto
  have g: "grew b b12 (handshake_answer digest k pr)"
    unfolding handshake_answer_def
    by (rule grew_trans [OF b1(2)] grew_trans [OF b2(2)] grew_trans [OF b3(2)] grew_trans [OF b4(2)]
        grew_trans [OF b5(2)] grew_trans [OF b6(2)] grew_trans [OF b7(2)] grew_trans [OF b8(2)]
        grew_trans [OF b9(2)] grew_trans [OF b10(2)] grew_trans [OF b11(2)] b12(2))+
  have "(24 + chunk_len cp + 2 :: u32) = of_nat (26 + length pr)"
    by (simp add: cp(2))
  then have c: "\<not> skb_wrsz b < of_nat 97" "\<not> skb_wrsz b1 < of_nat 30" "\<not> skb_wrsz b2 < of_nat 27"
    "\<not> skb_wrsz b6 < 24 + chunk_len cp + 2" "\<not> skb_wrsz b10 < of_nat 2"
    using r digest r1 r2 r3 r4 r5 r6 r7 r8 r9 r10 cp(3)
    by (simp_all add: wrsz_less_iff del: of_nat_numeral of_nat_add)
  have "prepare_handshake digest m b req = Ret (0, b12, req\<lparr>req_sec_ws_key := c, req_sec_ws_proto := cp\<rparr>)"
    using c b1(1) b2(1) b3(1) b4(1) b5(1) b6(1) cp b7(1) b8(1) b9(1) b10(1) b11(1) b12(1)
    by (simp add: prepare_handshake_def Let_def)
  then show ?thesis using g by blast
qed

lemma handshake_switches:
  assumes k: "heap w s = Some k" "registered w k" "skb_wf (sk_sendbuf k)" "skb_wf (sk_recvbuf k)"
      "pending (sk_recvbuf k) = []"
    and m: "m = skb_data (sk_recvbuf k)"
    and ver: "field_text m (req_sec_ws_ver req) (bytes ''13'')"
    and key: "field_text m (req_sec_ws_key req) key" "NUL \<notin> set key" "length key \<le> 27"
    and proto: "field_text m (req_sec_ws_proto req) proto" "NUL \<notin> set proto"
    and accepted: "\<forall>p. cfg_sec_ws_proto (wsd_cfg w) = Some p \<longrightarrow> proto = bytes p"
    and digest: "length (digest (key @ WS_GUID)) = 28"
    and room: "length (handshake_answer digest key proto) < room (sk_sendbuf k)"
  shows "\<exists>w' k' sb rb. ws_decode_handshake digest w s req = Ret (0, w') \<and> heap w' = (heap w)(s \<mapsto> k')
    \<and> k' = (ws_mode k)\<lparr>sk_sendbuf := sb, sk_recvbuf := rb, sk_events := sk_events k OR EPOLLOUT\<rparr>
    \<and> skb_wf sb \<and> pending sb = pending (sk_sendbuf k) @ handshake_answer digest key proto
    \<and> skb_wf rb \<and> pending rb = [] \<and> room rb = 1048576 \<and> registered w' k' \<and> same_globals w w'
    \<and> epoll w' = (epoll w)(sk_fd k \<mapsto> sk_events k')"
proof -
  have nn: "NUL \<notin> set (bytes ''13'')" by code_simp
  obtain cv where cv: "trim m (req_sec_ws_ver req) = Ret cv" "chunk_strncmp m cv ''13'' (unat (chunk_len cv)) = Ret True"
    using trim_field [OF ver nn] by blast
  let ?req = "req\<lparr>req_sec_ws_ver := cv\<rparr>"
  have v: "is_valid_ver m req = Ret (True, ?req)"
    using cv by (simp add: is_valid_ver_def)
  obtain cp where cp: "trim m (req_sec_ws_proto req) = Ret cp" "field_text m cp proto"
    "\<forall>lit. proto = bytes lit \<longrightarrow> chunk_strncmp m cp lit (unat (chunk_len cp)) = Ret True"
    using trim_field [OF proto] by blast
  define req2 where "req2 = (if cfg_sec_ws_proto (wsd_cfg w) = None then ?req else ?req\<lparr>req_sec_ws_proto := cp\<rparr>)"
  have p: "(case cfg_sec_ws_proto (wsd_cfg w) of None \<Rightarrow> Ret (True, ?req) | Some p \<Rightarrow> is_valid_proto m p ?req) = Ret (True, req2)"
    using cp accepted by (auto simp: is_valid_proto_def req2_def split: option.splits)
  have f: "field_text m (req_sec_ws_key req2) key" "field_text m (req_sec_ws_proto req2) proto"
    using key(1) proto(1) cp(2) by (simp_all add: req2_def)
  obtain b req3 where b: "prepare_handshake digest m (sk_sendbuf k) req2 = Ret (0, b, req3)"
    "grew (sk_sendbuf k) b (handshake_answer digest key proto)"
    using prepare_handshake_ok [OF k(3) f(1) key(2,3) f(2) proto(2), of digest] digest room by auto
  obtain rb where rb: "skb_compact (sk_recvbuf k) = Ret rb" "skb_wf rb" "pending rb = []" "room rb = 1048576"
    using skbq.compact_ok [OF k(4)] k(5) by auto
  have nz: "skb_wrsz (sk_sendbuf k) \<noteq> 0" "skb_wrsz b \<noteq> 0" "skb_rdsz (sk_recvbuf k) = 0"
    using room grew_room [OF b(2)] k(4,5) by (simp_all add: room_0_iff rdsz_0_iff)
  let ?k1 = "(ws_mode (k\<lparr>sk_sendbuf := b\<rparr>))\<lparr>sk_recvbuf := rb\<rparr>"
  have mode: "sk_recvbuf (ws_mode x) = sk_recvbuf x" "sk_fd (ws_mode x) = sk_fd x" "sk_events (ws_mode x) = sk_events x" for x
    by (simp_all add: ws_mode_def)
  have "registered (put_sk w s ?k1) ?k1"
    using k(2) by (simp add: registered_def mode)
  then have ev: "ensure_events (put_sk w s ?k1) s EPOLLOUT
      = Ret (set_events (put_sk w s ?k1) s ?k1 (sk_events k OR EPOLLOUT))"
    using ensure_events_ok [of "put_sk w s ?k1" s ?k1 EPOLLOUT] by (simp add: mode)
  have "ws_decode_handshake digest w s req = Ret (0, set_events (put_sk w s ?k1) s ?k1 (sk_events k OR EPOLLOUT))"
    unfolding ws_decode_handshake_def
    by (simp add: k(1) m [symmetric] v p [unfolded m] b(1) nz rb(1) ev Let_def compact_recvbuf_def mode)
  moreover have "pending b = pending (sk_sendbuf k) @ handshake_answer digest key proto" "skb_wf b"
    using b(2) by (simp_all add: grew_def)
  ultimately show ?thesis
    using rb(2-4)
    by (intro exI [of _ "set_events (put_sk w s ?k1) s ?k1 (sk_events k OR EPOLLOUT)"]
        exI [of _ "?k1\<lparr>sk_events := sk_events k OR EPOLLOUT\<rparr>"] exI [of _ b] exI [of _ rb])
      (simp add: registered_def mode same_globals_def, simp add: ws_mode_def)
qed

text \<open>
  A request with version 13, an acceptable subprotocol and a key of at most 27 bytes is
  answered with exactly the 101 response of RFC 6455 section 4.2.2, behind whatever the send
  buffer holds; the client's tables are switched to websocket mode and EPOLLOUT is asked for.
\<close>

theorem ws_decode_handshake_switches:
  assumes k: "heap w s = Some k" "registered w k" "skb_wf (sk_sendbuf k)" "skb_wf (sk_recvbuf k)"
      "pending (sk_recvbuf k) = []"
    and m: "m = skb_data (sk_recvbuf k)"
    and ver: "field_text m (req_sec_ws_ver req) (bytes ''13'')"
    and key: "field_text m (req_sec_ws_key req) key" "NUL \<notin> set key" "length key \<le> 27"
    and proto: "field_text m (req_sec_ws_proto req) proto" "NUL \<notin> set proto"
    and accepted: "\<forall>p. cfg_sec_ws_proto (wsd_cfg w) = Some p \<longrightarrow> proto = bytes p"
    and digest: "length (digest (key @ WS_GUID)) = 28"
    and room: "length (handshake_answer digest key proto) < room (sk_sendbuf k)"
  shows "\<exists>w' k' sb rb. ws_decode_handshake digest w s req = Ret (0, w') \<and> heap w' = (heap w)(s \<mapsto> k')
    \<and> k' = (ws_mode k)\<lparr>sk_sendbuf := sb, sk_recvbuf := rb, sk_events := sk_events k OR EPOLLOUT\<rparr>
    \<and> skb_wf sb \<and> pending sb = pending (sk_sendbuf k) @ handshake_answer digest key proto
    \<and> skb_wf rb \<and> pending rb = [] \<and> room rb = 1048576 \<and> registered w' k' \<and> same_globals w w'
    \<and> epoll w' = (epoll w)(sk_fd k \<mapsto> sk_events k')"
  by (rule handshake_switches [where proto = proto and key = key]; fact assms)

text \<open>A request in the receive buffer of a client, and the client.\<close>

definition demo_fields :: "u8 list" where
  "demo_fields = bytes '' 13'' @ [CR, LF] @ bytes '' dGhlIHNhbXBsZSBub25jZQ=='' @ [CR, LF]"

definition demo_handshake :: world where
  "demo_handshake = (init_world default_cfg)
     \<lparr>heap := [1 \<mapsto> zero_sk\<lparr>sk_fd := 7, sk_events := EPOLLIN,
         sk_recvbuf := skb_reset (skb_of demo_fields)\<rparr>], epoll := [7 \<mapsto> EPOLLIN]\<rparr>"

definition demo_req :: http_req where
  "demo_req = null_http_req
     \<lparr>req_sec_ws_ver := \<lparr>chunk_p = Some 0, chunk_len = 3\<rparr>, req_sec_ws_key := \<lparr>chunk_p = Some 5, chunk_len = 25\<rparr>\<rparr>"

theorem ws_decode_handshake_switches_witness:
  "\<exists>w' k'. ws_decode_handshake (\<lambda>_. replicate 28 0x41) demo_handshake 1 demo_req = Ret (0, w')
     \<and> heap w' 1 = Some k'
     \<and> pending (sk_sendbuf k') = handshake_answer (\<lambda>_. replicate 28 0x41) (bytes ''dGhlIHNhbXBsZSBub25jZQ=='') []"
proof -
  let ?k = "zero_sk\<lparr>sk_fd := 7, sk_events := EPOLLIN, sk_recvbuf := skb_reset (skb_of demo_fields)\<rparr>"
  let ?m = "skb_data (sk_recvbuf ?k)" and ?key = "bytes ''dGhlIHNhbXBsZSBub25jZQ==''"
  have len: "length demo_fields = 32"
    by (simp add: demo_fields_def)
  have m: "?m = demo_fields @ replicate 1048544 0"
    using len by (simp add: skb_reset_def skb_of_def)
  have rb: "skb_wf (sk_recvbuf ?k)" "pending (sk_recvbuf ?k) = []"
    using skb_reset_ok [of "skb_of demo_fields"] skb_of_wf [of demo_fields] len by (auto simp: skb_wfD)
  have sb: "skb_wf (sk_sendbuf ?k)" "pending (sk_sendbuf ?k) = []" "room (sk_sendbuf ?k) = 1048576"
    by (simp_all add: zero_sk_def)
  have t: "tidy (bytes '' 13'') (bytes ''13'')" "tidy (bytes '' dGhlIHNhbXBsZSBub25jZQ=='') ?key"
    using tidy_blank [of "bytes ''13''"] tidy_blank [of ?key] by (simp_all add: bytes_def is_blank_def)
  have "chunk_at ?m (req_sec_ws_ver demo_req) (bytes '' 13'')
      (CR # LF # bytes '' dGhlIHNhbXBsZSBub25jZQ=='' @ CR # LF # replicate 1048544 0)"
    unfolding m by (simp add: chunk_at_def demo_req_def demo_fields_def)
  then have ver: "field_text ?m (req_sec_ws_ver demo_req) (bytes ''13'')"
    using t(1) unfolding field_text_def by blast
  have "chunk_at ?m (req_sec_ws_key demo_req) (bytes '' dGhlIHNhbXBsZSBub25jZQ=='') (CR # LF # replicate 1048544 0)"
    unfolding m by (simp add: chunk_at_def demo_req_def demo_fields_def bytes_def)
  then have key: "field_text ?m (req_sec_ws_key demo_req) ?key"
    using t(2) unfolding field_text_def by blast
  have nul: "NUL \<notin> set ?key"
    by code_simp
  have "field_text ?m (req_sec_ws_proto demo_req) []"
    by (simp add: field_text_def demo_req_def null_http_req_def null_chunk_def)
  moreover have "heap demo_handshake 1 = Some ?k" "registered demo_handshake ?k" "cfg_sec_ws_proto (wsd_cfg demo_handshake) = None"
    by (simp_all add: demo_handshake_def registered_def init_world_def default_cfg_def)
  ultimately show ?thesis
    using ws_decode_handshake_switches [of demo_handshake 1 ?k ?m demo_req ?key "[]" "\<lambda>_. replicate 28 0x41"]
      sb rb ver key nul by (fastforce simp: length_answer)
qed

text \<open>
  A key of more than 27 bytes, which any client can send, runs past the end of the scratch
  array on the stack.
\<close>

lemma generate_accept_val_overrun:
  assumes "field_text m (req_sec_ws_key req) k" "NUL \<notin> set k" "27 < length k"
  shows "generate_accept_val digest m b req = Fault Out_of_bounds"
proof -
  obtain c where c: "trim m (req_sec_ws_key req) = Ret c" "chunk_len c = of_nat (length k)" "chunk_strncpy m c = Ret k"
    "length k < 2 ^ 31"
    using trim_field [OF assms(1,2)] by blast
  have n: "unat (chunk_len c) = length k"
    using c(2,4) by (simp add: unat_of_nat_u32)
  show ?thesis
  proof (cases "length k \<le> 64")
    case True
    then have "mem_write (replicate 64 NUL) 0 k = Ret (k @ replicate (64 - length k) NUL)"
      by (simp add: mem_write_def)
    moreover have "mem_write (k @ replicate (64 - length k) NUL) (length k) (WS_GUID @ [NUL]) = Fault Out_of_bounds"
      using assms(3) True by (simp add: mem_write_def)
    ultimately show ?thesis
      using c(1,3) n by (simp add: generate_accept_val_def)
  next
    case False
    then show ?thesis
      using c(1,3) by (simp add: generate_accept_val_def mem_write_def)
  qed
qed

end
