(* ===== verification/Http.thy ===== *)
theory Http
  imports Handshake
begin

text \<open>
  src/http.c: receiving the upgrade request of a client, and the checks on its request line
  and on the Host, Upgrade and Connection fields.

  A check that takes a field value apart with \<open>http_field_value_tok\<close> advances the chunk in the
  request; it returns the chunk as it is left, and the error code if one was set.
\<close>

definition HTTP_400 :: "u8 list" where
  "HTTP_400 = bytes ''HTTP/1.1 400 Bad Request'' @ [CR, LF] @ bytes ''Content-Length: 0'' @ [CR, LF, CR, LF]"

subsection \<open>Checks\<close>

definition is_valid_req_line :: "u8 list \<Rightarrow> http_req \<Rightarrow> (bool \<times> http_req) outcome" where
  "is_valid_req_line m req =
     obind (if chunk_len (req_method req) = 3
            then chunk_strncmp m (req_method req) ''GET'' 3 else Ret True) (\<lambda>get.
     if \<not> get then Ret (False, req)
     else
     obind (chunk_strncmp m (req_target req) ''*'' (unat (chunk_len (req_target req)))) (\<lambda>any.
     if any then Ret (False, req)
     else
     obind (chunk_strncasecmp m (req_target req) ''http://'' 7) (\<lambda>absolute.
     Ret (True, if absolute then req\<lparr>req_is_uri_abs := True\<rparr> else req))))"

definition is_valid_host_header_field :: "http_req \<Rightarrow> bool" where
  "is_valid_host_header_field req \<longleftrightarrow> chunk_len (req_host req) \<noteq> 0"

lemma scan_comma_RetD: "scan_comma m p n = Ret (found, p', n') \<Longrightarrow> n' \<le> n - 1"
proof (induction n arbitrary: p)
  case 0
  then show ?case by simp
next
  case (Suc n)
  show ?case
  proof (cases "mem_get m p")
    case (Ret c)
    then show ?thesis
      using Suc by (cases "c = COMMA") fastforce+
  qed (use Suc.prems in simp_all)
qed

text \<open>Every element taken off a field value shortens it.\<close>

lemma http_field_value_tok_progress:
  assumes "http_field_value_tok m s prev = Ret (rv, result, prev', e)" "0 < rv"
    and "(case s of None \<Rightarrow> prev | Some c \<Rightarrow> Some c) = Some c"
  shows "\<exists>c'. prev' = Some c' \<and> unat (chunk_len c') < unat (chunk_len c)"
proof -
  obtain start found p n where st: "chunk_p c = Some start" "chunk_len c \<noteq> 0"
    "scan_comma m start (unat (chunk_len c)) = Ret (found, p, n)"
    "prev' = Some \<lparr>chunk_p = Some p, chunk_len = of_nat n\<rparr>"
    using assms
    by (cases "s = None"; cases "chunk_p c")
      (auto simp: http_field_value_tok_def Let_def outcome_simps split: if_splits option.splits)
  have n: "n < unat (chunk_len c)"
    using scan_comma_RetD [OF st(3)] st(2) unat_gt_0 [of "chunk_len c"] by linarith
  have "n < 4294967296"
    by (rule less_trans [OF n unat_u32_less])
  then show ?thesis
    using st(4) n by (simp add: unat_of_nat_u32)
qed

text \<open>\<open>while (0 < http_field_value_tok(&hreq->upgrade, &result)) \<dots>\<close>\<close>

function upgrade_loop :: "u8 list \<Rightarrow> chunk \<Rightarrow> (bool \<times> chunk \<times> wsd_err option) outcome" where
  "upgrade_loop m c =
     obind (http_field_value_tok m (Some c) None) (\<lambda>(rv, result, prev, e).
     let c' = (case prev of None \<Rightarrow> c | Some c' \<Rightarrow> c') in
     if 0 < rv then
       obind (trim m result) (\<lambda>result.
       obind (chunk_strncasecmp m result ''websocket'' 9) (\<lambda>b.
       if b then Ret (True, c', e) else upgrade_loop m c'))
     else Ret (False, c', e))"
  by pat_completeness auto
termination
  by (relation "measure (\<lambda>(m, c). unat (chunk_len c))")
    (auto dest!: http_field_value_tok_progress)

declare upgrade_loop.simps [simp del]

definition is_valid_upgrade_header_field ::
  "u8 list \<Rightarrow> http_req \<Rightarrow> (bool \<times> http_req \<times> wsd_err option) outcome" where
  "is_valid_upgrade_header_field m req =
     obind (upgrade_loop m (req_upgrade req)) (\<lambda>(b, c, e). Ret (b, req\<lparr>req_upgrade := c\<rparr>, e))"

definition has_upgrade :: "u8 list \<Rightarrow> chunk \<Rightarrow> bool outcome" where
  "has_upgrade m result =
     obind (trim m result) (\<lambda>result. chunk_strncasecmp m result ''Upgrade'' 7)"

text \<open>\<open>while (0 < http_field_value_tok(NULL, &result)) if (has_upgrade(&result)) return 1;\<close>\<close>

function conn_loop :: "u8 list \<Rightarrow> chunk option \<Rightarrow> (bool \<times> chunk option \<times> wsd_err option) outcome" where
  "conn_loop m prev =
     obind (http_field_value_tok m None prev) (\<lambda>(rv, result, prev', e).
     if 0 < rv then
       obind (has_upgrade m result) (\<lambda>b. if b then Ret (True, prev', e) else conn_loop m prev')
     else Ret (False, prev', e))"
  by pat_completeness auto
termination
proof (relation "measure (\<lambda>(m, prev). case prev of None \<Rightarrow> 0 | Some c \<Rightarrow> unat (chunk_len c))", goal_cases)
  case 1
  then show ?case by simp
next
  case (2 m prev x rv y result z prev' e b)
  then obtain c where c: "prev = Some c"
    by (cases prev) (auto simp: http_field_value_tok_def)
  from 2 show ?case
    using http_field_value_tok_progress [of m None prev rv result prev' e c] by (auto simp: c)
qed

declare conn_loop.simps [simp del]

definition tokenise_connection :: "u8 list \<Rightarrow> chunk \<Rightarrow> (bool \<times> chunk \<times> wsd_err option) outcome" where
  "tokenise_connection m c =
     obind (http_field_value_tok m (Some c) None) (\<lambda>(rv, result, prev, e).
     let left = (\<lambda>p. case p of None \<Rightarrow> c | Some c' \<Rightarrow> c') in
     if 0 < rv then
       obind (has_upgrade m result) (\<lambda>b.
       if b then Ret (True, left prev, e)
       else obind (conn_loop m prev) (\<lambda>(b, prev, e). Ret (b, left prev, e)))
     else Ret (False, left prev, e))"

definition is_valid_connection_header_field ::
  "u8 list \<Rightarrow> http_req \<Rightarrow> (bool \<times> http_req \<times> wsd_err option) outcome" where
  "is_valid_connection_header_field m req =
     obind (tokenise_connection m (req_conn req)) (\<lambda>(b, c, e).
     let req = req\<lparr>req_conn := c\<rparr> in
     if b then Ret (True, req, e)
     else obind (tokenise_connection m (req_conn2 req)) (\<lambda>(b, c, e').
          Ret (b, req\<lparr>req_conn2 := c\<rparr>, case e' of None \<Rightarrow> e | Some x \<Rightarrow> Some x)))"

subsection \<open>Receiving a request\<close>

definition set_errno :: "wsd_err option \<Rightarrow> world \<Rightarrow> world" where
  "set_errno e w = (case e of None \<Rightarrow> w | Some x \<Rightarrow> w\<lparr>wsd_errno := x\<rparr>)"

text \<open>A bad request is answered with status 400.\<close>

definition bad_request :: "world \<Rightarrow> ptr \<Rightarrow> (int \<times> world) outcome" where
  "bad_request w s = obind (answer w s HTTP_400) (\<lambda>w. reject w s)"

text \<open>The end of \<open>http_recv\<close>: the fields are checked and the protocol decodes its handshake.\<close>

definition check_fields ::
  "(u8 list \<Rightarrow> u8 list) \<Rightarrow> u8 list \<Rightarrow> world \<Rightarrow> ptr \<Rightarrow> sk \<Rightarrow> http_req \<Rightarrow> (int \<times> world) outcome" where
  "check_fields digest m w s k req =
     (if \<not> is_valid_host_header_field req then bad_request w s
     else
     obind (is_valid_upgrade_header_field m req) (\<lambda>(ok, req, e).
     let w = set_errno e w in
     if \<not> ok then bad_request w s
     else
     obind (is_valid_connection_header_field m req) (\<lambda>(ok, req, e).
     let w = set_errno e w in
     if \<not> ok then bad_request w s
     else
     obind (upd_sk w s (\<lambda>k. k\<lparr>sk_recvbuf := skb_reset (sk_recvbuf k)\<rparr>)) (\<lambda>w.
     call_decode_handshake digest (decode_handshake (sk_proto k)) w s req))))"

definition http_recv :: "(u8 list \<Rightarrow> u8 list) \<Rightarrow> world \<Rightarrow> ptr \<Rightarrow> (int \<times> world) outcome" where
  "http_recv digest w s =
     obind (deref w s) (\<lambda>k.
     let m = skb_data (sk_recvbuf k) in
     obind (guard (skb_rdsz (sk_recvbuf k) \<noteq> 0)) (\<lambda>_.
     obind (has_rnrn_termination (sk_recvbuf k)) (\<lambda>complete.
     if complete = 0 then Ret (-1, w\<lparr>wsd_errno := WSD_EINPUT\<rparr>)
     else
     obind (http_header_tok m (Some (unat (rdpos (sk_recvbuf k)))) None) (\<lambda>(rv, tok, prev, e).
     let w = w\<lparr>wsd_errno := e\<rparr> in
     if 0 > rv then reject w s
     else
     obind (parse_request_line m (Some tok) null_http_req) (\<lambda>(rv, req, e).
     if 0 > rv then bad_request (set_errno e w) s
     else
     obind (is_valid_req_line m req) (\<lambda>(ok, req).
     if \<not> ok then bad_request w s
     else
     obind (header_loop m prev req) (\<lambda>(rv, req, prev, e).
     let w = w\<lparr>wsd_errno := e\<rparr> in
     if 0 > rv then bad_request w s
     else check_fields digest m w s k req)))))))"

subsection \<open>What a header says\<close>

text \<open>
  The abstract request: the value of each field the program looks at, or none. A second
  Connection field has a place of its own, a repeated other field replaces the first.
\<close>

datatype fld = F_host | F_upgrade | F_conn | F_conn2 | F_key | F_ver | F_proto | F_ext | F_origin | F_agent

type_synonym header = "fld \<Rightarrow> u8 list option"

definition fld_of :: "u8 list \<Rightarrow> fld option" where
  "fld_of n =
     (if name_matches n ''Host'' then Some F_host
      else if name_matches n ''Upgrade'' then Some F_upgrade
      else if name_matches n ''Connection'' then Some F_conn
      else if name_matches n ''Sec-WebSocket-Key'' then Some F_key
      else if name_matches n ''Sec-WebSocket-Version'' then Some F_ver
      else if name_matches n ''Sec-WebSocket-Protocol'' then Some F_proto
      else if name_matches n ''Sec-WebSocket-Extensions'' then Some F_ext
      else if name_matches n ''Origin'' then Some F_origin
      else if name_matches n ''User-Agent'' then Some F_agent
      else None)"

definition add_field :: "u8 list \<Rightarrow> u8 list \<Rightarrow> header \<Rightarrow> header" where
  "add_field n v h =
     (case fld_of n of
        None \<Rightarrow> h
      | Some f \<Rightarrow> if f = F_conn \<and> h F_conn \<noteq> None \<and> h F_conn \<noteq> Some [] then h(F_conn2 \<mapsto> v) else h(f \<mapsto> v))"

fun add_fields :: "(u8 list \<times> u8 list) list \<Rightarrow> header \<Rightarrow> header" where
  "add_fields [] h = h"
| "add_fields ((n, v) # fs) h = add_fields fs (add_field n v h)"

fun get_fld :: "fld \<Rightarrow> http_req \<Rightarrow> chunk" where
  "get_fld F_host req = req_host req"
| "get_fld F_upgrade req = req_upgrade req"
| "get_fld F_conn req = req_conn req"
| "get_fld F_conn2 req = req_conn2 req"
| "get_fld F_key req = req_sec_ws_key req"
| "get_fld F_ver req = req_sec_ws_ver req"
| "get_fld F_proto req = req_sec_ws_proto req"
| "get_fld F_ext req = req_sec_ws_ext req"
| "get_fld F_origin req = req_origin req"
| "get_fld F_agent req = req_user_agent req"

fun set_fld :: "fld \<Rightarrow> chunk \<Rightarrow> http_req \<Rightarrow> http_req" where
  "set_fld F_host c req = req\<lparr>req_host := c\<rparr>"
| "set_fld F_upgrade c req = req\<lparr>req_upgrade := c\<rparr>"
| "set_fld F_conn c req = req\<lparr>req_conn := c\<rparr>"
| "set_fld F_conn2 c req = req\<lparr>req_conn2 := c\<rparr>"
| "set_fld F_key c req = req\<lparr>req_sec_ws_key := c\<rparr>"
| "set_fld F_ver c req = req\<lparr>req_sec_ws_ver := c\<rparr>"
| "set_fld F_proto c req = req\<lparr>req_sec_ws_proto := c\<rparr>"
| "set_fld F_ext c req = req\<lparr>req_sec_ws_ext := c\<rparr>"
| "set_fld F_origin c req = req\<lparr>req_origin := c\<rparr>"
| "set_fld F_agent c req = req\<lparr>req_user_agent := c\<rparr>"

lemma get_set_fld: "get_fld f (set_fld g c req) = (if f = g then c else get_fld f req)"
  by (cases f; cases g) simp_all

lemma field_update_fld:
  "snd (field_update n c req) =
     (case fld_of n of
        None \<Rightarrow> req
      | Some f \<Rightarrow> if f = F_conn \<and> chunk_len (get_fld F_conn req) \<noteq> 0 then set_fld F_conn2 c req else set_fld f c req)"
  by (simp add: field_update_def fld_of_def)

definition shows_header :: "u8 list \<Rightarrow> http_req \<Rightarrow> header \<Rightarrow> bool" where
  "shows_header m req h \<longleftrightarrow> (\<forall>f. case h f of
       None \<Rightarrow> chunk_len (get_fld f req) = 0
     | Some v \<Rightarrow> \<exists>rest. chunk_at m (get_fld f req) v (CR # LF # rest))"

lemma shows_header_len:
  assumes "shows_header m req h"
  shows "chunk_len (get_fld f req) \<noteq> 0 \<longleftrightarrow> h f \<noteq> None \<and> h f \<noteq> Some []"
proof (cases "h f")
  case (Some v)
  then obtain rest where "chunk_at m (get_fld f req) v (CR # LF # rest)"
    using assms by (auto simp: shows_header_def split: option.splits dest!: spec [of _ f])
  from chunk_at_len [OF this] Some show ?thesis
    by (metis length_greater_0_conv option.distinct(1) option.inject unat_gt_0)
qed (use assms in \<open>auto simp: shows_header_def split: option.splits dest!: spec [of _ f]\<close>)

lemma shows_header_add:
  assumes h: "shows_header m req h" and v: "chunk_at m c v (CR # LF # rest)"
  shows "shows_header m (snd (field_update n c req)) (add_field n v h)"
proof (cases "fld_of n")
  case None
  then show ?thesis using h by (simp add: field_update_fld add_field_def)
next
  case (Some f)
  have set: "shows_header m (set_fld g c req) (h(g \<mapsto> v))" for g
    using h v by (auto simp: shows_header_def get_set_fld cong: option.case_cong)
  show ?thesis
    using Some set [of f] set [of F_conn2] shows_header_len [OF h, of F_conn] by (auto simp: field_update_fld add_field_def)
qed

lemma shows_header_fields:
  "drop p m = header_text fs @ ys \<Longrightarrow> p \<le> length m \<Longrightarrow> \<forall>nv\<in>set fs. legal_field nv \<Longrightarrow>
   shows_header m req h \<Longrightarrow> shows_header m (fold_fields p fs req) (add_fields fs h)"
proof (induction fs arbitrary: p req h)
  case Nil
  then show ?case by simp
next
  case (Cons nv fs)
  obtain n v where nv: "nv = (n, v)" by force
  have d: "drop p m = n @ COLON # v @ CR # LF # header_text fs @ ys"
    using Cons.prems(1) by (simp add: nv header_text_def field_line_def)
  have len: "length m = p + length n + 1 + length v + 2 + length (header_text fs @ ys)"
    using arg_cong [OF d, of length] Cons.prems(2) by simp
  have dv: "drop (p + length n + 1) m = v @ CR # LF # header_text fs @ ys"
    using arg_cong [OF d, of "drop (length n + 1)"] by (simp add: add.commute add.left_commute)
  have v31: "length v < 2 ^ 31"
    using Cons.prems(3) by (simp add: nv legal_field_def field_line_def)
  have "drop (length v + 2) (drop (p + length n + 1) m) = header_text fs @ ys"
    unfolding dv by simp
  then have d': "drop (p + length (field_line (n, v)) + 2) m = header_text fs @ ys"
    by (simp add: field_line_def add.commute add.left_commute)
  have le: "p + length (field_line (n, v)) + 2 \<le> length m"
    using len by (simp add: field_line_def)
  let ?c = "\<lparr>chunk_p = Some (p + length n + 1), chunk_len = of_nat (length v)\<rparr> :: chunk"
  have "chunk_at m ?c v (CR # LF # header_text fs @ ys)"
    using dv v31 len by (simp add: chunk_at_def)
  from shows_header_add [OF Cons.prems(4) this] show ?case
    using Cons.IH [OF d' le] Cons.prems(3) by (simp add: nv)
qed

lemma shows_header_null: "shows_header m null_http_req Map.empty"
proof -
  have "get_fld f null_http_req = null_chunk" for f
    by (cases f) (simp_all add: null_http_req_def)
  then show ?thesis
    by (simp add: shows_header_def null_chunk_def)
qed

text \<open>
  C31: The parsed request refines the abstract one: after the loop over any list of legal
  header fields, every chunk of the request shows exactly the value that the fields give to it,
  and a field that does not occur is empty.
\<close>

theorem header_loop_refines:
  assumes "drop p m = header_text fs @ ys" "p \<le> length m" "\<forall>nv\<in>set fs. legal_field nv"
  shows "\<exists>req q. header_loop m (Some p) null_http_req = Ret (0, req, q, WSD_CHECKERRNO)
    \<and> shows_header m req (add_fields fs Map.empty)"
  using header_loop_fields [OF assms] shows_header_fields [OF assms shows_header_null] by blast

theorem header_loop_refines_witness:
  "\<exists>req q. header_loop (header_text [(bytes ''Host'', bytes '' a''), (bytes ''HOST'', bytes ''b'')])
      (Some 0) null_http_req = Ret (0, req, q, WSD_CHECKERRNO)
    \<and> shows_header (header_text [(bytes ''Host'', bytes '' a''), (bytes ''HOST'', bytes ''b'')]) req [F_host \<mapsto> bytes ''b'']"
proof -
  let ?fs = "[(bytes ''Host'', bytes '' a''), (bytes ''HOST'', bytes ''b'')]"
  have "name_matches (bytes ''Host'') ''Host''" "name_matches (bytes ''HOST'') ''Host''"
    and "list_all (\<lambda>nv. list_all is_rfc7230_header_field (fst nv) \<and> list_all is_rfc7230_field_value (snd nv)) ?fs"
    by code_simp+
  moreover have "\<forall>nv\<in>set ?fs. length (field_line nv) < 2 ^ 31"
    by (simp add: field_line_def)
  ultimately show ?thesis
    using header_loop_refines [of 0 "header_text ?fs" ?fs "[]"]
    by (simp add: list_all_iff legal_field_def add_field_def fld_of_def)
qed

subsection \<open>Lists of tokens\<close>

text \<open>A comparison ends at the end of the text, which is no letter of the literal.\<close>

lemma strn_eq_stops:
  "drop p m = xs @ x # ys \<Longrightarrow> p \<le> length m \<Longrightarrow> \<forall>l \<in> set lit. f l \<noteq> f x \<Longrightarrow> \<exists>b. strn_eq f m p lit (length lit) = Ret b"
proof (induction lit arbitrary: p xs)
  case Nil
  then show ?case by (intro exI [of _ True]) simp
next
  case (Cons l ls)
  have p: "p < length m"
    using Cons.prems(1,2) by (cases "p = length m") auto
  then have hd: "m ! p = hd (xs @ [x])" and d: "drop (Suc p) m = tl (xs @ x # ys)"
    using Cons.prems(1) by (cases xs; simp add: Cons_nth_drop_Suc [symmetric])+
  show ?case
  proof (cases xs)
    case Nil
    then have "strn_eq f m p (l # ls) (length (l # ls)) = Ret False"
      using p hd Cons.prems(3) by auto
    then show ?thesis by blast
  next
    case (Cons c cs)
    then show ?thesis
      using p hd d Cons.IH [of "Suc p" cs] Cons.prems(3) by auto
  qed
qed

text \<open>One element of a value, followed by the rest of the list.\<close>

lemma field_value_elem:
  assumes at: "chunk_at m c (e @ u) rest" and e: "e \<noteq> []" "COMMA \<notin> set e" and u: "u = [] \<or> hd u = COMMA"
    and cur: "(case s of None \<Rightarrow> prev | Some x \<Rightarrow> Some x) = Some c"
  shows "\<exists>r c'. http_field_value_tok m s prev = Ret (int (length e), r, Some c', None)
    \<and> chunk_at m r e (u @ rest) \<and> chunk_at m c' (tl u) rest"
proof -
  obtain q where q: "chunk_p c = Some q" "q \<le> length m" "drop q m = e @ u @ rest" and l31: "length (e @ u) < 2 ^ 31"
    using at by (auto simp: chunk_at_def)
  have n: "unat (chunk_len c) = length (e @ u)"
    using chunk_at_len [OF at] .
  have ct: "chunk_text m c = e @ u"
    using q n by (simp add: chunk_text_def)
  have len: "length m = q + length e + length u + length rest"
    using arg_cong [OF q(3), of length] q(2) by simp
  have nz: "chunk_len c \<noteq> 0"
    using n e(1) by auto
  have tw: "takeWhile (\<lambda>x. x \<noteq> COMMA) (chunk_text m c) = e"
    using e(2) u unfolding ct by (cases u) (auto simp: takeWhile_append takeWhile_eq_all_conv)
  obtain c' where c': "http_field_value_tok m s prev =
      Ret (int (length e), \<lparr>chunk_p = Some q, chunk_len = of_nat (length e)\<rparr>, Some c', None)"
    "chunk_text m c' = drop (length e + 1) (chunk_text m c)"
    "chunk_p c' = Some (q + unat (chunk_len c) - unat (chunk_len c'))" "unat (chunk_len c') < unat (chunk_len c)"
    using http_field_value_tok_elem [OF cur q(1) nz _ _ tw] n l31 len by auto
  have r: "chunk_at m \<lparr>chunk_p = Some q, chunk_len = of_nat (length e)\<rparr> e (u @ rest)"
    using q l31 by (simp add: chunk_at_def)
  have t: "chunk_text m c' = tl u"
    using c'(2) ct by (simp add: drop_Suc)
  let ?p = "q + length (e @ u) - unat (chunk_len c')"
  have "length (chunk_text m c') = unat (chunk_len c')"
    using c'(3,4) n len by (simp add: chunk_text_def)
  then have l: "unat (chunk_len c') = length (tl u)"
    by (simp add: t)
  then have "?p = q + length e + (length u - length (tl u))"
    by (cases u) simp_all
  moreover have "drop (length u - length (tl u)) u = tl u"
    by (cases u) simp_all
  moreover have "drop (length e + (length u - length (tl u))) (drop q m) = drop (length u - length (tl u)) (u @ rest)"
    unfolding q(3) by simp
  ultimately have d: "drop ?p m = tl u @ rest"
    by (cases u) (simp_all add: add.commute add.left_commute)
  have "chunk_len c' = of_nat (length (tl u))"
    unfolding l [symmetric] by simp
  then have "chunk_at m c' (tl u) rest"
    using c'(3) n d len l31 by (auto simp: chunk_at_def)
  then show ?thesis
    using c'(1) r by blast
qed

text \<open>
  A value whose elements are tidy texts, the first that starts with the token (in any case)
  being preceded by others.
\<close>

fun has_token :: "string \<Rightarrow> (u8 list \<times> u8 list) list \<Rightarrow> bool" where
  "has_token lit [] \<longleftrightarrow> False"
| "has_token lit ((e, t) # es) \<longleftrightarrow> e \<noteq> [] \<and> COMMA \<notin> set e \<and> tidy e t
     \<and> (take (length lit) (map to_lower t) = map to_lower (bytes lit) \<or> has_token lit es)"

fun join_comma :: "u8 list list \<Rightarrow> u8 list" where
  "join_comma [] = []"
| "join_comma [e] = e"
| "join_comma (e # f # es) = e @ COMMA # join_comma (f # es)"

definition token_value :: "string \<Rightarrow> u8 list \<Rightarrow> bool" where
  "token_value lit v \<longleftrightarrow> (\<exists>es. has_token lit es \<and> v = join_comma (map fst es))"

lemma join_comma_Cons: "\<exists>u. join_comma (e # es) = e @ u \<and> (u = [] \<or> hd u = COMMA) \<and> tl u = join_comma es
    \<and> (u = [] \<longrightarrow> es = [])"
  by (cases es) auto

text \<open>An element, trimmed and compared.\<close>

lemma elem_token:
  assumes r: "chunk_at m r e (u @ CR # rest)" and u: "u = [] \<or> hd u = COMMA" and t: "tidy e t"
    and lit: "\<forall>l \<in> set (bytes lit). to_lower l \<noteq> to_lower CR \<and> to_lower l \<noteq> to_lower COMMA \<and> to_lower l \<noteq> to_lower SP \<and> to_lower l \<noteq> to_lower HTAB"
    and n: "n = length lit"
  shows "\<exists>r' b. trim m r = Ret r' \<and> chunk_strncasecmp m r' lit n = Ret b
    \<and> (take (length lit) (map to_lower t) = map to_lower (bytes lit) \<longrightarrow> b)"
proof -
  obtain x xs where x: "u @ CR # rest = x # xs" "\<not> is_blank x" "x = CR \<or> x = COMMA"
    using u by (cases u) (auto simp: is_blank_def)
  obtain r' trail where r': "trim m r = Ret r'" "chunk_at m r' t (trail @ x # xs)" "\<forall>y \<in> set trail. is_blank y"
    using trim_tidy [OF _ t x(2)] r x(1) by metis
  then obtain p where p: "chunk_p r' = Some p" "p \<le> length m" "drop p m = t @ trail @ x # xs"
    by (auto simp: chunk_at_def)
  have d: "drop p m = t @ hd (trail @ [x]) # tl (trail @ x # xs)"
    using p(3) by (cases trail) simp_all
  have "hd (trail @ [x]) \<in> {CR, COMMA, SP, HTAB}"
    using x(3) r'(3) by (cases trail) (auto simp: is_blank_def)
  then have "\<forall>l \<in> set (bytes lit). to_lower l \<noteq> to_lower (hd (trail @ [x]))"
    using lit by auto
  from strn_eq_stops [OF d p(2) this] obtain b where b: "strn_eq to_lower m p (bytes lit) (length lit) = Ret b"
    by auto
  have ret: "chunk_strncasecmp m r' lit n = Ret (if n = 0 then True else b)"
    using p(1) b n by (simp add: chunk_strncasecmp_def chunk_eq_def)
  have "b" if "take (length lit) (map to_lower t) = map to_lower (bytes lit)"
  proof -
    have "drop p m = take (length lit) t @ drop (length lit) t @ trail @ x # xs"
      using p(3) by simp
    from strn_eq_prefix [OF this p(2), of to_lower "bytes lit"] show ?thesis
      using that b by (simp add: take_map)
  qed
  then show ?thesis
    using r'(1) ret by auto
qed

subsection \<open>Requests that pass\<close>

lemma token_literals:
  "\<forall>l \<in> set (bytes ''websocket''). to_lower l \<noteq> to_lower CR \<and> to_lower l \<noteq> to_lower COMMA \<and> to_lower l \<noteq> to_lower SP \<and> to_lower l \<noteq> to_lower HTAB"
  "\<forall>l \<in> set (bytes ''Upgrade''). to_lower l \<noteq> to_lower CR \<and> to_lower l \<noteq> to_lower COMMA \<and> to_lower l \<noteq> to_lower SP \<and> to_lower l \<noteq> to_lower HTAB"
  by code_simp+

text \<open>One element of a value with the token: taken off, trimmed and compared.\<close>

lemma token_step:
  assumes es: "has_token lit ((e, t) # es)" and at: "chunk_at m c (join_comma (map fst ((e, t) # es))) (CR # rest)"
    and cur: "(case s of None \<Rightarrow> prev | Some x \<Rightarrow> Some x) = Some c"
    and lit: "\<forall>l \<in> set (bytes lit). to_lower l \<noteq> to_lower CR \<and> to_lower l \<noteq> to_lower COMMA \<and> to_lower l \<noteq> to_lower SP \<and> to_lower l \<noteq> to_lower HTAB"
    and n: "n = length lit"
  shows "\<exists>r c' r' b. http_field_value_tok m s prev = Ret (int (length e), r, Some c', None) \<and> 0 < int (length e)
    \<and> trim m r = Ret r' \<and> chunk_strncasecmp m r' lit n = Ret b
    \<and> (\<not> b \<longrightarrow> has_token lit es \<and> chunk_at m c' (join_comma (map fst es)) (CR # rest))"
proof -
  obtain u where u: "join_comma (map fst ((e, t) # es)) = e @ u" "u = [] \<or> hd u = COMMA" "tl u = join_comma (map fst es)"
    using join_comma_Cons [of e "map fst es"] by auto
  have e: "e \<noteq> []" "COMMA \<notin> set e" "tidy e t"
    using es by simp_all
  obtain r c' where r: "http_field_value_tok m s prev = Ret (int (length e), r, Some c', None)"
    "chunk_at m r e (u @ CR # rest)" "chunk_at m c' (tl u) (CR # rest)"
    using field_value_elem [OF at [unfolded u(1)] e(1,2) u(2) cur] by blast
  obtain r' b where b: "trim m r = Ret r'" "chunk_strncasecmp m r' lit n = Ret b"
    "take (length lit) (map to_lower t) = map to_lower (bytes lit) \<longrightarrow> b"
    using elem_token [OF r(2) u(2) e(3) lit n] by blast
  show ?thesis
    using r(1,3) b e(1) es u(3) by auto
qed

lemma upgrade_loop_ok:
  "has_token ''websocket'' es \<Longrightarrow> chunk_at m c (join_comma (map fst es)) (CR # rest) \<Longrightarrow>
   \<exists>c'. upgrade_loop m c = Ret (True, c', None)"
proof (induction es arbitrary: c)
  case Nil
  then show ?case by simp
next
  case (Cons et es)
  obtain e t where et: "et = (e, t)" by force
  obtain r c' r' b where st: "http_field_value_tok m (Some c) None = Ret (int (length e), r, Some c', None)"
    "0 < int (length e)" "trim m r = Ret r'" "chunk_strncasecmp m r' ''websocket'' 9 = Ret b"
    "\<not> b \<longrightarrow> has_token ''websocket'' es \<and> chunk_at m c' (join_comma (map fst es)) (CR # rest)"
    using token_step [OF Cons.prems(1) [unfolded et] Cons.prems(2) [unfolded et], where s = "Some c" and prev = None, OF _ token_literals(1), of 9]
    by fastforce
  show ?case
    using st Cons.IH [of c'] by (subst upgrade_loop.simps) (cases b; simp)
qed

lemma conn_loop_ok:
  "has_token ''Upgrade'' es \<Longrightarrow> chunk_at m c (join_comma (map fst es)) (CR # rest) \<Longrightarrow>
   \<exists>c'. conn_loop m (Some c) = Ret (True, Some c', None)"
proof (induction es arbitrary: c)
  case Nil
  then show ?case by simp
next
  case (Cons et es)
  obtain e t where et: "et = (e, t)" by force
  obtain r c' r' b where st: "http_field_value_tok m None (Some c) = Ret (int (length e), r, Some c', None)"
    "0 < int (length e)" "trim m r = Ret r'" "chunk_strncasecmp m r' ''Upgrade'' 7 = Ret b"
    "\<not> b \<longrightarrow> has_token ''Upgrade'' es \<and> chunk_at m c' (join_comma (map fst es)) (CR # rest)"
    using token_step [OF Cons.prems(1) [unfolded et] Cons.prems(2) [unfolded et], where s = None and prev = "Some c", OF _ token_literals(2), of 7]
    by fastforce
  show ?case
    using st Cons.IH [of c'] by (subst conn_loop.simps) (cases b; simp add: has_upgrade_def)
qed

lemma tokenise_connection_ok:
  assumes "token_value ''Upgrade'' v" "chunk_at m c v (CR # rest)"
  shows "\<exists>c'. tokenise_connection m c = Ret (True, c', None)"
proof -
  obtain es where es: "has_token ''Upgrade'' es" "v = join_comma (map fst es)"
    using assms(1) by (auto simp: token_value_def)
  then obtain e t es' where et: "es = (e, t) # es'"
    by (cases es) auto
  obtain r c' r' b where st: "http_field_value_tok m (Some c) None = Ret (int (length e), r, Some c', None)"
    "0 < int (length e)" "trim m r = Ret r'" "chunk_strncasecmp m r' ''Upgrade'' 7 = Ret b"
    "\<not> b \<longrightarrow> has_token ''Upgrade'' es' \<and> chunk_at m c' (join_comma (map fst es')) (CR # rest)"
    using token_step [OF es(1) [unfolded et] assms(2) [unfolded es(2) et], where s = "Some c" and prev = None, OF _ token_literals(2), of 7]
    by fastforce
  show ?thesis
    using st conn_loop_ok [of es' m c' rest]
    by (cases b) (auto simp: tokenise_connection_def has_upgrade_def Let_def)
qed

lemma tokenise_connection_none: "chunk_len c = 0 \<Longrightarrow> tokenise_connection m c = Ret (False, c, Some WSD_EINPUT)"
  by (simp add: tokenise_connection_def http_field_value_tok_def Let_def)

subsection \<open>The whole upgrade request\<close>

definition request_line :: "u8 list \<Rightarrow> u8 list" where
  "request_line targ = bytes ''GET '' @ targ @ bytes '' HTTP/1.1''"

definition request_text :: "u8 list \<Rightarrow> (u8 list \<times> u8 list) list \<Rightarrow> u8 list" where
  "request_text targ fs = request_line targ @ [CR, LF] @ header_text fs"

definition legal_target :: "u8 list \<Rightarrow> bool" where
  "legal_target targ \<longleftrightarrow> targ \<noteq> [] \<and> hd targ \<noteq> 0x2a \<and> (\<forall>c \<in> set targ. is_rfc7230_start_line c \<and> c \<noteq> SP)
     \<and> length targ < 2 ^ 30"

lemma drop_pending: "skb_wf b \<Longrightarrow> drop (unat (rdpos b)) (skb_data b) = pending b @ drop (unat (wrpos b)) (skb_data b)"
proof -
  assume wf: "skb_wf b"
  note D = skb_wfD [OF wf]
  have "unat (rdpos b) + unat (skb_rdsz b) = unat (wrpos b)"
    using D by simp
  then show ?thesis
    unfolding pending_def by (metis append_take_drop_id drop_drop add.commute)
qed

lemma header_text_end: "\<exists>xs. [CR, LF] @ header_text fs = xs @ [CR, LF, CR, LF]"
proof (cases fs rule: rev_cases)
  case (snoc gs g)
  then show ?thesis
    by (intro exI [of _ "[CR, LF] @ concat (map (\<lambda>nv. field_line nv @ [CR, LF]) gs) @ field_line g"])
      (simp add: header_text_def)
qed (simp add: header_text_def)

lemma request_line_legal: "legal_target targ \<Longrightarrow> \<forall>c \<in> set (request_line targ). is_rfc7230_start_line c"
proof -
  assume "legal_target targ"
  moreover have "list_all is_rfc7230_start_line (bytes ''GET '')" "list_all is_rfc7230_start_line (bytes '' HTTP/1.1'')"
    by code_simp+
  ultimately show ?thesis
    by (auto simp: request_line_def legal_target_def list_all_iff)
qed

lemma request_line_parts: "legal_target targ \<Longrightarrow> accepted_request_line (request_line targ) (bytes ''GET'') targ"
proof -
  assume "legal_target targ"
  moreover have "list_all is_upper (bytes ''GET'')" by code_simp
  ultimately show ?thesis
    by (auto simp: request_line_def accepted_request_line_def legal_target_def list_all_iff bytes_def)
qed

text \<open>The request line passes the checks.\<close>

lemma request_line_valid:
  assumes t: "legal_target targ" and d: "drop p m = request_line targ @ rest" "p \<le> length m"
    and r: "req_method r = \<lparr>chunk_p = Some p, chunk_len = 3\<rparr>"
      "req_target r = \<lparr>chunk_p = Some (p + 4), chunk_len = of_nat (length targ)\<rparr>"
  shows "\<exists>abs. is_valid_req_line m r = Ret (True, r\<lparr>req_is_uri_abs := abs\<rparr>)"
proof -
  have get: "drop p m = bytes ''GET'' @ SP # targ @ bytes '' HTTP/1.1'' @ rest"
    using d(1) by (simp add: request_line_def bytes_def)
  have len: "p + 4 \<le> length m"
    using arg_cong [OF get, of length] d(2) by simp
  have targ: "drop (p + 4) m = targ @ SP # bytes ''HTTP/1.1'' @ rest"
    using arg_cong [OF get, of "drop 4"] by (simp add: add.commute bytes_def)
  have c1: "chunk_strncmp m \<lparr>chunk_p = Some p, chunk_len = 3\<rparr> ''GET'' 3 = Ret True"
    using strn_eq_prefix [OF get d(2), of "\<lambda>c. c" "bytes ''GET''"] by (simp add: chunk_strncmp_def chunk_eq_def numeral_3_eq_3)
  have n: "unat (of_nat (length targ) :: u32) = length targ" "length targ \<noteq> 0"
    using t by (simp_all add: legal_target_def unat_of_nat_u32)
  obtain x xs where x: "targ = x # xs" "x \<noteq> 0x2a"
    using t by (cases targ) (auto simp: legal_target_def)
  have lt: "p + 4 < length m"
    using arg_cong [OF targ, of length] x(1) len by simp
  have "m ! (p + 4) = x"
    using targ x(1) lt by (metis append_Cons nth_via_drop)
  then have c2: "chunk_strncmp m \<lparr>chunk_p = Some (p + 4), chunk_len = of_nat (length targ)\<rparr> ''*'' (length targ) = Ret False"
    using x lt by (simp add: chunk_strncmp_def chunk_eq_def bytes_def)
  have lit: "\<forall>l \<in> set (bytes ''http://''). to_lower l \<noteq> to_lower SP"
    by code_simp
  obtain b where "strn_eq to_lower m (p + 4) (bytes ''http://'') (length (bytes ''http://'')) = Ret b"
    using strn_eq_stops [OF targ len lit] by blast
  then have c3: "chunk_strncasecmp m \<lparr>chunk_p = Some (p + 4), chunk_len = of_nat (length targ)\<rparr> ''http://'' 7 = Ret b"
    by (simp add: chunk_strncasecmp_def chunk_eq_def eval_nat_numeral)
  show ?thesis
    using c1 c2 c3 n r
    by (intro exI [of _ "if b then True else req_is_uri_abs r"]) (simp add: is_valid_req_line_def)
qed

text \<open>A field of the parsed request, for the handshake.\<close>

definition header_says :: "header \<Rightarrow> fld \<Rightarrow> u8 list \<Rightarrow> bool" where
  "header_says h f t \<longleftrightarrow> (h f = None \<and> t = []) \<or> (\<exists>v. h f = Some v \<and> tidy v t)"

lemma header_field_text:
  assumes "shows_header m req h" "header_says h f t"
  shows "field_text m (get_fld f req) t"
  using assms unfolding header_says_def field_text_def shows_header_def
  by (auto split: option.splits dest!: spec [of _ f])

lemma header_loop_start:
  assumes "drop p m = header_text fs @ ys" "p \<le> length m" "\<forall>nv\<in>set fs. legal_field nv"
    and "shows_header m req Map.empty"
  shows "\<exists>req' q. header_loop m (Some p) req = Ret (0, req', q, WSD_CHECKERRNO)
    \<and> shows_header m req' (add_fields fs Map.empty)"
  using header_loop_fields [OF assms(1-3)] shows_header_fields [OF assms] by blast

text \<open>What the fields have to say for the request to be accepted, and the answer.\<close>

definition upgrade_header :: "header \<Rightarrow> u8 list \<Rightarrow> u8 list \<Rightarrow> bool" where
  "upgrade_header h key proto \<longleftrightarrow>
     (\<exists>v. h F_host = Some v \<and> v \<noteq> [])
     \<and> (\<exists>v. h F_upgrade = Some v \<and> token_value ''websocket'' v)
     \<and> (\<exists>v. h F_conn = Some v \<and> token_value ''Upgrade'' v)
     \<and> header_says h F_ver (bytes ''13'')
     \<and> header_says h F_key key \<and> NUL \<notin> set key \<and> length key \<le> 27
     \<and> header_says h F_proto proto \<and> NUL \<notin> set proto"

text \<open>The checks of the parsed fields, which then still show the header.\<close>

lemma checks_pass:
  assumes h: "shows_header m req h" "upgrade_header h key proto"
  shows "is_valid_host_header_field req
    \<and> (\<exists>req1. is_valid_upgrade_header_field m req = Ret (True, req1, None)
      \<and> (\<exists>req2. is_valid_connection_header_field m req1 = Ret (True, req2, None)
        \<and> (\<forall>f. f \<noteq> F_upgrade \<longrightarrow> f \<noteq> F_conn \<longrightarrow> get_fld f req2 = get_fld f req)))"
proof -
  have "chunk_len (get_fld F_host req) \<noteq> 0"
    using h(2) shows_header_len [OF h(1), of F_host] by (auto simp: upgrade_header_def)
  then have host: "is_valid_host_header_field req"
    by (simp add: is_valid_host_header_field_def)
  obtain uv where uv: "h F_upgrade = Some uv" "token_value ''websocket'' uv"
    using h(2) by (auto simp: upgrade_header_def)
  obtain cv where cv: "h F_conn = Some cv" "token_value ''Upgrade'' cv"
    using h(2) by (auto simp: upgrade_header_def)
  have at: "\<exists>rest. chunk_at m (get_fld f req) v (CR # LF # rest)" if "h f = Some v" for f v
    using h(1) that by (auto simp: shows_header_def dest!: spec [of _ f])
  obtain ru where ru: "chunk_at m (req_upgrade req) uv (CR # LF # ru)"
    using at [OF uv(1)] by auto
  obtain rc where rc: "chunk_at m (req_conn req) cv (CR # LF # rc)"
    using at [OF cv(1)] by auto
  obtain es where es: "has_token ''websocket'' es" "uv = join_comma (map fst es)"
    using uv(2) by (auto simp: token_value_def)
  obtain c1 where c1: "upgrade_loop m (req_upgrade req) = Ret (True, c1, None)"
    using upgrade_loop_ok [OF es(1), of m "req_upgrade req" "LF # ru"] ru es(2) by auto
  obtain c2 where c2: "tokenise_connection m (req_conn req) = Ret (True, c2, None)"
    using tokenise_connection_ok [OF cv(2) rc] by blast
  have fr: "get_fld f (req\<lparr>req_upgrade := c1, req_conn := c2\<rparr>) = get_fld f req" if "f \<noteq> F_upgrade" "f \<noteq> F_conn" for f
    using that by (cases f) simp_all
  show ?thesis
    using host c1 c2 fr
    by (simp add: is_valid_upgrade_header_field_def is_valid_connection_header_field_def)
qed

text \<open>The first line of what has arrived, tokenised.\<close>

lemma http_recv_arrived:
  assumes k: "heap w s = Some k" "skb_wf (sk_recvbuf k)"
    and req: "pending (sk_recvbuf k) = line @ [CR, LF] @ header_text fs @ extra"
  defines "m \<equiv> skb_data (sk_recvbuf k)" and "p \<equiv> unat (rdpos (sk_recvbuf k))"
  shows "skb_rdsz (sk_recvbuf k) \<noteq> 0" "has_rnrn_termination (sk_recvbuf k) = Ret 1"
    "\<exists>ys. drop p m = line @ [CR, LF] @ header_text fs @ ys" "p \<le> length m"
proof -
  show p: "p \<le> length m"
    using skb_wfD [OF k(2)] by (simp add: p_def m_def)
  show d: "\<exists>ys. drop p m = line @ [CR, LF] @ header_text fs @ ys"
    using drop_pending [OF k(2)] req(1) by (simp add: p_def m_def)
  show "skb_rdsz (sk_recvbuf k) \<noteq> 0"
    using req(1) by (simp add: rdsz_0_iff k(2))
  obtain xs where "[CR, LF] @ header_text fs = xs @ [CR, LF, CR, LF]"
    using header_text_end by blast
  then have "pending (sk_recvbuf k) = (line @ xs) @ [CR, LF, CR, LF] @ extra"
    using req(1) by simp
  then have "\<exists>xs ys. pending (sk_recvbuf k) = xs @ [CR, LF, CR, LF] @ ys"
    by blast
  then show "has_rnrn_termination (sk_recvbuf k) = Ret 1"
    using has_rnrn_termination_pending [OF k(2)] by (simp only: if_True)
qed

lemma http_recv_first_line:
  assumes k: "heap w s = Some k" "skb_wf (sk_recvbuf k)"
    and req: "pending (sk_recvbuf k) = line @ [CR, LF] @ header_text fs @ extra"
      "\<forall>c \<in> set line. is_rfc7230_start_line c" "length line < 2 ^ 31"
  defines "m \<equiv> skb_data (sk_recvbuf k)" and "p \<equiv> unat (rdpos (sk_recvbuf k))"
  shows "skb_rdsz (sk_recvbuf k) \<noteq> 0" "has_rnrn_termination (sk_recvbuf k) = Ret 1"
    "http_header_tok m (Some p) None = Ret (int (length line), \<lparr>chunk_p = Some p, chunk_len = of_nat (length line)\<rparr>,
       Some (p + length line + 2), WSD_CHECKERRNO)"
    "\<exists>ys. drop p m = line @ [CR, LF] @ header_text fs @ ys" "p \<le> length m"
proof -
  note F = http_recv_arrived [OF k req(1)]
  show "skb_rdsz (sk_recvbuf k) \<noteq> 0" "has_rnrn_termination (sk_recvbuf k) = Ret 1"
    by (rule F)+
  show p: "p \<le> length m" and "\<exists>ys. drop p m = line @ [CR, LF] @ header_text fs @ ys"
    using F(3,4) by (simp_all add: m_def p_def)
  then obtain ys where "drop p m = line @ [CR, LF] @ header_text fs @ ys"
    by blast
  from http_header_tok_first [OF req(2) this p req(3)]
  show "http_header_tok m (Some p) None = Ret (int (length line), \<lparr>chunk_p = Some p, chunk_len = of_nat (length line)\<rparr>,
       Some (p + length line + 2), WSD_CHECKERRNO)" .
qed

text \<open>A legal request is read up to the checks of its fields.\<close>

lemma http_recv_reads:
  assumes k: "heap w s = Some k" "skb_wf (sk_recvbuf k)"
    and req: "pending (sk_recvbuf k) = request_text targ fs @ extra" "legal_target targ" "\<forall>nv \<in> set fs. legal_field nv"
  shows "\<exists>req1. shows_header (skb_data (sk_recvbuf k)) req1 (add_fields fs Map.empty) \<and> http_recv digest w s
    = check_fields digest (skb_data (sk_recvbuf k)) (w\<lparr>wsd_errno := WSD_CHECKERRNO\<rparr>) s k req1"
proof -
  let ?line = "request_line targ" and ?m = "skb_data (sk_recvbuf k)" and ?p = "unat (rdpos (sk_recvbuf k))"
  have l31: "length ?line < 2 ^ 31"
    using req(2) by (simp add: request_line_def legal_target_def)
  have "pending (sk_recvbuf k) = ?line @ [CR, LF] @ header_text fs @ extra"
    using req(1) by (simp add: request_text_def)
  note F = http_recv_first_line [OF k this request_line_legal [OF req(2)] l31]
  define m where "m = ?m"
  define p where "p = ?p"
  note F = F [folded m_def p_def]
  let ?tok = "\<lparr>chunk_p = Some p, chunk_len = of_nat (length ?line)\<rparr> :: chunk"
  define p1 where "p1 = p + length ?line + 2"
  obtain ys where d: "drop p m = ?line @ [CR, LF] @ header_text fs @ ys"
    using F(4) by blast
  have n: "unat (chunk_len ?tok) = length ?line"
    using l31 by (simp add: unat_of_nat_u32)
  have len: "p + length ?line + 2 + length (header_text fs @ ys) = length m"
    using arg_cong [OF d, of length] F(5) by simp
  define req0 where "req0 = null_http_req\<lparr>req_method := \<lparr>chunk_p = Some p, chunk_len = 3\<rparr>,
     req_target := \<lparr>chunk_p = Some (p + 4), chunk_len = of_nat (length targ)\<rparr>,
     req_http_ver := \<lparr>chunk_p = Some (p + 4), chunk_len = 8\<rparr>\<rparr>"
  have "chunk_p ?tok = Some p" "p + unat (chunk_len ?tok) \<le> length m" "take (unat (chunk_len ?tok)) (drop p m) = ?line"
    using len n by (simp_all add: d)
  from parse_request_line_accepts [OF this request_line_parts [OF req(2)], where req = null_http_req]
  have rl: "parse_request_line m (Some ?tok) null_http_req = Ret (0, req0, None)"
    by (simp add: req0_def add.commute)
  obtain abs where valid: "is_valid_req_line m req0 = Ret (True, req0\<lparr>req_is_uri_abs := abs\<rparr>)"
    using request_line_valid [OF req(2) d F(5), of req0] by (auto simp: req0_def)
  have "get_fld f (req0\<lparr>req_is_uri_abs := abs\<rparr>) = get_fld f null_http_req" for f
    by (cases f) (simp_all add: req0_def)
  then have s0: "shows_header m (req0\<lparr>req_is_uri_abs := abs\<rparr>) Map.empty"
    using shows_header_null [of m] by (simp add: shows_header_def)
  have dh: "drop p1 m = header_text fs @ ys" "p1 \<le> length m"
    using arg_cong [OF d, of "drop (length ?line + 2)"] len by (simp_all add: p1_def add.commute add.left_commute)
  obtain req1 q where loop: "header_loop m (Some p1) (req0\<lparr>req_is_uri_abs := abs\<rparr>)
      = Ret (0, req1, q, WSD_CHECKERRNO)" "shows_header m req1 (add_fields fs Map.empty)"
    using header_loop_start [OF dh req(3) s0] by blast
  have "http_recv digest w s = check_fields digest m (w\<lparr>wsd_errno := WSD_CHECKERRNO\<rparr>) s k req1"
    unfolding http_recv_def
    by (simp add: k(1) m_def [symmetric] p_def [symmetric] Let_def F(1,2) F(3) [folded p1_def] rl valid loop(1) set_errno_def)
  then show ?thesis
    using loop(2) unfolding m_def by blast
qed

lemma http_recv_run:
  assumes k: "heap w s = Some k" "registered w k" "skb_wf (sk_sendbuf k)" "skb_wf (sk_recvbuf k)"
      "decode_handshake (sk_proto k) = Some Ws_decode_handshake"
    and req: "pending (sk_recvbuf k) = request_text targ fs @ extra" "legal_target targ" "\<forall>nv \<in> set fs. legal_field nv"
    and h: "upgrade_header (add_fields fs Map.empty) key proto"
    and accepted: "\<forall>p. cfg_sec_ws_proto (wsd_cfg w) = Some p \<longrightarrow> proto = bytes p"
    and digest: "length (digest (key @ WS_GUID)) = 28"
    and room: "length (handshake_answer digest key proto) < room (sk_sendbuf k)"
  shows "\<exists>w' k' sb rb. http_recv digest w s = Ret (0, w') \<and> heap w' = (heap w)(s \<mapsto> k')
    \<and> k' = (ws_mode k)\<lparr>sk_sendbuf := sb, sk_recvbuf := rb, sk_events := sk_events k OR EPOLLOUT\<rparr>
    \<and> skb_wf sb \<and> pending sb = pending (sk_sendbuf k) @ handshake_answer digest key proto
    \<and> skb_wf rb \<and> pending rb = [] \<and> room rb = 1048576 \<and> registered w' k' \<and> same_globals w w'
    \<and> epoll w' = (epoll w)(sk_fd k \<mapsto> sk_events k')"
proof -
  let ?b = "sk_recvbuf k" and ?m = "skb_data (sk_recvbuf k)"
  obtain req1 where r: "shows_header ?m req1 (add_fields fs Map.empty)"
    "http_recv digest w s = check_fields digest ?m (w\<lparr>wsd_errno := WSD_CHECKERRNO\<rparr>) s k req1"
    using http_recv_reads [OF k(1,4) req] by blast
  obtain req2 req3 where checks: "is_valid_host_header_field req1"
    "is_valid_upgrade_header_field ?m req1 = Ret (True, req2, None)"
    "is_valid_connection_header_field ?m req2 = Ret (True, req3, None)"
    "\<forall>f. f \<noteq> F_upgrade \<longrightarrow> f \<noteq> F_conn \<longrightarrow> get_fld f req3 = get_fld f req1"
    using checks_pass [OF r(1) h] by blast
  have fields: "get_fld F_ver req3 = get_fld F_ver req1" "get_fld F_key req3 = get_fld F_key req1"
    "get_fld F_proto req3 = get_fld F_proto req1"
    using checks(4) by blast+
  have says: "header_says (add_fields fs Map.empty) F_ver (bytes ''13'')" "header_says (add_fields fs Map.empty) F_key key"
    "header_says (add_fields fs Map.empty) F_proto proto" "NUL \<notin> set key" "length key \<le> 27" "NUL \<notin> set proto"
    using h by (simp_all add: upgrade_header_def)
  have ft3: "field_text ?m (req_sec_ws_ver req3) (bytes ''13'')" "field_text ?m (req_sec_ws_key req3) key"
    "field_text ?m (req_sec_ws_proto req3) proto"
    using header_field_text [OF r(1) says(1)] header_field_text [OF r(1) says(2)]
      header_field_text [OF r(1) says(3)] fields by simp_all
  let ?k = "k\<lparr>sk_recvbuf := skb_reset ?b\<rparr>" and ?w = "(put_sk w s (k\<lparr>sk_recvbuf := skb_reset ?b\<rparr>))\<lparr>wsd_errno := WSD_CHECKERRNO\<rparr>"
  have wp: "put_sk (w\<lparr>wsd_errno := e\<rparr>) s k' = (put_sk w s k')\<lparr>wsd_errno := e\<rparr>" for e k'
    by (simp add: put_sk_def)
  have run: "http_recv digest w s = ws_decode_handshake digest ?w s req3"
    unfolding r(2) check_fields_def
    by (simp add: k(1,5) Let_def checks(1-3) set_errno_def call_decode_handshake_def wp)
  have rb: "skb_wf (skb_reset ?b)" "pending (skb_reset ?b) = []" "?m = skb_data (skb_reset ?b)"
    using skb_reset_ok [of ?b] skb_wfD(1) [OF k(4)] by (simp_all add: skb_reset_def)
  have "heap ?w s = Some ?k" "registered ?w ?k" "skb_wf (sk_sendbuf ?k)" "skb_wf (sk_recvbuf ?k)" "pending (sk_recvbuf ?k) = []"
    "?m = skb_data (sk_recvbuf ?k)"
    using k rb by (simp_all add: registered_def)
  from handshake_switches [OF this ft3(1,2) says(4,5) ft3(3) says(6), of digest] obtain w' k' sb r' where
    fin: "ws_decode_handshake digest ?w s req3 = Ret (0, w')" "heap w' = (heap ?w)(s \<mapsto> k')"
    "k' = (ws_mode ?k)\<lparr>sk_sendbuf := sb, sk_recvbuf := r', sk_events := sk_events ?k OR EPOLLOUT\<rparr>"
    "skb_wf sb" "pending sb = pending (sk_sendbuf ?k) @ handshake_answer digest key proto"
    "skb_wf r'" "pending r' = []" "room r' = 1048576" "registered w' k'" "same_globals ?w w'"
    "epoll w' = (epoll ?w)(sk_fd ?k \<mapsto> sk_events k')"
    using accepted digest room by auto
  have "k' = (ws_mode k)\<lparr>sk_sendbuf := sb, sk_recvbuf := r', sk_events := sk_events k OR EPOLLOUT\<rparr>"
    unfolding fin(3) by (simp add: ws_mode_def)
  moreover have "same_globals w w'"
    using fin(10) by (simp add: same_globals_def)
  moreover have "epoll w' = (epoll w)(sk_fd k \<mapsto> sk_events k')"
    using fin(11) by simp
  moreover have "heap w' = (heap w)(s \<mapsto> k')"
    using fin(2) by simp
  moreover have "pending sb = pending (sk_sendbuf k) @ handshake_answer digest key proto"
    using fin(5) by simp
  ultimately show ?thesis
    using run fin(1,4,6-9)
    by (intro exI [of _ w'] exI [of _ k'] exI [of _ sb] exI [of _ r'] conjI) (assumption | simp only:)+
qed

text \<open>
  C28: A well-formed upgrade request is accepted: GET, any target of legal characters, any legal
  header fields that name a host, offer \<open>websocket\<close> among the protocols of Upgrade and
  \<open>Upgrade\<close> among the options of Connection, carry version 13, a key and an acceptable
  subprotocol. The request is consumed, the client is in websocket mode, and exactly the 101
  answer with the digest of its key is queued behind what the send buffer holds.
\<close>

theorem http_recv_accepts:
  assumes k: "heap w s = Some k" "registered w k" "skb_wf (sk_sendbuf k)" "skb_wf (sk_recvbuf k)"
      "decode_handshake (sk_proto k) = Some Ws_decode_handshake"
    and req: "pending (sk_recvbuf k) = request_text targ fs @ extra" "legal_target targ" "\<forall>nv \<in> set fs. legal_field nv"
    and h: "upgrade_header (add_fields fs Map.empty) key proto"
    and accepted: "\<forall>p. cfg_sec_ws_proto (wsd_cfg w) = Some p \<longrightarrow> proto = bytes p"
    and digest: "length (digest (key @ WS_GUID)) = 28"
    and room: "length (handshake_answer digest key proto) < room (sk_sendbuf k)"
  shows "\<exists>w' k' sb rb. http_recv digest w s = Ret (0, w') \<and> heap w' = (heap w)(s \<mapsto> k')
    \<and> k' = (ws_mode k)\<lparr>sk_sendbuf := sb, sk_recvbuf := rb, sk_events := sk_events k OR EPOLLOUT\<rparr>
    \<and> skb_wf sb \<and> pending sb = pending (sk_sendbuf k) @ handshake_answer digest key proto
    \<and> skb_wf rb \<and> pending rb = [] \<and> room rb = 1048576 \<and> registered w' k' \<and> same_globals w w'
    \<and> epoll w' = (epoll w)(sk_fd k \<mapsto> sk_events k')"
  by (rule http_recv_run [where key = key and proto = proto and targ = targ and fs = fs and extra = extra]; fact assms)

definition demo_header :: "(u8 list \<times> u8 list) list" where
  "demo_header = [(bytes ''host'', bytes '' a''), (bytes ''Upgrade'', bytes '' WebSocket''),
     (bytes ''Connection'', bytes '' keep-alive, Upgrade''), (bytes ''Sec-WebSocket-Key'', bytes '' QQ==''),
     (bytes ''Sec-WebSocket-Version'', bytes ''13'')]"

lemma demo_header_ok:
  "\<forall>nv \<in> set demo_header. legal_field nv" "upgrade_header (add_fields demo_header Map.empty) (bytes ''QQ=='') []"
  "length (header_text demo_header) < 200"
proof -
  have "list_all (\<lambda>nv. list_all is_rfc7230_header_field (fst nv) \<and> list_all is_rfc7230_field_value (snd nv)) demo_header"
    by code_simp
  moreover have "\<forall>nv\<in>set demo_header. length (field_line nv) < 2 ^ 31"
    by (simp add: field_line_def demo_header_def)
  ultimately show "\<forall>nv \<in> set demo_header. legal_field nv"
    by (simp add: list_all_iff legal_field_def)
  show "length (header_text demo_header) < 200"
    by (simp add: header_text_def demo_header_def field_line_def)
  have f: "add_fields demo_header Map.empty F_host = Some (bytes '' a'')"
    "add_fields demo_header Map.empty F_upgrade = Some (bytes '' WebSocket'')"
    "add_fields demo_header Map.empty F_conn = Some (bytes '' keep-alive, Upgrade'')"
    "add_fields demo_header Map.empty F_ver = Some (bytes ''13'')"
    "add_fields demo_header Map.empty F_key = Some (bytes '' QQ=='')"
    "add_fields demo_header Map.empty F_proto = None"
    "NUL \<notin> set (bytes ''QQ=='')"
    by code_simp+
  have t: "tidy (bytes '' QQ=='') (bytes ''QQ=='')" "tidy (bytes '' WebSocket'') (bytes ''WebSocket'')"
    "tidy (bytes '' keep-alive'') (bytes ''keep-alive'')" "tidy (bytes '' Upgrade'') (bytes ''Upgrade'')"
    using tidy_blank [of "bytes ''QQ==''"] tidy_blank [of "bytes ''WebSocket''"]
      tidy_blank [of "bytes ''keep-alive''"] tidy_blank [of "bytes ''Upgrade''"]
    by (simp_all add: bytes_def is_blank_def)
  have "tidy (bytes ''13'') (bytes ''13'')"
    by (rule tidy_plain) (simp_all add: bytes_def is_blank_def)
  then have ver: "header_says (add_fields demo_header Map.empty) F_ver (bytes ''13'')"
    using f(4) by (auto simp: header_says_def)
  have c: "take (length ''websocket'') (map to_lower (bytes ''WebSocket'')) = map to_lower (bytes ''websocket'')"
    "take (length ''Upgrade'') (map to_lower (bytes ''Upgrade'')) = map to_lower (bytes ''Upgrade'')"
    "COMMA \<notin> set (bytes '' WebSocket'')" "COMMA \<notin> set (bytes '' keep-alive'')" "COMMA \<notin> set (bytes '' Upgrade'')"
    "bytes '' keep-alive, Upgrade'' = bytes '' keep-alive'' @ COMMA # bytes '' Upgrade''"
    by code_simp+
  have ne: "bytes '' WebSocket'' \<noteq> []" "bytes '' keep-alive'' \<noteq> []" "bytes '' Upgrade'' \<noteq> []"
    by (simp_all add: bytes_def)
  have "has_token ''websocket'' [(bytes '' WebSocket'', bytes ''WebSocket'')]"
    using c(1,3) t(2) ne by (simp del: length_0_conv list.size)
  then have up: "token_value ''websocket'' (bytes '' WebSocket'')"
    unfolding token_value_def by (intro exI [of _ "[(bytes '' WebSocket'', bytes ''WebSocket'')]"]) simp
  have "has_token ''Upgrade'' [(bytes '' keep-alive'', bytes ''keep-alive''), (bytes '' Upgrade'', bytes ''Upgrade'')]"
    using c(2,4,5) t(3,4) ne by (simp del: length_0_conv list.size)
  then have conn: "token_value ''Upgrade'' (bytes '' keep-alive, Upgrade'')"
    unfolding token_value_def
    by (intro exI [of _ "[(bytes '' keep-alive'', bytes ''keep-alive''), (bytes '' Upgrade'', bytes ''Upgrade'')]"]) (simp add: c(6))
  have "header_says (add_fields demo_header Map.empty) F_key (bytes ''QQ=='')"
    "header_says (add_fields demo_header Map.empty) F_proto []"
    using f(5,6) t(1) by (auto simp: header_says_def)
  then show "upgrade_header (add_fields demo_header Map.empty) (bytes ''QQ=='') []"
    using f(1-3,7) up conn ver by (simp add: upgrade_header_def) (simp add: bytes_def)
qed

definition demo_request :: "u8 list" where
  "demo_request = request_text (bytes ''/chat'') demo_header"

definition demo_http :: sk where
  "demo_http = zero_sk\<lparr>sk_fd := 7, sk_events := EPOLLIN, sk_recvbuf := skb_of demo_request,
     sk_proto := null_proto\<lparr>decode_handshake := Some Ws_decode_handshake\<rparr>,
     sk_ops := null_ops\<lparr>ops_recv := Some Http_recv\<rparr>\<rparr>"

definition demo_http_world :: world where
  "demo_http_world = (init_world default_cfg)\<lparr>heap := [1 \<mapsto> demo_http], epoll := [7 \<mapsto> EPOLLIN]\<rparr>"

theorem http_recv_accepts_witness:
  "\<exists>w' k'. http_recv (\<lambda>_. replicate 28 0x41) demo_http_world 1 = Ret (0, w') \<and> heap w' 1 = Some k'
     \<and> ops_recv (sk_ops k') = Some Ws_recv
     \<and> pending (sk_sendbuf k') = handshake_answer (\<lambda>_. replicate 28 0x41) (bytes ''QQ=='') []"
proof -
  have "length demo_request \<le> 1048576"
    using demo_header_ok(3) by (simp add: demo_request_def request_text_def request_line_def)
  then have rb: "skb_wf (sk_recvbuf demo_http)" "pending (sk_recvbuf demo_http) = request_text (bytes ''/chat'') demo_header @ []"
    by (simp_all add: demo_http_def skb_of_simps demo_request_def)
  have "list_all (\<lambda>c. is_rfc7230_start_line c \<and> c \<noteq> SP) (bytes ''/chat'')" "hd (bytes ''/chat'') \<noteq> 0x2a" "bytes ''/chat'' \<noteq> []"
    by code_simp+
  then have t: "legal_target (bytes ''/chat'')"
    by (auto simp: legal_target_def list_all_iff)
  have sb: "skb_wf (sk_sendbuf demo_http)" "pending (sk_sendbuf demo_http) = []" "room (sk_sendbuf demo_http) = 1048576"
    by (simp_all add: demo_http_def zero_sk_def)
  have k: "heap demo_http_world 1 = Some demo_http" "registered demo_http_world demo_http"
    "decode_handshake (sk_proto demo_http) = Some Ws_decode_handshake" "cfg_sec_ws_proto (wsd_cfg demo_http_world) = None"
    by (simp_all add: demo_http_world_def demo_http_def registered_def init_world_def default_cfg_def)
  obtain w' k' sb' r where r: "http_recv (\<lambda>_. replicate 28 0x41) demo_http_world 1 = Ret (0, w')"
    "heap w' = (heap demo_http_world)(1 \<mapsto> k')"
    "k' = (ws_mode demo_http)\<lparr>sk_sendbuf := sb', sk_recvbuf := r, sk_events := sk_events demo_http OR EPOLLOUT\<rparr>"
    "pending sb' = pending (sk_sendbuf demo_http) @ handshake_answer (\<lambda>_. replicate 28 0x41) (bytes ''QQ=='') []"
    using http_recv_accepts [OF k(1,2) sb(1) rb(1) k(3) rb(2) t demo_header_ok(1,2), of "\<lambda>_. replicate 28 0x41"] k(4) sb(3)
    by (auto simp: length_answer)
  then show ?thesis
    using sb(2) by (auto simp: ws_mode_def)
qed

subsection \<open>Requests that are refused\<close>

lemma length_HTTP_400: "length HTTP_400 = 47"
  by (simp add: HTTP_400_def)

lemma HTTP_400_no_NUL: "NUL \<notin> set HTTP_400"
  by code_simp

lemma skb_put_strn_text:
  assumes "skb_wf b" "NUL \<notin> set t" "length t \<le> room b" "length t < 2 ^ 32"
  shows "\<exists>b'. skb_put_strn b (t @ [NUL]) 0 (of_nat (length t)) = Ret (0, b') \<and> grew b b' t"
proof -
  obtain b' where b': "skb_put_mem b t = Ret b'" "grew b b' t"
    using skb_put_mem_grew [OF assms(1,3)] by blast
  have n: "unat (of_nat (length t) :: u64) = length t"
    using assms(4) by (simp add: unat_of_nat take_bit_nat_eq_self)
  have le: "room b \<le> 1048576"
    using skb_wfD(5) [OF assms(1)] by simp
  have "\<not> ucast (skb_wrsz b) < (of_nat (length t) :: u64)"
    using assms(3) n le by (simp add: word_less_nat_alt unsigned_ucast_eq room_def take_bit_nat_eq_self)
  moreover have tw: "takeWhile (\<lambda>c. c \<noteq> 0) t = t"
    using assms(2) by (auto simp: takeWhile_eq_all_conv)
  moreover have "strncpy_bytes (t @ [NUL]) 0 (length t) = Ret t"
    by (simp add: strncpy_bytes_def Let_def tw del: takeWhile_eq_all_conv)
  moreover have "ucast (of_nat (length t) :: u64) = (of_nat (length t) :: u32)"
    by (rule word_unat_eq_iff [THEN iffD2]) (use assms(4) n in \<open>simp add: unsigned_ucast_eq unat_of_nat_u32 take_bit_nat_eq_self\<close>)
  ultimately show ?thesis
    using b' n by (auto simp: skb_put_strn_def skb_put_mem_def outcome_simps)
qed

text \<open>The client after a refusal with the text \<open>t\<close>.\<close>

definition refused :: "world \<Rightarrow> ptr \<Rightarrow> sk \<Rightarrow> u8 list \<Rightarrow> world \<Rightarrow> bool" where
  "refused w s k t w' \<longleftrightarrow> (\<exists>k'. heap w' = (heap w)(s \<mapsto> k') \<and> wsd_errno w' = WSD_EBADREQ
     \<and> sk_close_on_write k' \<and> skb_wf (sk_sendbuf k') \<and> pending (sk_sendbuf k') = pending (sk_sendbuf k) @ t
     \<and> skb_wf (sk_recvbuf k') \<and> pending (sk_recvbuf k') = []
     \<and> sk_events k' = (sk_events k AND NOT EPOLLIN) OR EPOLLOUT \<and> registered w' k'
     \<and> sk_proto k' = sk_proto k \<and> sk_ops k' = sk_ops k \<and> sk_fd k' = sk_fd k \<and> sk_close_flag k' = sk_close_flag k
     \<and> same_globals w w' \<and> epoll w' = (epoll w)(sk_fd k \<mapsto> sk_events k'))"

lemma answer_reject:
  assumes k: "heap w s = Some k" "registered w k" "skb_wf (sk_sendbuf k)" "skb_wf (sk_recvbuf k)"
    and t: "NUL \<notin> set t" "length t \<le> room (sk_sendbuf k)" "length t < 2 ^ 32"
  shows "\<exists>w'. obind (answer w s t) (\<lambda>w. reject w s) = Ret (-1, w') \<and> refused w s k t w'"
proof -
  obtain b where b: "skb_put_strn (sk_sendbuf k) (t @ [NUL]) 0 (of_nat (length t)) = Ret (0, b)" "grew (sk_sendbuf k) b t"
    using skb_put_strn_text [OF k(3) t] by blast
  let ?k1 = "k\<lparr>sk_sendbuf := b, sk_close_on_write := True\<rparr>"
  let ?k2 = "?k1\<lparr>sk_recvbuf := skb_reset (sk_recvbuf k)\<rparr>"
  let ?w2 = "(put_sk w s ?k2)\<lparr>wsd_errno := WSD_EBADREQ\<rparr>"
  have ans: "answer w s t = Ret (put_sk w s ?k1)"
    using k(1) b(1) by (simp add: answer_def)
  have w2: "heap ?w2 s = Some ?k2" "registered ?w2 ?k2"
    using k(2) by (simp_all add: registered_def)
  let ?ev = "sk_events k AND NOT EPOLLIN"
  let ?w3 = "set_events ?w2 s ?k2 ?ev" and ?k3 = "?k2\<lparr>sk_events := ?ev\<rparr>"
  have off: "turn_off_events ?w2 s EPOLLIN = Ret ?w3"
    using turn_off_events_ok [OF w2, of EPOLLIN] by simp
  have w3: "heap ?w3 s = Some ?k3" "registered ?w3 ?k3"
    by (simp_all add: registered_def)
  have on: "ensure_events ?w3 s EPOLLOUT = Ret (set_events ?w3 s ?k3 (?ev OR EPOLLOUT))"
    using ensure_events_ok [OF w3, of EPOLLOUT] by simp
  have "obind (answer w s t) (\<lambda>w. reject w s) = Ret (-1, set_events ?w3 s ?k3 (?ev OR EPOLLOUT))"
    using ans off on by (simp add: reject_def)
  moreover have "refused w s k t (set_events ?w3 s ?k3 (?ev OR EPOLLOUT))"
    using b(2) skb_reset_ok [of "sk_recvbuf k"] skb_wfD(1) [OF k(4)]
    unfolding refused_def
    by (intro exI [of _ "?k3\<lparr>sk_events := ?ev OR EPOLLOUT\<rparr>"]) (simp add: registered_def grew_def same_globals_def)
  ultimately show ?thesis by blast
qed

text \<open>
  The client after a request that got no answer: what it has sent is gone, and the caller is to
  close it.
\<close>

definition dropped :: "world \<Rightarrow> ptr \<Rightarrow> sk \<Rightarrow> world \<Rightarrow> bool" where
  "dropped w s k w' \<longleftrightarrow>
     w' = (put_sk w s (k\<lparr>sk_recvbuf := skb_reset (sk_recvbuf k)\<rparr>))\<lparr>wsd_errno := WSD_EBADREQ\<rparr>"

definition turned_away :: "bool \<Rightarrow> world \<Rightarrow> ptr \<Rightarrow> sk \<Rightarrow> world \<Rightarrow> bool" where
  "turned_away answered w s k w' \<longleftrightarrow>
     (if answered \<and> length HTTP_400 \<le> room (sk_sendbuf k) then refused w s k HTTP_400 w'
      else sk_close_on_write k \<or> dropped w s k w')"

lemma reject_drops:
  assumes k: "heap w s = Some k" "registered w k"
  shows "\<exists>w'. reject w s = Ret (-1, w') \<and> (sk_close_on_write k \<or> dropped w s k w')"
proof -
  let ?k = "k\<lparr>sk_recvbuf := skb_reset (sk_recvbuf k)\<rparr>"
  let ?w = "(put_sk w s ?k)\<lparr>wsd_errno := WSD_EBADREQ\<rparr>"
  have w: "heap ?w s = Some ?k" "registered ?w ?k"
    using k(2) by (simp_all add: registered_def)
  let ?ev = "sk_events k AND NOT EPOLLIN"
  let ?w3 = "set_events ?w s ?k ?ev" and ?k3 = "?k\<lparr>sk_events := ?ev\<rparr>"
  have off: "turn_off_events ?w s EPOLLIN = Ret ?w3"
    using turn_off_events_ok [OF w, of EPOLLIN] by simp
  have w3: "heap ?w3 s = Some ?k3" "registered ?w3 ?k3"
    by (simp_all add: registered_def)
  have "ensure_events ?w3 s EPOLLOUT = Ret (set_events ?w3 s ?k3 (?ev OR EPOLLOUT))"
    using ensure_events_ok [OF w3, of EPOLLOUT] by simp
  then show ?thesis
    using k(1) off by (cases "sk_close_on_write k") (simp_all add: reject_def dropped_def)
qed

lemma bad_request_run:
  assumes k: "heap w s = Some k" "registered w k" "skb_wf (sk_sendbuf k)" "skb_wf (sk_recvbuf k)"
    and w0: "w0 = w\<lparr>wsd_errno := e\<rparr>"
  shows "\<exists>w'. bad_request w0 s = Ret (-1, w') \<and> turned_away True w s k w'"
proof -
  have live: "heap w0 s = Some k" "registered w0 k"
    using k(1,2) by (simp_all add: registered_def w0)
  have small: "length HTTP_400 < 2 ^ 32"
    by (simp add: length_HTTP_400)
  show ?thesis
  proof (cases "length HTTP_400 \<le> room (sk_sendbuf k)")
    case True
    from answer_reject [OF live k(3,4) HTTP_400_no_NUL this small] obtain w' where
      "bad_request w0 s = Ret (-1, w')" "refused w0 s k HTTP_400 w'"
      by (auto simp: bad_request_def)
    then show ?thesis
      using True by (auto simp: turned_away_def refused_def w0 same_globals_def)
  next
    case False
    then have "unat (ucast (skb_wrsz (sk_sendbuf k)) :: u64) < unat (of_nat (length HTTP_400) :: u64)"
      using small unat_u32_less [of "skb_wrsz (sk_sendbuf k)"]
      by (simp add: room_def unsigned_ucast_eq unat_of_nat take_bit_nat_eq_self)
    then have "skb_put_strn (sk_sendbuf k) (HTTP_400 @ [NUL]) 0 (of_nat (length HTTP_400)) = Ret (-1, sk_sendbuf k)"
      by (simp add: skb_put_strn_def word_less_nat_alt)
    then have "answer w0 s HTTP_400 = Ret (put_sk w0 s k)"
      using live(1) by (simp add: answer_def)
    moreover have "put_sk w0 s k = w0"
      using live(1) by (simp add: put_sk_def fun_upd_idem)
    moreover obtain w' where "reject w0 s = Ret (-1, w')" "sk_close_on_write k \<or> dropped w0 s k w'"
      using reject_drops [OF live] by blast
    ultimately show ?thesis
      using False by (auto simp: bad_request_def turned_away_def dropped_def w0 put_sk_def)
  qed
qed

lemma http_recv_bad_line:
  assumes k: "heap w s = Some k" "registered w k" "skb_wf (sk_sendbuf k)" "skb_wf (sk_recvbuf k)"
    and req: "pending (sk_recvbuf k) = line @ [CR, LF] @ header_text fs @ extra"
      "\<forall>c \<in> set line. is_rfc7230_start_line c" "length line < 2 ^ 31"
    and bad: "\<nexists>meth targ. accepted_request_line line meth targ"
  shows "\<exists>w'. http_recv digest w s = Ret (-1, w') \<and> turned_away True w s k w'"
proof -
  note F = http_recv_first_line [OF k(1,4) req]
  let ?m = "skb_data (sk_recvbuf k)" and ?p = "unat (rdpos (sk_recvbuf k))"
  let ?tok = "\<lparr>chunk_p = Some ?p, chunk_len = of_nat (length line)\<rparr> :: chunk"
  obtain ys where d: "drop ?p ?m = line @ [CR, LF] @ header_text fs @ ys"
    using F(4) by blast
  have n: "unat (chunk_len ?tok) = length line"
    using req(3) by (simp add: unat_of_nat_u32)
  have len: "?p + length line \<le> length ?m"
    using arg_cong [OF d, of length] F(5) by (simp only: length_drop length_append)
  have "chunk_p ?tok = Some ?p" "?p + unat (chunk_len ?tok) \<le> length ?m" "take (unat (chunk_len ?tok)) (drop ?p ?m) = line"
    using len n by (simp_all add: d)
  from parse_request_line_rejects [OF this bad, of null_http_req] obtain req' e where
    rl: "parse_request_line ?m (Some ?tok) null_http_req = Ret (-1, req', Some e)"
    by blast
  let ?w = "w\<lparr>wsd_errno := e\<rparr>"
  have "http_recv digest w s = bad_request ?w s"
    unfolding http_recv_def by (simp add: k(1) Let_def F(1-3) rl set_errno_def)
  then show ?thesis
    using bad_request_run [OF k refl, of e] by simp
qed

text \<open>A header without one of the three fields the program insists on.\<close>

definition lacks_field :: "header \<Rightarrow> bool" where
  "lacks_field h \<longleftrightarrow> h F_host \<in> {None, Some []} \<or> h F_upgrade \<in> {None, Some []}
     \<or> (\<exists>v. h F_upgrade = Some v \<and> token_value ''websocket'' v)
       \<and> h F_conn \<in> {None, Some []} \<and> h F_conn2 \<in> {None, Some []}"

lemma upgrade_loop_none: "chunk_len c = 0 \<Longrightarrow> upgrade_loop m c = Ret (False, c, Some WSD_EINPUT)"
  by (subst upgrade_loop.simps) (simp add: http_field_value_tok_def)

lemma upgrade_value_ok:
  assumes h: "shows_header m req h" and v: "h F_upgrade = Some v" "token_value ''websocket'' v"
  shows "\<exists>c. upgrade_loop m (req_upgrade req) = Ret (True, c, None)"
proof -
  obtain es where es: "has_token ''websocket'' es" "v = join_comma (map fst es)"
    using v(2) by (auto simp: token_value_def)
  obtain rest where "chunk_at m (req_upgrade req) (join_comma (map fst es)) (CR # LF # rest)"
    using h v(1) es(2) by (auto simp: shows_header_def dest!: spec [of _ F_upgrade])
  from upgrade_loop_ok [OF es(1) this] show ?thesis by blast
qed

lemma check_fields_refuses:
  assumes h: "shows_header m req h" "lacks_field h"
  shows "\<exists>e. check_fields digest m w s k req = bad_request (set_errno e w) s"
proof -
  have len0: "h f \<in> {None, Some []} \<Longrightarrow> chunk_len (get_fld f req) = 0" for f
    using shows_header_len [OF h(1), of f] by auto
  consider "chunk_len (req_host req) = 0" | "chunk_len (req_host req) \<noteq> 0" "chunk_len (req_upgrade req) = 0"
    | c where "chunk_len (req_host req) \<noteq> 0" "upgrade_loop m (req_upgrade req) = Ret (True, c, None)"
      "chunk_len (req_conn req) = 0" "chunk_len (req_conn2 req) = 0"
    using h(2) len0 [of F_host] len0 [of F_upgrade] len0 [of F_conn] len0 [of F_conn2] upgrade_value_ok [OF h(1)]
    unfolding lacks_field_def by auto
  then show ?thesis
  proof cases
    case 1
    then show ?thesis
      by (intro exI [of _ None]) (simp add: check_fields_def is_valid_host_header_field_def set_errno_def)
  next
    case 2
    then show ?thesis
      by (intro exI [of _ "Some WSD_EINPUT"])
        (simp add: check_fields_def is_valid_host_header_field_def is_valid_upgrade_header_field_def upgrade_loop_none set_errno_def)
  next
    case 3
    then show ?thesis
      by (intro exI [of _ "Some WSD_EINPUT"])
        (simp add: check_fields_def is_valid_host_header_field_def is_valid_upgrade_header_field_def
          is_valid_connection_header_field_def tokenise_connection_none set_errno_def Let_def)
  qed
qed

lemma http_recv_lacks:
  assumes k: "heap w s = Some k" "registered w k" "skb_wf (sk_sendbuf k)" "skb_wf (sk_recvbuf k)"
    and req: "pending (sk_recvbuf k) = request_text targ fs @ extra" "legal_target targ" "\<forall>nv \<in> set fs. legal_field nv"
    and h: "lacks_field (add_fields fs Map.empty)"
  shows "\<exists>w'. http_recv digest w s = Ret (-1, w') \<and> turned_away True w s k w'"
proof -
  let ?w = "w\<lparr>wsd_errno := WSD_CHECKERRNO\<rparr>"
  obtain req1 where r: "shows_header (skb_data (sk_recvbuf k)) req1 (add_fields fs Map.empty)"
    "http_recv digest w s = check_fields digest (skb_data (sk_recvbuf k)) ?w s k req1"
    using http_recv_reads [OF k(1,4) req] by blast
  obtain e where e: "http_recv digest w s = bad_request (set_errno e ?w) s"
    using check_fields_refuses [OF r(1) h] r(2) by metis
  have "set_errno e ?w = w\<lparr>wsd_errno := (case e of None \<Rightarrow> WSD_CHECKERRNO | Some x \<Rightarrow> x)\<rparr>"
    by (cases e) (simp_all add: set_errno_def)
  from bad_request_run [OF k this] show ?thesis
    by (simp only: e)
qed

text \<open>
  A first line that is parsed but not valid: a method of three letters other than GET, or the
  target \<open>*\<close> or none. No other method is looked at.
\<close>

definition bad_request_line :: "u8 list \<Rightarrow> u8 list \<Rightarrow> bool" where
  "bad_request_line meth targ \<longleftrightarrow> length meth = 3 \<and> meth \<noteq> bytes ''GET'' \<or> targ \<in> {[], bytes ''*''}"

lemma strn_eq_text:
  "drop p m = t @ rest \<Longrightarrow> p \<le> length m \<Longrightarrow> length t = length lit
    \<Longrightarrow> strn_eq (\<lambda>c. c) m p lit (length lit) = Ret (t = lit)"
proof (induction lit arbitrary: p t)
  case (Cons l ls)
  then obtain c cs where t: "t = c # cs" "length cs = length ls"
    by (cases t) auto
  have p: "p < length m"
    using Cons.prems(1,2) t(1) by (cases "p = length m") auto
  then have "m ! p = c" and "drop (Suc p) m = cs @ rest"
    using Cons.prems(1) t(1) by (auto simp: Cons_nth_drop_Suc [symmetric])
  then show ?case
    using Cons.IH [of "Suc p" cs] p t by simp
qed simp

lemma bad_request_line_invalid:
  assumes d: "drop p m = meth @ SP # targ @ SP # rest" "p \<le> length m" and bad: "bad_request_line meth targ"
    and l: "length meth < 2 ^ 31" "length targ < 2 ^ 31"
    and r: "req_method r = \<lparr>chunk_p = Some p, chunk_len = of_nat (length meth)\<rparr>"
      "req_target r = \<lparr>chunk_p = Some (p + length meth + 1), chunk_len = of_nat (length targ)\<rparr>"
  shows "is_valid_req_line m r = Ret (False, r)"
proof -
  have n: "unat (of_nat (length meth) :: u32) = length meth" "unat (of_nat (length targ) :: u32) = length targ"
    using l by (simp_all add: unat_of_nat_u32)
  then have three: "(of_nat (length meth) :: u32) = 3 \<longleftrightarrow> length meth = 3"
    by (auto simp: word_unat_eq_iff)
  have get: "chunk_strncmp m (req_method r) ''GET'' 3 = Ret (meth = bytes ''GET'')" if "length meth = 3"
    using strn_eq_text [OF d, of "bytes ''GET''"] that
    by (simp add: r(1) chunk_strncmp_def chunk_eq_def numeral_3_eq_3)
  have len: "p + length meth + 1 \<le> length m"
    using arg_cong [OF d(1), of length] d(2) by simp
  have "drop (p + length meth + 1) m = targ @ SP # rest"
    using arg_cong [OF d(1), of "drop (length meth + 1)"] by (simp add: add.commute add.left_commute)
  from strn_eq_text [OF this len, of "bytes ''*''"]
  have "chunk_strncmp m (req_target r) ''*'' (length targ) = Ret True" if "targ \<in> {[], bytes ''*''}"
    using that by (auto simp: r(2) chunk_strncmp_def chunk_eq_def bytes_def)
  moreover have "chunk_len (req_method r) = of_nat (length meth)" "chunk_len (req_target r) = of_nat (length targ)"
    by (simp_all add: r)
  ultimately show ?thesis
    using bad get unfolding bad_request_line_def is_valid_req_line_def
    by (cases "length meth = 3"; cases "targ \<in> {[], bytes ''*''}") (simp_all add: n three)
qed

lemma http_recv_invalid_line:
  assumes k: "heap w s = Some k" "registered w k" "skb_wf (sk_sendbuf k)" "skb_wf (sk_recvbuf k)"
    and req: "pending (sk_recvbuf k) = line @ [CR, LF] @ header_text fs @ extra"
      "\<forall>c \<in> set line. is_rfc7230_start_line c" "length line < 2 ^ 31"
    and bad: "accepted_request_line line meth targ" "bad_request_line meth targ"
  shows "\<exists>w'. http_recv digest w s = Ret (-1, w') \<and> turned_away True w s k w'"
proof -
  note F = http_recv_first_line [OF k(1,4) req]
  let ?m = "skb_data (sk_recvbuf k)" and ?p = "unat (rdpos (sk_recvbuf k))"
  let ?tok = "\<lparr>chunk_p = Some ?p, chunk_len = of_nat (length line)\<rparr> :: chunk"
  obtain ys where d: "drop ?p ?m = line @ [CR, LF] @ header_text fs @ ys"
    using F(4) by blast
  have n: "unat (chunk_len ?tok) = length line"
    using req(3) by (simp add: unat_of_nat_u32)
  have len: "?p + length line \<le> length ?m"
    using arg_cong [OF d, of length] F(5) by (simp only: length_drop length_append)
  have "chunk_p ?tok = Some ?p" "?p + unat (chunk_len ?tok) \<le> length ?m" "take (unat (chunk_len ?tok)) (drop ?p ?m) = line"
    using len n by (simp_all add: d)
  note rl = parse_request_line_accepts [OF this bad(1), of null_http_req]
  have parts: "line = meth @ SP # targ @ SP # bytes ''HTTP/1.1''"
    using bad(1) by (simp add: accepted_request_line_def)
  have dm: "drop ?p ?m = meth @ SP # targ @ SP # (bytes ''HTTP/1.1'' @ [CR, LF] @ header_text fs @ ys)"
    unfolding d parts by simp
  have l: "length meth < 2 ^ 31" "length targ < 2 ^ 31"
    using req(3) by (simp_all add: parts)
  have "http_recv digest w s = bad_request (w\<lparr>wsd_errno := WSD_CHECKERRNO\<rparr>) s"
    unfolding http_recv_def
    by (simp add: k(1) Let_def F(1-3) rl set_errno_def bad_request_line_invalid [OF dm F(5) bad(2) l])
  then show ?thesis
    using bad_request_run [OF k refl, of WSD_CHECKERRNO] by simp
qed

text \<open>A byte outside the class of the first line: the tokeniser fails and there is no answer.\<close>

lemma http_header_tok_bad_byte:
  assumes d: "drop p m = pre @ c # e # ys" "p \<le> length m" "\<forall>x \<in> set pre. is_rfc7230_start_line x"
    and c: "\<not> is_rfc7230_start_line c" "[c, e] \<noteq> [CR, LF]"
  shows "http_header_tok m (Some p) prev = Ret (-1, null_chunk, None, WSD_ECHAR)"
proof -
  have len: "length m = p + length pre + 2 + length ys"
    using drop_len [OF d(1,2)] by simp
  have "scan_past is_rfc7230_start_line m p = Ret (p + length pre + 1)"
    using scan_past_run [of p m pre c "e # ys"] d c(1) by simp
  moreover have d2: "drop (p + length pre) m = [c, e] @ ys"
    using arg_cong [OF d(1), of "drop (length pre)"] by (simp add: add.commute)
  then have "mem_read m (p + length pre) 2 = Ret [c, e]"
    using mem_read_run [OF d2] len by (simp add: numeral_2_eq_2)
  ultimately show ?thesis
    using c(2) by (simp add: http_header_tok_def of_le_eq_CRLF Let_def del: of_le.simps)
qed

lemma http_recv_bad_byte:
  assumes k: "heap w s = Some k" "registered w k" "skb_wf (sk_recvbuf k)"
    and req: "pending (sk_recvbuf k) = line @ [CR, LF] @ header_text fs @ extra" "\<nexists>xs ys. line = xs @ [CR, LF] @ ys"
    and bad: "\<not> (\<forall>c \<in> set line. is_rfc7230_start_line c)"
  shows "\<exists>w'. http_recv digest w s = Ret (-1, w') \<and> turned_away False w s k w'"
proof -
  let ?m = "skb_data (sk_recvbuf k)" and ?p = "unat (rdpos (sk_recvbuf k))"
  note F = http_recv_arrived [OF k(1,3) req(1)]
  obtain pre c post where split: "line = pre @ c # post" "\<not> is_rfc7230_start_line c" "\<forall>x \<in> set pre. is_rfc7230_start_line x"
    using bad split_list_first_prop [of line "\<lambda>c. \<not> is_rfc7230_start_line c"] by blast
  obtain ys where ys: "drop ?p ?m = line @ [CR, LF] @ header_text fs @ ys"
    using F(3) by blast
  obtain e zs where e: "post @ [CR, LF] @ header_text fs @ ys = e # zs" "[c, e] \<noteq> [CR, LF]"
  proof (cases post)
    case Nil
    then show thesis
      by (intro that [of CR "LF # header_text fs @ ys"]) simp_all
  next
    case (Cons x xs)
    then have "[c, x] \<noteq> [CR, LF]"
      using req(2) split(1) by auto
    then show thesis
      using Cons by (intro that [of x "xs @ [CR, LF] @ header_text fs @ ys"]) simp_all
  qed
  have "drop ?p ?m = pre @ c # e # zs"
    using e(1) unfolding ys split(1) by simp
  from http_header_tok_bad_byte [OF this F(4) split(3,2) e(2)]
  have tok: "http_header_tok ?m (Some ?p) None = Ret (-1, null_chunk, None, WSD_ECHAR)" .
  let ?w = "w\<lparr>wsd_errno := WSD_ECHAR\<rparr>"
  have "http_recv digest w s = reject ?w s"
    unfolding http_recv_def by (simp add: k(1) Let_def F(1,2) tok)
  moreover have "heap ?w s = Some k" "registered ?w k"
    using k(1,2) by (simp_all add: registered_def)
  ultimately show ?thesis
    using reject_drops [of ?w s k] by (auto simp: turned_away_def dropped_def put_sk_def)
qed

text \<open>
  The requests the program refuses: with a first line it does not accept or finds invalid, or
  well-formed but without one of the fields it insists on.
\<close>

definition refusable :: "u8 list \<Rightarrow> (u8 list \<times> u8 list) list \<Rightarrow> bool" where
  "refusable line fs \<longleftrightarrow> (\<nexists>meth targ. accepted_request_line line meth targ)
     \<or> (\<exists>meth targ. accepted_request_line line meth targ \<and> bad_request_line meth targ)
     \<or> (\<exists>targ. line = request_line targ \<and> legal_target targ \<and> (\<forall>nv \<in> set fs. legal_field nv)
          \<and> lacks_field (add_fields fs Map.empty))"

lemma http_recv_refuses:
  assumes k: "heap w s = Some k" "registered w k" "skb_wf (sk_sendbuf k)" "skb_wf (sk_recvbuf k)"
    and req: "pending (sk_recvbuf k) = line @ [CR, LF] @ header_text fs @ extra"
      "\<nexists>xs ys. line = xs @ [CR, LF] @ ys" "length line < 2 ^ 31"
    and bad: "\<not> (\<forall>c \<in> set line. is_rfc7230_start_line c) \<or> refusable line fs"
  shows "\<exists>w'. http_recv digest w s = Ret (-1, w') \<and> turned_away (\<forall>c \<in> set line. is_rfc7230_start_line c) w s k w'"
proof (cases "\<forall>c \<in> set line. is_rfc7230_start_line c")
  case False
  then show ?thesis
    using http_recv_bad_byte [OF k(1,2,4) req(1,2) False] by (simp only: if_False)
next
  case True
  have "refusable line fs"
    using bad True by blast
  then have "\<exists>w'. http_recv digest w s = Ret (-1, w') \<and> turned_away True w s k w'"
    unfolding refusable_def
  proof (elim disjE)
    assume "\<nexists>meth targ. accepted_request_line line meth targ"
    from http_recv_bad_line [OF k req(1) True req(3) this] show ?thesis .
  next
    assume "\<exists>meth targ. accepted_request_line line meth targ \<and> bad_request_line meth targ"
    then show ?thesis
      using http_recv_invalid_line [OF k req(1) True req(3)] by blast
  next
    assume "\<exists>targ. line = request_line targ \<and> legal_target targ \<and> (\<forall>nv \<in> set fs. legal_field nv)
      \<and> lacks_field (add_fields fs Map.empty)"
    then show ?thesis
      using http_recv_lacks [OF k] req(1) by (auto simp: request_text_def)
  qed
  then show ?thesis
    using True by simp
qed

text \<open>
  C30: A request that is not accepted. Whatever follows it, when its first line has only the
  bytes the tokeniser knows and is no request line for the parser, or has a method of three
  letters other than GET or the target \<open>*\<close> or none, or when a legal GET request has no Host, no
  Upgrade or no Connection field, exactly the 400 answer is queued, if it fits: the socket is
  marked to be closed once it is written, nothing received is kept, no more input is awaited but
  EPOLLOUT is, and the caller sees WSD_EBADREQ. When the first line has any other byte, or
  the answer does not fit, nothing is queued: the caller sees WSD_EBADREQ on a socket that is
  not marked, whose receive buffer is empty and which is otherwise as before.
\<close>

theorem http_recv_rejects:
  assumes k: "heap w s = Some k" "registered w k" "skb_wf (sk_sendbuf k)" "skb_wf (sk_recvbuf k)"
      "\<not> sk_close_on_write k"
    and req: "pending (sk_recvbuf k) = line @ [CR, LF] @ header_text fs @ extra"
      "\<nexists>xs ys. line = xs @ [CR, LF] @ ys" "length line < 2 ^ 31"
    and bad: "\<not> (\<forall>c \<in> set line. is_rfc7230_start_line c) \<or> refusable line fs"
  shows "\<exists>w'. http_recv digest w s = Ret (-1, w')
    \<and> (if (\<forall>c \<in> set line. is_rfc7230_start_line c) \<and> length HTTP_400 \<le> room (sk_sendbuf k)
       then refused w s k HTTP_400 w' else dropped w s k w')"
  using http_recv_refuses [OF k(1-4) req bad, of digest] k(5) by (simp only: turned_away_def simp_thms)

definition demo_bad_http :: sk where
  "demo_bad_http = demo_http\<lparr>sk_recvbuf := skb_of (bytes ''PUT / HTTP/1.1'' @ [CR, LF] @ header_text [])\<rparr>"

lemma demo_bad_line:
  "\<forall>c \<in> set (bytes ''PUT / HTTP/1.1''). is_rfc7230_start_line c"
  "\<nexists>xs ys. bytes ''PUT / HTTP/1.1'' = xs @ [CR, LF] @ ys" "refusable (bytes ''PUT / HTTP/1.1'') fs"
proof -
  have c: "list_all is_rfc7230_start_line (bytes ''PUT / HTTP/1.1'')" "list_all is_upper (bytes ''PUT'')"
    by code_simp+
  then show "\<forall>c \<in> set (bytes ''PUT / HTTP/1.1''). is_rfc7230_start_line c"
    by (simp add: list_all_iff)
  then show "\<nexists>xs ys. bytes ''PUT / HTTP/1.1'' = xs @ [CR, LF] @ ys"
    using not_CR(1) by (metis in_set_conv_decomp append_Cons)
  have "accepted_request_line (bytes ''PUT / HTTP/1.1'') (bytes ''PUT'') (bytes ''/'')"
    using c(2) by (simp add: accepted_request_line_def bytes_def)
  moreover have "bad_request_line (bytes ''PUT'') (bytes ''/'')"
    by (simp add: bad_request_line_def bytes_def)
  ultimately show "refusable (bytes ''PUT / HTTP/1.1'') fs"
    unfolding refusable_def by blast
qed

theorem http_recv_rejects_witness:
  "\<exists>w'. http_recv (\<lambda>_. []) (demo_http_world\<lparr>heap := [1 \<mapsto> demo_bad_http]\<rparr>) 1 = Ret (-1, w')
     \<and> refused (demo_http_world\<lparr>heap := [1 \<mapsto> demo_bad_http]\<rparr>) 1 demo_bad_http HTTP_400 w'"
proof -
  let ?w = "demo_http_world\<lparr>heap := [1 \<mapsto> demo_bad_http]\<rparr>"
  have rb: "skb_wf (sk_recvbuf demo_bad_http)"
    "pending (sk_recvbuf demo_bad_http) = bytes ''PUT / HTTP/1.1'' @ [CR, LF] @ header_text [] @ []"
    by (simp_all add: demo_bad_http_def skb_of_simps bytes_def header_text_def)
  have sb: "skb_wf (sk_sendbuf demo_bad_http)" "length HTTP_400 \<le> room (sk_sendbuf demo_bad_http)"
    "\<not> sk_close_on_write demo_bad_http"
    by (simp_all add: demo_bad_http_def demo_http_def zero_sk_def length_HTTP_400)
  have k: "heap ?w 1 = Some demo_bad_http" "registered ?w demo_bad_http"
    by (simp_all add: demo_http_world_def demo_bad_http_def demo_http_def registered_def)
  have len: "length (bytes ''PUT / HTTP/1.1'') < 2 ^ 31"
    by (simp add: bytes_def)
  show ?thesis
    using http_recv_rejects [OF k sb(1) rb(1) sb(3) rb(2) demo_bad_line(2) len disjI2 [OF demo_bad_line(3)], of "\<lambda>_. []"]
      sb(2) demo_bad_line(1) by simp
qed

text \<open>
  RFC 6455 wants GET, but only methods of three letters are compared with it: the request line
  of a POST, or one without any method, passes both checks.
\<close>

lemma other_methods_pass:
  fixes line :: "u8 list"
  assumes "line \<in> {bytes ''POST / HTTP/1.1'', bytes '' / HTTP/1.1''}"
  shows "\<exists>req req'. parse_request_line (line @ [CR, LF]) (Some \<lparr>chunk_p = Some 0, chunk_len = of_nat (length line)\<rparr>) null_http_req
      = Ret (0, req, None) \<and> is_valid_req_line (line @ [CR, LF]) req = Ret (True, req')"
proof -
  have run: "obind (parse_request_line (l @ [CR, LF]) (Some \<lparr>chunk_p = Some 0, chunk_len = of_nat (length l)\<rparr>) null_http_req)
    (\<lambda>(rv, req, e). obind (is_valid_req_line (l @ [CR, LF]) req) (\<lambda>(ok, req'). Ret (rv, e, ok))) = Ret (0, None, True)"
    if "l = bytes ''POST / HTTP/1.1'' \<or> l = bytes '' / HTTP/1.1''" for l
    using that by (elim disjE; hypsubst; code_simp)
  show ?thesis
    using run [of line] assms by (auto simp: outcome_simps)
qed

end
