(* ===== verification/Receive.thy ===== *)
theory Receive
  imports Handshake
begin

text \<open>
  The receive handlers of wsd: \<open>ws_recv\<close> and \<open>sk_open\<close> (src/ws_wsd.c), \<open>pp2_recv\<close> and
  \<open>pp2_close\<close> (src/pp2.c). \<open>ws_recv\<close> opens the connection to the backend on the first
  frame of the first client and then decodes all frames that have arrived.
\<close>

subsection \<open>Opening the connection to the backend\<close>

text \<open>
  How the system answers one call of \<open>sk_open\<close>: the cell \<open>malloc\<close> returns, the descriptor of
  \<open>socket\<close>, the return value of \<open>getaddrinfo\<close> and which of the addresses it delivers are
  \<open>AF_INET\<close>, the error of \<open>connect\<close> if it returns -1, and whether \<open>sk_init\<close> finds memory.
\<close>

record dial =
  dial_ptr :: "ptr option"
  dial_fd :: int
  dial_gai :: "string \<Rightarrow> string \<Rightarrow> int"
  dial_inet :: "bool list"
  dial_connect :: "sys_err option"
  dial_mem :: bool

text \<open>\<open>while (res->ai_next) { if (AF_INET == res->ai_family) break; res = res->ai_next; }\<close>\<close>

fun pick_inet :: "bool list \<Rightarrow> bool outcome" where
  "pick_inet [] = Fault Null_deref"
| "pick_inet [a] = Ret a"
| "pick_inet (a # b # as) = (if a then Ret True else pick_inet (b # as))"

text \<open>
  \<open>memset(sk, 0, sizeof(sk_t))\<close> on the cell that \<open>malloc\<close> returned, in \<open>sk_open\<close> and
  \<open>sk_accept\<close>. The links of the work list are kept in the cells, and \<open>pp2_close\<close> frees a cell
  without taking it off that list. When \<open>malloc\<close> hands out such a cell again, \<open>memset\<close> wipes
  its links while its neighbours still point to it: the list is cut, which the list of the model
  cannot show, so the operation is a fault.
\<close>

definition wipe_cell :: "world \<Rightarrow> ptr \<Rightarrow> unit outcome" where
  "wipe_cell w s = (if s \<in> set (work_list w) then Fault Use_after_free else Ret ())"

text \<open>
  The error exits close the new descriptor, which is not registered yet, and free the cell,
  so that they change nothing but the error numbers.
\<close>

definition sk_open :: "dial \<Rightarrow> world \<Rightarrow> string \<Rightarrow> string \<Rightarrow> (int \<times> world) outcome" where
  "sk_open d w hostname service =
     obind (guard (pp2sk w = None)) (\<lambda>_.
     case dial_ptr d of
       None \<Rightarrow> Ret (-1, w\<lparr>wsd_errno := WSD_ENOMEM\<rparr>)
     | Some p \<Rightarrow>
     obind (wipe_cell w p) (\<lambda>_.
     if 0 > dial_fd d then Ret (-1, w\<lparr>wsd_errno := WSD_CHECKERRNO\<rparr>)
     else if 0 > dial_gai d hostname service then Ret (-1, w\<lparr>wsd_errno := WSD_EAI\<rparr>)
     else
     obind (pick_inet (dial_inet d)) (\<lambda>inet.
     if \<not> inet then Ret (-1, w\<lparr>wsd_errno := WSD_ENUM\<rparr>)
     else
     let w = (case dial_connect d of None \<Rightarrow> w | Some e \<Rightarrow> w\<lparr>sys_errno := e\<rparr>) in
     if dial_connect d \<noteq> None \<and> dial_connect d \<noteq> Some EINPROGRESS
     then Ret (-1, w\<lparr>wsd_errno := WSD_EBADREQ\<rparr>)
     else
     case sk_init (dial_mem d) zero_sk (dial_fd d) (-1) of
       Inl e \<Rightarrow> Ret (-1, w\<lparr>wsd_errno := e\<rparr>)
     | Inr k \<Rightarrow>
     let k = k\<lparr>sk_ops := (sk_ops k)\<lparr>ops_recv := Some Pp2_recv, ops_close := Some Pp2_close\<rparr>,
               sk_proto := (sk_proto k)\<lparr>decode_frame := Some Pp2_decode_frame,
                 encode_frame := Some Pp2_encode_frame, ping := Some Pp2_nop\<rparr>\<rparr>;
         w = (put_sk w p k)\<lparr>pp2sk := Some p, sk_list := sk_list w @ [p]\<rparr>
     in
     obind (register_for_events w p) (\<lambda>(rv, w).
     obind (guard (rv = 0)) (\<lambda>_. Ret (0, w))))))"

text \<open>
  \<open>while (retries--) { rv = sk_open(fhostname[num], fport); if (0 > rv && wsd_errno == WSD_EAI)
  { next_host(); continue; } break; }\<close>. The variable \<open>rv\<close> has no value before the first call.
\<close>

fun open_loop :: "(nat \<Rightarrow> dial) \<Rightarrow> int option \<Rightarrow> nat \<Rightarrow> world \<Rightarrow> (int \<times> world) outcome" where
  "open_loop dials rv 0 w = (case rv of None \<Rightarrow> Fault Uninitialised | Some rv \<Rightarrow> Ret (rv, w))"
| "open_loop dials rv (Suc retries) w =
     (if unat (host_num w) < length (cfg_fhostname (wsd_cfg w)) then
        obind (sk_open (dials retries) w (cfg_fhostname (wsd_cfg w) ! unat (host_num w)) (cfg_fport (wsd_cfg w)))
          (\<lambda>(rv, w). if 0 > rv \<and> wsd_errno w = WSD_EAI
                     then open_loop dials (Some rv) retries (next_host w) else Ret (rv, w))
      else Fault Out_of_bounds)"

subsection \<open>Decoding all that has arrived\<close>

text \<open>
  \<open>sk->proto->decode_frame(sk)\<close> in wsd. The decoders of wscat are not part of this program.
\<close>

definition call_decode_frame :: "world \<Rightarrow> ptr \<Rightarrow> (int \<times> world) outcome" where
  "call_decode_frame w s =
     obind (deref w s) (\<lambda>k.
     case decode_frame (sk_proto k) of
       Some Ws_decode_frame \<Rightarrow> ws_decode_frame w s
     | Some Pp2_decode_frame \<Rightarrow> pp2_decode_frame w s
     | _ \<Rightarrow> Fault Null_call)"

text \<open>\<open>while (0 == (rv = sk->proto->decode_frame(sk))) frames++;\<close>\<close>

definition run_frames :: "world \<Rightarrow> ptr \<Rightarrow> (int \<times> nat \<times> world) outcome" where
  "run_frames w s =
     (case decode_frames call_decode_frame 0 w s of None \<Rightarrow> Fault Diverges | Some r \<Rightarrow> r)"

definition ws_recv :: "(nat \<Rightarrow> dial) \<Rightarrow> world \<Rightarrow> ptr \<Rightarrow> (int \<times> world) outcome" where
  "ws_recv dials w s =
     obind (deref w s) (\<lambda>k.
     obind (guard (skb_rdsz (sk_recvbuf k) \<noteq> 0)) (\<lambda>_.
     obind (if pp2sk w = None
            then open_loop dials None (unat (cfg_fhostname_num (wsd_cfg w))) w
            else Ret (0, w)) (\<lambda>(rv, w).
     if 0 > rv then Ret (-1, w)
     else
     obind (run_frames w s) (\<lambda>(rv, frames, w).
     obind (if frames = 0 then Ret w
            else
              obind (deref_global (pp2sk w)) (\<lambda>p.
              obind (deref w p) (\<lambda>pk.
              obind (if 0 < skb_rdsz (sk_sendbuf pk) then ensure_events w p EPOLLOUT else Ret w) (\<lambda>w.
              obind (deref w s) (\<lambda>k.
              if sk_events k AND EPOLLIN = 0 \<and> sk_close_on_write k
              then turn_on_events w s EPOLLIN else Ret w))))) (\<lambda>w.
     obind (deref w s) (\<lambda>k.
     obind (if sk_close_flag k \<or> sk_close_on_write k then turn_off_events w s EPOLLIN else Ret w) (\<lambda>w.
     obind (deref w s) (\<lambda>k.
     obind (if sk_close_on_write k then ensure_events w s EPOLLOUT else Ret w) (\<lambda>w.
     Ret (rv, w))))))))))"

text \<open>The test \<open>!sk->events & EPOLLIN\<close> negates first.\<close>

definition pp2_recv :: "world \<Rightarrow> ptr \<Rightarrow> (int \<times> world) outcome" where
  "pp2_recv w s =
     obind (deref w s) (\<lambda>k.
     obind (guard (skb_rdsz (sk_recvbuf k) \<noteq> 0)) (\<lambda>_.
     obind (guard (pp2sk w \<noteq> None)) (\<lambda>_.
     obind (run_frames w s) (\<lambda>(rv, frames, w).
     obind (deref w s) (\<lambda>k.
     obind (if frames \<noteq> 0 \<and> (if sk_events k = 0 then 1 else 0) AND EPOLLIN \<noteq> 0
            then turn_on_events w s EPOLLIN else Ret w) (\<lambda>w.
     Ret (rv, w)))))))"

subsection \<open>Closing the connection to the backend\<close>

text \<open>\<open>list_del\<close> of a node that is in no list goes through null pointers.\<close>

definition sk_list_del :: "world \<Rightarrow> ptr \<Rightarrow> world outcome" where
  "sk_list_del w s =
     (if s \<in> set (sk_list w) then Ret (w\<lparr>sk_list := removeAll s (sk_list w)\<rparr>) else Fault Null_deref)"

definition pp2_close :: "world \<Rightarrow> ptr \<Rightarrow> (int \<times> world) outcome" where
  "pp2_close w s =
     obind (deref w s) (\<lambda>k.
     obind (sk_list_del (close_fd w (sk_fd k)) s) (\<lambda>w.
     Ret (0, (sk_destroy w s)\<lparr>pp2sk := None\<rparr>)))"

end
