(* ===== verification/Loop.thy ===== *)
theory Loop
  imports Common
begin

text \<open>
  The event loop of src/common.c, which both programs run: what is done with one event that
  \<open>epoll_wait\<close> reports, and one round of the loop.

  The handlers that a socket's tables name, \<open>post_read\<close>, \<open>on_iteration\<close> and \<open>accept\<close> are
  arguments, as they are in the source; what the kernel delivers is part of the event.
\<close>

type_synonym handler = "world \<Rightarrow> ptr \<Rightarrow> (int \<times> world) outcome"
type_synonym reader = "io_in \<Rightarrow> world \<Rightarrow> ptr \<Rightarrow> (int \<times> world) outcome"
type_synonym writer = "io_out \<Rightarrow> world \<Rightarrow> ptr \<Rightarrow> (int \<times> u8 list \<times> world) outcome"

text \<open>
  What an \<open>accept\<close> finds: the cell \<open>malloc\<close> returns, the new descriptor, the addresses of the
  peer and of this end (\<open>None\<close> when \<open>getsockname\<close> fails), whether \<open>sk_init\<close> finds memory, and
  the nanoseconds of the clock.
\<close>

record incoming =
  in_ptr :: "ptr option"
  in_fd :: int
  in_src :: sockaddr_in
  in_dst :: "sockaddr_in option"
  in_mem :: bool
  in_nsec :: int

record event =
  ev_events :: u32
  ev_sk :: ptr
  ev_read :: io_in
  ev_write :: io_out
  ev_incoming :: incoming

subsection \<open>One event\<close>

text \<open>\<open>ts_last_io_set(sk, now)\<close>\<close>

definition ts_last_io_set :: "world \<Rightarrow> ptr \<Rightarrow> timespec \<Rightarrow> world outcome" where
  "ts_last_io_set w s now = upd_sk w s (\<lambda>k. k\<lparr>sk_ts_last_io := now\<rparr>)"

text \<open>\<open>AZ(sk->ops->close(sk))\<close>\<close>

definition must_close :: "handler \<Rightarrow> world \<Rightarrow> ptr \<Rightarrow> world outcome" where
  "must_close close w s = obind (close w s) (\<lambda>(rv, w). obind (guard (rv = 0)) (\<lambda>_. Ret w))"

definition on_write ::
  "writer \<Rightarrow> handler \<Rightarrow> io_out \<Rightarrow> timespec \<Rightarrow> world \<Rightarrow> ptr \<Rightarrow> (int \<times> u8 list \<times> world) outcome" where
  "on_write write close io now w s =
     obind (write io w s) (\<lambda>(rv, sent, w).
     obind (ts_last_io_set w s now) (\<lambda>w.
     obind (deref w s) (\<lambda>k.
     obind (if 0 > rv \<and> wsd_errno w \<noteq> WSD_EAGAIN then must_close close w s
            else if sk_close_on_write k \<and> skb_rdsz (sk_sendbuf k) = 0 then must_close close w s
            else if sk_close_flag k then must_close close w s
            else Ret w) (\<lambda>w.
     Ret (rv, sent, w)))))"

definition on_read ::
  "reader \<Rightarrow> handler \<Rightarrow> handler \<Rightarrow> io_in \<Rightarrow> timespec \<Rightarrow> world \<Rightarrow> ptr \<Rightarrow> (int \<times> world) outcome" where
  "on_read read close post_read io now w s =
     obind (deref w s) (\<lambda>k.
     obind (guard (\<not> sk_close_on_write k)) (\<lambda>_.
     obind (guard (\<not> sk_close_flag k)) (\<lambda>_.
     obind (read io w s) (\<lambda>(rv, w).
     obind (ts_last_io_set w s now) (\<lambda>w.
     if 0 > rv \<and> wsd_errno w \<noteq> WSD_EAGAIN then
       let (c, w) = (if wsd_errno w = WSD_CHECKERRNO then check_errno w else (-1, w)) in
       if c = 0 then
         obind (upd_sk w s (\<lambda>k. k\<lparr>sk_retries := sk_retries k + 1\<rparr>)) (\<lambda>w.
         obind (deref w s) (\<lambda>k.
         if sk_retries k < cfg_fhostname_num (wsd_cfg w) then Ret (0, w)
         else obind (must_close close w s) (\<lambda>w. Ret (rv, w))))
       else obind (must_close close w s) (\<lambda>w. Ret (rv, w))
     else
       obind (post_read w s) (\<lambda>(rv, w).
       if 0 > rv \<and> wsd_errno w \<noteq> WSD_EAGAIN \<and> wsd_errno w \<noteq> WSD_EINPUT
       then obind (must_close close w s) (\<lambda>w. Ret (rv, w))
       else
         obind (deref w s) (\<lambda>k.
         if sk_close_flag k then obind (must_close close w s) (\<lambda>w. Ret (rv, w))
         else Ret (rv, w))))))))"

text \<open>The second component is what was written to the descriptor.\<close>

definition on_epoll_event ::
  "reader \<Rightarrow> writer \<Rightarrow> handler \<Rightarrow> handler \<Rightarrow> event \<Rightarrow> timespec \<Rightarrow> world \<Rightarrow> (int \<times> u8 list \<times> world) outcome" where
  "on_epoll_event read write close post_read ev now w =
     (let s = ev_sk ev in
     obind (deref w s) (\<lambda>k.
     obind (guard (0 \<le> sk_fd k)) (\<lambda>_.
     if ev_events ev AND EPOLLIN \<noteq> 0 \<or> ev_events ev AND EPOLLPRI \<noteq> 0
     then obind (on_read read close post_read (ev_read ev) now w s) (\<lambda>(rv, w). Ret (rv, [], w))
     else if ev_events ev AND EPOLLOUT \<noteq> 0
     then on_write write close (ev_write ev) now w s
     else if ev_events ev AND EPOLLERR \<noteq> 0 \<or> ev_events ev AND EPOLLHUP \<noteq> 0 \<or> ev_events ev AND EPOLLRDHUP \<noteq> 0
     then obind (must_close close w s) (\<lambda>w. Ret (0, [], w))
     else Ret (0, [], w))))"

subsection \<open>The loop\<close>

text \<open>
  The events of one \<open>epoll_wait\<close>, in order. An event on the listening descriptor is a new
  connection; \<open>AZ\<close> ends the process when it cannot be accepted. The result lists what was
  written to which socket.
\<close>

fun handle_events ::
  "(event \<Rightarrow> world \<Rightarrow> (int \<times> world) outcome) \<Rightarrow> (event \<Rightarrow> world \<Rightarrow> (int \<times> u8 list \<times> world) outcome) \<Rightarrow>
   int \<Rightarrow> event list \<Rightarrow> world \<Rightarrow> (int \<times> (ptr \<times> u8 list) list \<times> world) outcome" where
  "handle_events accept handle rv [] w = Ret (rv, [], w)"
| "handle_events accept handle rv (ev # evs) w =
     obind (deref w (ev_sk ev)) (\<lambda>k.
     if sk_fd k = cfg_lfd (wsd_cfg w) then
       obind (accept ev w) (\<lambda>(rv', w).
       obind (guard (rv' = 0)) (\<lambda>_. handle_events accept handle rv evs w))
     else
       obind (handle ev w) (\<lambda>(rv, sent, w).
       obind (handle_events accept handle rv evs w) (\<lambda>(rv, out, w).
       Ret (rv, (ev_sk ev, sent) # out, w))))"

text \<open>
  A round: the time, what the handlers of pending work get from outside, and the events of
  \<open>epoll_wait\<close> or \<open>None\<close> when a signal interrupted it. A SIGTERM during the round sets
  \<open>done\<close>. The loop runs on a sequence of rounds, as long as
  it is not done; when the sequence ends first, the state is the one at the next wait.
\<close>

record 'e round =
  rd_now :: timespec
  rd_env :: 'e
  rd_events :: "event list option"
  rd_sigterm :: bool

definition MAX_EVENTS :: nat where "MAX_EVENTS = 256"

fun event_loop ::
  "('e \<Rightarrow> timespec \<Rightarrow> world \<Rightarrow> (int \<times> world) outcome) \<Rightarrow> (event \<Rightarrow> world \<Rightarrow> (int \<times> world) outcome) \<Rightarrow>
   ('e \<Rightarrow> timespec \<Rightarrow> event \<Rightarrow> world \<Rightarrow> (int \<times> u8 list \<times> world) outcome) \<Rightarrow>
   int \<Rightarrow> 'e round list \<Rightarrow> world \<Rightarrow> (int \<times> (ptr \<times> u8 list) list \<times> world) outcome" where
  "event_loop on_iteration accept handle rv [] w = Ret (rv, [], w)"
| "event_loop on_iteration accept handle rv (r # rs) w =
     (if wsd_done w then Ret (rv, [], w)
      else
        obind (on_iteration (rd_env r) (rd_now r) w) (\<lambda>(rv', w).
        obind (guard (rv' = 0)) (\<lambda>_.
        obind (case rd_events r of
                 None \<Rightarrow> Ret (rv, [], w)
               | Some evs \<Rightarrow>
                   obind (guard (length evs \<le> MAX_EVENTS)) (\<lambda>_.
                   handle_events accept (handle (rd_env r) (rd_now r)) rv evs w)) (\<lambda>(rv, out, w).
        let w = (if rd_sigterm r then w\<lparr>wsd_done := True\<rparr> else w) in
        obind (event_loop on_iteration accept handle rv rs w) (\<lambda>(rv, out', w).
        Ret (rv, out @ out', w))))))"

end
