(* ===== verification/Child.thy ===== *)
theory Child
  imports Http Receive Loop
begin

text \<open>
  The child process of wsd (src/wschild.c): its list of open sockets, the work list of sockets
  with input to process, accepting and closing, the timers, and the main function.

  The lists are the HOL lists of the sockets linked in them. A loop with
  \<open>list_for_each_entry_safe\<close> runs over the list as it is at the start: its body unlinks and
  frees at most the current socket.
\<close>

text \<open>What the program gets from outside while it works off one round.\<close>

record env =
  env_digest :: "u8 list \<Rightarrow> u8 list"
  env_dials :: "ptr \<Rightarrow> nat \<Rightarrow> dial"

subsection \<open>Receiving and closing through the tables\<close>

definition call_recv :: "env \<Rightarrow> handler" where
  "call_recv env w s =
     obind (deref w s) (\<lambda>k.
     case ops_recv (sk_ops k) of
       Some Http_recv \<Rightarrow> http_recv (env_digest env) w s
     | Some Ws_recv \<Rightarrow> ws_recv (env_dials env s) w s
     | Some Pp2_recv \<Rightarrow> pp2_recv w s
     | _ \<Rightarrow> Fault Null_call)"

text \<open>\<open>if (sk->fd == pos->fd) list_del(&pos->work_node)\<close> for every entry of the work list.\<close>

fun other_work :: "world \<Rightarrow> int \<Rightarrow> ptr list \<Rightarrow> ptr list outcome" where
  "other_work w fd [] = Ret []"
| "other_work w fd (t # ts) =
     obind (deref w t) (\<lambda>k.
     obind (other_work w fd ts) (\<lambda>us. Ret (if fd = sk_fd k then us else t # us)))"

definition sk_close :: handler where
  "sk_close w s =
     obind (deref w s) (\<lambda>k.
     obind (sk_list_del (hash_del w s) s) (\<lambda>w.
     obind (other_work w (sk_fd k) (work_list w)) (\<lambda>ts.
     Ret (0, sk_destroy (close_fd (w\<lparr>work_list := ts\<rparr>) (sk_fd k)) s))))"

definition call_close :: handler where
  "call_close w s =
     obind (deref w s) (\<lambda>k.
     case ops_close (sk_ops k) of
       Some Sk_close \<Rightarrow> sk_close w s
     | Some Pp2_close \<Rightarrow> pp2_close w s
     | _ \<Rightarrow> Fault Null_call)"

definition call_read :: reader where
  "call_read io w s =
     obind (deref w s) (\<lambda>k.
     case ops_read (sk_ops k) of Some Sk_read \<Rightarrow> sk_read io w s | _ \<Rightarrow> Fault Null_call)"

definition call_write :: writer where
  "call_write io w s =
     obind (deref w s) (\<lambda>k.
     case ops_write (sk_ops k) of Some Sk_write \<Rightarrow> sk_write io w s | _ \<Rightarrow> Fault Null_call)"

subsection \<open>The work list\<close>

fun in_work :: "world \<Rightarrow> int \<Rightarrow> ptr list \<Rightarrow> bool outcome" where
  "in_work w fd [] = Ret False"
| "in_work w fd (t # ts) =
     obind (deref w t) (\<lambda>k. if sk_fd k = fd then Ret True else in_work w fd ts)"

definition post_read :: handler where
  "post_read w s =
     obind (deref w s) (\<lambda>k.
     obind (in_work w (sk_fd k) (work_list w)) (\<lambda>found.
     Ret (0, if found then w else w\<lparr>work_list := work_list w @ [s]\<rparr>)))"

text \<open>
  The work list is a list of cells here; list.h keeps its links inside the cells (theory Lists
  relates the two). The only writes to these links from elsewhere are those of \<open>wipe_cell\<close>,
  which is a fault for a cell that is still on the list.
\<close>

definition work_del :: "world \<Rightarrow> ptr \<Rightarrow> world" where
  "work_del w s = w\<lparr>work_list := removeAll s (work_list w)\<rparr>"

definition try_recv_one :: "env \<Rightarrow> world \<Rightarrow> ptr \<Rightarrow> world outcome" where
  "try_recv_one env w s =
     obind (call_recv env w s) (\<lambda>(rv, w).
     if rv = 0 then Ret (work_del w s)
     else if 0 > rv \<and> wsd_errno w = WSD_EINPUT then Ret (work_del w s)
     else if 0 > rv \<and> wsd_errno w = WSD_EAGAIN then Ret w
     else if 0 > rv then
       obind (deref (work_del w s) s) (\<lambda>k.
       if sk_close_on_write k then Ret (work_del w s) else must_close call_close (work_del w s) s)
     else Ret w)"

fun for_each_sk :: "(world \<Rightarrow> ptr \<Rightarrow> world outcome) \<Rightarrow> ptr list \<Rightarrow> world \<Rightarrow> world outcome" where
  "for_each_sk f [] w = Ret w"
| "for_each_sk f (s # ss) w = obind (f w s) (for_each_sk f ss)"

definition try_recv :: "env \<Rightarrow> world \<Rightarrow> world outcome" where
  "try_recv env w = for_each_sk (try_recv_one env) (work_list w) w"

subsection \<open>Timers\<close>

definition check_closing_handshake_timeout :: "sk \<Rightarrow> timespec \<Rightarrow> int \<Rightarrow> bool outcome" where
  "check_closing_handshake_timeout k now timeout =
     obind (guard (0 < timeout)) (\<lambda>_.
     Ret (sk_closing k \<and> has_timed_out (sk_ts_closing_handshake_start k) now timeout))"

definition check_timeouts :: "timespec \<Rightarrow> world \<Rightarrow> ptr \<Rightarrow> world outcome" where
  "check_timeouts now w s =
     obind (deref w s) (\<lambda>k.
     obind (if cfg_idle_timeout (wsd_cfg w) \<noteq> -1 \<and> check_timeout k now (cfg_idle_timeout (wsd_cfg w)) then
              obind (case start_closing_handshake (sk_proto k) of
                       None \<Rightarrow> Ret (-1, w)
                     | Some f \<Rightarrow> call_closing (Some f) w s WS_1000 False) (\<lambda>(rv, w).
              if 0 > rv then obind (must_close call_close w s) (\<lambda>w. Ret (True, w))
              else obind (upd_sk w s (\<lambda>k. k\<lparr>sk_ts_closing_handshake_start := now\<rparr>)) (\<lambda>w. Ret (False, w)))
            else Ret (False, w)) (\<lambda>(closed, w).
     if closed then Ret w
     else
     obind (deref w s) (\<lambda>k.
     obind (check_closing_handshake_timeout k now (cfg_closing_handshake_timeout (wsd_cfg w))) (\<lambda>late.
     if late then must_close call_close w s
     else if check_timeout k now (cfg_ping_interval (wsd_cfg w))
     then obind (call_ctl (ping (sk_proto k)) w s False) (\<lambda>(rv, w). Ret w)
     else Ret w))))"

definition check_timeouts_for_each :: "timespec \<Rightarrow> world \<Rightarrow> world outcome" where
  "check_timeouts_for_each now w = for_each_sk (check_timeouts now) (sk_list w) w"

definition on_iteration :: "env \<Rightarrow> timespec \<Rightarrow> world \<Rightarrow> (int \<times> world) outcome" where
  "on_iteration env now w =
     obind (try_recv env w) (\<lambda>w. obind (check_timeouts_for_each now w) (\<lambda>w. Ret (0, w)))"

subsection \<open>Accepting a client\<close>

text \<open>The name of a connection: its address, its port and the nanoseconds of the clock.\<close>

definition conn_hash :: "sockaddr_in \<Rightarrow> int \<Rightarrow> u64" where
  "conn_hash saddr nsec =
     (let h = (ucast (sin_addr saddr) :: u64);
          h = push_bit 16 h;
          h = h OR ucast (sin_port saddr);
          h = push_bit 16 h
      in h OR (of_int nsec AND drop_bit 16 0x00000000ffff0000))"

definition sk_accept :: "incoming \<Rightarrow> world \<Rightarrow> (int \<times> world) outcome" where
  "sk_accept i w =
     (let failed = Ret (-1, w\<lparr>wsd_errno := WSD_CHECKERRNO\<rparr>) in
      case in_ptr i of
        None \<Rightarrow> failed
      | Some s \<Rightarrow>
     obind (wipe_cell w s) (\<lambda>_.
     if 0 > in_fd i then failed
     else case in_dst i of
        None \<Rightarrow> failed
      | Some dst \<Rightarrow>
     case sk_init (in_mem i) (zero_sk\<lparr>sk_src_addr := in_src i, sk_dst_addr := dst\<rparr>) (in_fd i)
            (conn_hash (in_src i) (in_nsec i)) of
        Inl e \<Rightarrow> failed
      | Inr k \<Rightarrow>
     let k = k\<lparr>sk_ops := (sk_ops k)\<lparr>ops_recv := Some Http_recv, ops_close := Some Sk_close\<rparr>,
               sk_proto := (sk_proto k)\<lparr>decode_handshake := Some Ws_decode_handshake\<rparr>\<rparr>
     in
     obind (register_for_events (put_sk w s k) s) (\<lambda>(rv, w').
     if 0 > rv then failed
     else
     obind (hash_add w' s (sk_hashval k)) (\<lambda>w.
     Ret (0, w\<lparr>sk_list := sk_list w @ [s]\<rparr>)))))"

subsection \<open>The process\<close>

text \<open>\<open>lsk->ops->accept(sk->fd)\<close>\<close>

definition call_accept :: "event \<Rightarrow> world \<Rightarrow> (int \<times> world) outcome" where
  "call_accept ev w =
     obind (deref w (ev_sk ev)) (\<lambda>k.
     case ops_accept (sk_ops k) of Some Sk_accept \<Rightarrow> sk_accept (ev_incoming ev) w | None \<Rightarrow> Fault Null_call)"

definition child_event :: "timespec \<Rightarrow> event \<Rightarrow> world \<Rightarrow> (int \<times> u8 list \<times> world) outcome" where
  "child_event now ev w = on_epoll_event call_read call_write call_close post_read ev now w"

text \<open>The set-up of \<open>wschild_main\<close>; \<open>lsk\<close> is the cell of the listening socket.\<close>

definition child_init :: "ptr option \<Rightarrow> bool \<Rightarrow> wsd_config \<Rightarrow> (int \<times> world) outcome" where
  "child_init lsk mem_ok cfg =
     (let w = hash_init ((init_world cfg)\<lparr>work_list := [], sk_list := []\<rparr>) in
      case lsk of
        None \<Rightarrow> Ret (-1, w)
      | Some s \<Rightarrow>
      case sk_init mem_ok zero_sk (cfg_lfd cfg) 0 of
        Inl e \<Rightarrow> Ret (-1, w\<lparr>wsd_errno := e\<rparr>)
      | Inr k \<Rightarrow>
      let k = k\<lparr>sk_events := EPOLLIN,
                sk_ops := (sk_ops k)\<lparr>ops_accept := Some Sk_accept, ops_close := Some Sk_close\<rparr>\<rparr>
      in
      obind (register_for_events (put_sk w s k) s) (\<lambda>(rv, w).
      obind (guard (rv = 0)) (\<lambda>_. Ret (0, w))))"

text \<open>After the loop every open socket is closed.\<close>

definition child_exit :: "world \<Rightarrow> world outcome" where
  "child_exit w = for_each_sk (\<lambda>w s. obind (call_close w s) (\<lambda>(rv, w). Ret w)) (sk_list w) w"

definition wschild_main ::
  "ptr option \<Rightarrow> bool \<Rightarrow> env round list \<Rightarrow> wsd_config \<Rightarrow>
   (int \<times> (ptr \<times> u8 list) list \<times> world) outcome" where
  "wschild_main lsk mem_ok rounds cfg =
     obind (child_init lsk mem_ok cfg) (\<lambda>(rv, w).
     if 0 > rv then Ret (-1, [], w)
     else
       obind (event_loop on_iteration call_accept (\<lambda>_. child_event) 0 rounds w) (\<lambda>(rv, out, w).
       obind (child_exit w) (\<lambda>w. Ret (rv, out, w))))"

end
