(* ===== verification/Lists.thy ===== *)
theory Lists
  imports Child
begin

text \<open>
  The intrusive lists of src/list.h at the level of their pointers, and the proof that they
  implement the HOL lists which the other theories use for \<open>sk_list\<close>, \<open>work_list\<close> and the
  buckets of the hash table.

  A node is an address; the links of all nodes are the memory. Writes happen in the order of
  the source. \<open>pprev\<close> points either to the \<open>first\<close> field of a head or to the \<open>next\<close> field of
  a node.
\<close>

type_synonym addr = nat

abbreviation NULL :: addr where "NULL \<equiv> 0"

subsection \<open>Circular lists\<close>

record links =
  l_next :: "addr \<Rightarrow> addr"
  l_prev :: "addr \<Rightarrow> addr"

definition set_next :: "addr \<Rightarrow> addr \<Rightarrow> links \<Rightarrow> links" where
  "set_next a b m = m\<lparr>l_next := (l_next m)(a := b)\<rparr>"

definition set_prev :: "addr \<Rightarrow> addr \<Rightarrow> links \<Rightarrow> links" where
  "set_prev a b m = m\<lparr>l_prev := (l_prev m)(a := b)\<rparr>"

definition init_list_head :: "links \<Rightarrow> addr \<Rightarrow> links" where
  "init_list_head m lst = set_prev lst lst (set_next lst lst m)"

definition list_add_between :: "links \<Rightarrow> addr \<Rightarrow> addr \<Rightarrow> addr \<Rightarrow> links" where
  "list_add_between m new prev next =
     (let m = set_prev next new m;
          m = set_next new next m;
          m = set_prev new prev m
      in set_next prev new m)"

definition list_add_tail :: "links \<Rightarrow> addr \<Rightarrow> addr \<Rightarrow> links" where
  "list_add_tail m new head = list_add_between m new (l_prev m head) head"

definition list_del_between :: "links \<Rightarrow> addr \<Rightarrow> addr \<Rightarrow> links" where
  "list_del_between m prev next = set_next prev next (set_prev next prev m)"

definition list_del :: "links \<Rightarrow> addr \<Rightarrow> links" where
  "list_del m entry = list_del_between m (l_prev m entry) (l_next m entry)"

definition list_empty :: "links \<Rightarrow> addr \<Rightarrow> bool" where
  "list_empty m head \<longleftrightarrow> l_next m head = head"

text \<open>\<open>list_for_each_entry_safe\<close>: the next node is fetched before the body runs.\<close>

partial_function (option) for_each_entry_safe ::
  "('s \<Rightarrow> links \<Rightarrow> addr \<Rightarrow> 's \<times> links) \<Rightarrow> addr \<Rightarrow> 's \<Rightarrow> links \<Rightarrow> addr \<Rightarrow> addr \<Rightarrow> ('s \<times> links) option" where
  "for_each_entry_safe body head s m pos n =
     (if pos = head then Some (s, m)
      else
        let (s, m) = body s m pos
        in for_each_entry_safe body head s m n (l_next m n))"

definition list_for_each_entry_safe ::
  "('s \<Rightarrow> links \<Rightarrow> addr \<Rightarrow> 's \<times> links) \<Rightarrow> addr \<Rightarrow> 's \<Rightarrow> links \<Rightarrow> ('s \<times> links) option" where
  "list_for_each_entry_safe body head s m =
     (let pos = l_next m head in for_each_entry_safe body head s m pos (l_next m pos))"

subsection \<open>What a circular list represents\<close>

definition linked :: "links \<Rightarrow> addr list \<Rightarrow> bool" where
  "linked m ns \<longleftrightarrow> successively (\<lambda>a b. l_next m a = b \<and> l_prev m b = a) ns"

definition dlist :: "links \<Rightarrow> addr \<Rightarrow> addr list \<Rightarrow> bool" where
  "dlist m head xs \<longleftrightarrow> distinct (head # xs) \<and> linked m (head # xs @ [head])"

lemma linked_append:
  "linked m (us @ [a] @ vs) \<longleftrightarrow> linked m (us @ [a]) \<and> linked m (a # vs)"
  by (cases vs) (auto simp: linked_def successively_append_iff)

lemma linked_Cons2: "linked m (a # b # vs) \<longleftrightarrow> l_next m a = b \<and> l_prev m b = a \<and> linked m (b # vs)"
  by (simp add: linked_def)

lemma linked_single [simp]: "linked m [a]"
  by (simp add: linked_def)

text \<open>Links that start and end elsewhere do not matter.\<close>

lemma linked_cong:
  "(\<And>x. x \<in> set (butlast ns) \<Longrightarrow> l_next m' x = l_next m x) \<Longrightarrow>
   (\<And>x. x \<in> set (tl ns) \<Longrightarrow> l_prev m' x = l_prev m x) \<Longrightarrow> linked m ns \<Longrightarrow> linked m' ns"
proof (induction ns)
  case Nil
  then show ?case by (simp add: linked_def)
next
  case (Cons a ns)
  then show ?case
  proof (cases ns)
    case (Cons b vs)
    have "linked m' (b # vs)"
      using Cons.IH Cons.prems Cons by (auto simp: linked_Cons2 dest: in_set_butlastD)
    then show ?thesis
      using Cons.prems Cons by (auto simp: linked_Cons2)
  qed simp
qed

lemma link_simps [simp]:
  "l_next (set_next a b m) = (l_next m)(a := b)" "l_prev (set_next a b m) = l_prev m"
  "l_next (set_prev a b m) = l_next m" "l_prev (set_prev a b m) = (l_prev m)(a := b)"
  by (simp_all add: set_next_def set_prev_def)

lemma dlist_init: "dlist (init_list_head m head) head []"
  by (simp add: dlist_def linked_Cons2 init_list_head_def)

lemma dlist_empty_iff: "dlist m head xs \<Longrightarrow> list_empty m head \<longleftrightarrow> xs = []"
  by (cases xs) (auto simp: dlist_def linked_Cons2 list_empty_def)

text \<open>The predecessor of the head is the last element.\<close>

lemma dlist_last:
  assumes "dlist m head xs"
  shows "l_prev m head = last (head # xs)"
proof (cases xs rule: rev_cases)
  case Nil
  then show ?thesis using assms by (simp add: dlist_def linked_Cons2)
next
  case (snoc ys y)
  then show ?thesis
    using assms linked_append [of m "head # ys" y "[head]"] by (simp add: dlist_def linked_Cons2)
qed

text \<open>
  In a circular list only the two ends are the same node: two neighbours \<open>a\<close> and \<open>b\<close> of the
  sequence do not occur where their outer links would be affected.
\<close>

definition circular :: "addr list \<Rightarrow> bool" where
  "circular ns \<longleftrightarrow> distinct (butlast ns) \<and> distinct (tl ns)"

lemma circular_split:
  assumes "circular (us @ a # b # vs)"
  shows "a \<notin> set us" "b \<notin> set vs" "a \<notin> set (butlast (b # vs))" "b \<notin> set (tl (us @ [a]))"
  using assms unfolding circular_def by (auto simp: butlast_append; cases us; auto)+

lemma dlist_circular: "dlist m head xs \<Longrightarrow> circular (head # xs @ [head])"
  by (auto simp: dlist_def circular_def butlast_append)

lemma linked_insert:
  assumes l: "linked m (us @ a # b # vs)" and new: "new \<notin> set (us @ a # b # vs)"
    and c: "circular (us @ a # b # vs)"
  shows "linked (list_add_between m new a b) (us @ a # new # b # vs)"
proof -
  let ?m = "list_add_between m new a b"
  note s = circular_split [OF c]
  have parts: "linked m (us @ [a])" "linked m (b # vs)"
    using l linked_append [of m us a "b # vs"] by (simp_all add: linked_Cons2)
  have nx: "l_next ?m = (l_next m)(new := b, a := new)" and pv: "l_prev ?m = (l_prev m)(b := new, new := a)"
    by (simp_all add: list_add_between_def Let_def)
  have "\<And>x. x \<in> set (tl (us @ [a])) \<Longrightarrow> x \<in> set (us @ [a])"
    by (cases us) auto
  then have "linked ?m (us @ [a])"
    using parts(1) s(1,4) new by (elim linked_cong [rotated 2]) (auto simp: nx pv)
  moreover have "linked ?m (b # vs)"
    using parts(2) s(2,3) new
    by (elim linked_cong [rotated 2]) (auto simp: nx pv split: if_splits dest: in_set_butlastD)
  ultimately show ?thesis
    using new linked_append [of ?m us a "new # b # vs"] by (auto simp: linked_Cons2 nx pv)
qed

lemma linked_remove:
  assumes l: "linked m (us @ a # e # b # vs)" and c: "circular (us @ a # b # vs)"
  shows "linked (list_del m e) (us @ a # b # vs)"
proof -
  let ?m = "list_del m e"
  note s = circular_split [OF c]
  have parts: "linked m (us @ [a])" "linked m (b # vs)" and e: "l_prev m e = a" "l_next m e = b"
    using l linked_append [of m us a "e # b # vs"] by (simp_all add: linked_Cons2)
  have nx: "l_next ?m = (l_next m)(a := b)" and pv: "l_prev ?m = (l_prev m)(b := a)"
    by (simp_all add: list_del_def list_del_between_def e)
  have "linked ?m (us @ [a])"
    using parts(1) s(1,4) by (elim linked_cong [rotated 2]) (auto simp: nx pv)
  moreover have "linked ?m (b # vs)"
    using parts(2) s(2,3) by (elim linked_cong [rotated 2]) (auto simp: nx pv)
  ultimately show ?thesis
    using linked_append [of ?m us a "b # vs"] by (simp add: linked_Cons2 nx pv)
qed

lemma dlist_add_tail:
  assumes d: "dlist m head xs" and new: "new \<notin> set (head # xs)"
  shows "dlist (list_add_tail m new head) head (xs @ [new])"
proof -
  obtain us a where ua: "head # xs = us @ [a]"
    by (cases "head # xs" rule: rev_cases) auto
  have all: "head # xs @ [head] = us @ a # head # []"
    using ua by (metis append.assoc append_Cons append_Nil)
  have "last (head # xs) = a"
    unfolding ua by simp
  then have "list_add_tail m new head = list_add_between m new a head"
    using dlist_last [OF d] by (simp add: list_add_tail_def)
  moreover have "linked (list_add_between m new a head) (us @ a # new # [head])"
    using d new dlist_circular [OF d] unfolding dlist_def all by (intro linked_insert) (auto simp flip: all)
  moreover have "us @ a # new # [head] = head # (xs @ [new]) @ [head]"
    using ua by (metis append.assoc append_Cons append_Nil)
  ultimately show ?thesis
    using d new by (auto simp: dlist_def)
qed

lemma dlist_del:
  assumes d: "dlist m head xs" and e: "e \<in> set xs"
  shows "dlist (list_del m e) head (removeAll e xs)"
proof -
  obtain ys zs where yz: "xs = ys @ e # zs"
    using e by (meson split_list)
  obtain us a where ua: "head # ys = us @ [a]"
    by (cases "head # ys" rule: rev_cases) auto
  obtain b vs where bv: "zs @ [head] = b # vs"
    by (cases "zs @ [head]") auto
  have l: "head # xs @ [head] = us @ a # e # b # vs"
    using ua bv yz by (metis append.assoc append_Cons append_Nil)
  have r: "us @ a # b # vs = head # (ys @ zs) @ [head]"
    using ua bv by (metis append.assoc append_Cons append_Nil)
  have rm: "removeAll e xs = ys @ zs"
    using d by (auto simp: dlist_def yz)
  have c: "circular (us @ a # b # vs)"
    unfolding r using d yz by (auto simp: circular_def butlast_append dlist_def)
  have "linked (list_del m e) (us @ a # b # vs)"
    using d linked_remove [OF _ c] unfolding dlist_def l by blast
  then show ?thesis
    using d yz unfolding rm dlist_def r by auto
qed

text \<open>
  A loop with \<open>list_for_each_entry_safe\<close> whose body unlinks at most the current node visits
  every node of the list once, in the order of the start.
\<close>

lemma dlist_next:
  assumes "dlist m head xs" "xs = us @ e # vs"
  shows "l_next m e = hd (vs @ [head])"
proof -
  obtain b cs where b: "vs @ [head] = b # cs"
    by (cases "vs @ [head]") auto
  have "linked m ((head # us) @ e # b # cs)"
    using assms b by (simp add: dlist_def)
  then show ?thesis
    using linked_append [of m "head # us" e "b # cs"] b by (simp add: linked_Cons2)
qed

definition unlink_some :: "('s \<Rightarrow> addr \<Rightarrow> 's) \<Rightarrow> ('s \<Rightarrow> addr \<Rightarrow> bool) \<Rightarrow> 's \<Rightarrow> links \<Rightarrow> addr \<Rightarrow> 's \<times> links" where
  "unlink_some f del s m e = (f s e, if del s e then list_del m e else m)"

fun keep_unlinked :: "('s \<Rightarrow> addr \<Rightarrow> 's) \<Rightarrow> ('s \<Rightarrow> addr \<Rightarrow> bool) \<Rightarrow> 's \<Rightarrow> addr list \<Rightarrow> addr list" where
  "keep_unlinked f del s [] = []"
| "keep_unlinked f del s (e # es) = (if del s e then [] else [e]) @ keep_unlinked f del (f s e) es"

lemma for_each_entry_safe_run:
  assumes "dlist m head (ks @ es)"
  shows "\<exists>m'. for_each_entry_safe (unlink_some f del) head s m (hd (es @ [head])) (l_next m (hd (es @ [head])))
      = Some (foldl f s es, m') \<and> dlist m' head (ks @ keep_unlinked f del s es)"
  using assms
proof (induction es arbitrary: ks s m)
  case Nil
  then show ?case
    by (subst for_each_entry_safe.simps) simp
next
  case (Cons e es)
  let ?m = "if del s e then list_del m e else m" and ?ks = "ks @ (if del s e then [] else [e])"
  have e: "e \<noteq> head" "e \<notin> set ks" "e \<notin> set es"
    using Cons.prems by (auto simp: dlist_def)
  have rm: "removeAll e (ks @ e # es) = ks @ es"
    using e by simp
  have d: "dlist ?m head (?ks @ es)"
    using Cons.prems dlist_del [OF Cons.prems, of e] rm by simp
  obtain m' where m': "for_each_entry_safe (unlink_some f del) head (f s e) ?m (hd (es @ [head])) (l_next ?m (hd (es @ [head])))
      = Some (foldl f (f s e) es, m')" "dlist m' head (?ks @ keep_unlinked f del (f s e) es)"
    using Cons.IH [OF d] by blast
  have n: "l_next m e = hd (es @ [head])"
    using dlist_next [OF Cons.prems refl] .
  have "for_each_entry_safe (unlink_some f del) head s m e (l_next m e)
      = for_each_entry_safe (unlink_some f del) head (f s e) ?m (hd (es @ [head])) (l_next ?m (hd (es @ [head])))"
    using e(1) by (subst for_each_entry_safe.simps) (simp add: unlink_some_def n)
  then show ?case
    using m' by (intro exI [of _ m']) simp
qed

subsection \<open>Lists with one pointer in the head\<close>

datatype cell = First addr | Next addr

record hlinks =
  h_first :: "addr \<Rightarrow> addr"
  h_next :: "addr \<Rightarrow> addr"
  h_pprev :: "addr \<Rightarrow> cell option"

fun read_cell :: "hlinks \<Rightarrow> cell \<Rightarrow> addr" where
  "read_cell m (First h) = h_first m h"
| "read_cell m (Next n) = h_next m n"

fun write_cell :: "cell \<Rightarrow> addr \<Rightarrow> hlinks \<Rightarrow> hlinks" where
  "write_cell (First h) a m = m\<lparr>h_first := (h_first m)(h := a)\<rparr>"
| "write_cell (Next n) a m = m\<lparr>h_next := (h_next m)(n := a)\<rparr>"

definition set_pprev :: "addr \<Rightarrow> cell option \<Rightarrow> hlinks \<Rightarrow> hlinks" where
  "set_pprev n c m = m\<lparr>h_pprev := (h_pprev m)(n := c)\<rparr>"

definition INIT_HLIST_HEAD :: "hlinks \<Rightarrow> addr \<Rightarrow> hlinks" where
  "INIT_HLIST_HEAD m h = write_cell (First h) NULL m"

definition INIT_HLIST_NODE :: "hlinks \<Rightarrow> addr \<Rightarrow> hlinks" where
  "INIT_HLIST_NODE m h = set_pprev h None (write_cell (Next h) NULL m)"

definition hlist_unhashed :: "hlinks \<Rightarrow> addr \<Rightarrow> bool" where
  "hlist_unhashed m h \<longleftrightarrow> h_pprev m h = None"

definition hlist_add_head :: "hlinks \<Rightarrow> addr \<Rightarrow> addr \<Rightarrow> hlinks" where
  "hlist_add_head m n h =
     (let first = h_first m h;
          m = write_cell (Next n) first m;
          m = (if first \<noteq> NULL then set_pprev first (Some (Next n)) m else m);
          m = write_cell (First h) n m
      in set_pprev n (Some (First h)) m)"

text \<open>\<open>__hlist_del\<close>; \<open>None\<close> is the write through a null \<open>pprev\<close>.\<close>

definition hlist_del_node :: "hlinks \<Rightarrow> addr \<Rightarrow> hlinks option" where
  "hlist_del_node m n =
     (case h_pprev m n of
        None \<Rightarrow> None
      | Some pprev \<Rightarrow>
          let next = h_next m n;
              m = write_cell pprev next m
          in Some (if next \<noteq> NULL then set_pprev next (Some pprev) m else m))"

definition hlist_del_init :: "hlinks \<Rightarrow> addr \<Rightarrow> hlinks option" where
  "hlist_del_init m n =
     (if \<not> hlist_unhashed m n then map_option (\<lambda>m. INIT_HLIST_NODE m n) (hlist_del_node m n) else Some m)"

text \<open>The chain that hangs off a cell.\<close>

fun hchain :: "hlinks \<Rightarrow> cell \<Rightarrow> addr list \<Rightarrow> bool" where
  "hchain m c [] \<longleftrightarrow> read_cell m c = NULL"
| "hchain m c (x # xs) \<longleftrightarrow> read_cell m c = x \<and> x \<noteq> NULL \<and> h_pprev m x = Some c \<and> hchain m (Next x) xs"

lemma hchain_cong:
  "read_cell m' c = read_cell m c \<Longrightarrow> (\<And>x. x \<in> set xs \<Longrightarrow> h_next m' x = h_next m x \<and> h_pprev m' x = h_pprev m x)
   \<Longrightarrow> hchain m' c xs \<longleftrightarrow> hchain m c xs"
  by (induction xs arbitrary: c) auto

lemma cell_simps [simp]:
  "h_first (write_cell (First h) a m) = (h_first m)(h := a)" "h_next (write_cell (First h) a m) = h_next m"
  "h_first (write_cell (Next n) a m) = h_first m" "h_next (write_cell (Next n) a m) = (h_next m)(n := a)"
  "h_pprev (write_cell c a m) = h_pprev m"
  "h_pprev (set_pprev n o' m) = (h_pprev m)(n := o')" "h_first (set_pprev n o' m) = h_first m"
  "h_next (set_pprev n o' m) = h_next m"
  by (cases c; simp add: set_pprev_def)+

lemma read_set_pprev [simp]: "read_cell (set_pprev n o' m) c = read_cell m c"
  by (cases c) simp_all

lemma read_write_cell [simp]: "read_cell (write_cell d a m) c = (if c = d then a else read_cell m c)"
  by (cases c; cases d) simp_all

lemma hchain_pprev: "hchain m c (us @ x # vs) \<Longrightarrow> h_pprev m x \<noteq> None"
  by (induction us arbitrary: c) auto

text \<open>Taking a node out of a chain.\<close>

lemma hchain_del:
  assumes "hchain m c (us @ e # vs)" "distinct (us @ e # vs)" "\<forall>x \<in> set (us @ e # vs). c \<noteq> Next x"
  shows "\<exists>m'. hlist_del_node m e = Some m' \<and> hchain m' c (us @ vs)
    \<and> (\<forall>x. x \<notin> set (us @ e # vs) \<longrightarrow> h_next m' x = h_next m x \<or> c = Next x)
    \<and> (\<forall>x. x \<notin> set vs \<longrightarrow> h_pprev m' x = h_pprev m x)
    \<and> (\<forall>h. c \<noteq> First h \<longrightarrow> h_first m' h = h_first m h)"
  using assms
proof (induction us arbitrary: c)
  case Nil
  define m1 where "m1 = write_cell c (h_next m e) m"
  have e: "h_pprev m e = Some c" and v: "hchain m (Next e) vs"
    using Nil by simp_all
  show ?case
  proof (cases vs)
    case N: Nil
    then have del: "hlist_del_node m e = Some m1"
      using e v by (simp add: hlist_del_node_def m1_def)
    show ?thesis
      using v N by (intro exI [of _ m1] conjI del) (auto simp: m1_def; cases c; auto)+
  next
    case (Cons y ys)
    then have y: "h_next m e = y" "y \<noteq> NULL" "hchain m (Next y) ys"
      using v by simp_all
    have del: "hlist_del_node m e = Some (set_pprev y (Some c) m1)"
      using e y by (simp add: hlist_del_node_def m1_def Let_def)
    have "hchain (set_pprev y (Some c) m1) (Next y) ys"
      using y(3) Nil.prems(2,3) Cons
      by (subst hchain_cong [of _ _ m]) (auto simp: m1_def; cases c; auto)+
    then show ?thesis
      using y Cons by (intro exI [of _ "set_pprev y (Some c) m1"] conjI del) (auto simp: m1_def; cases c; auto)+
  qed
next
  case (Cons x us)
  then have hyp: "hchain m (Next x) (us @ e # vs)" "read_cell m c = x" "x \<noteq> NULL" "h_pprev m x = Some c"
    "x \<notin> set (us @ e # vs)"
    by auto
  then obtain m' where m': "hlist_del_node m e = Some m'" "hchain m' (Next x) (us @ vs)"
    "\<And>y. y \<notin> set (us @ e # vs) \<Longrightarrow> h_next m' y = h_next m y \<or> x = y"
    "\<And>y. y \<notin> set vs \<Longrightarrow> h_pprev m' y = h_pprev m y" "\<And>h. h_first m' h = h_first m h"
    using Cons.IH [of "Next x"] Cons.prems(2) by fastforce
  have "read_cell m' c = x"
  proof (cases c)
    case (Next n)
    then show ?thesis
      using hyp(2) m'(3) [of n] Cons.prems(3) by auto
  qed (use hyp(2) m'(5) in simp)
  moreover have "h_pprev m' x = Some c"
    using m'(4) hyp(4,5) by simp
  ultimately show ?case
    using m' hyp by (intro exI [of _ m']) auto
qed

text \<open>
  A table: disjoint chains, and every node off them is marked unhashed.
\<close>

definition htable :: "hlinks \<Rightarrow> addr list list \<Rightarrow> bool" where
  "htable m bs \<longleftrightarrow> distinct (concat bs) \<and> (\<forall>i < length bs. hchain m (First i) (bs ! i))
     \<and> (\<forall>x. x \<notin> set (concat bs) \<longrightarrow> h_pprev m x = None)"

lemma other_bucket:
  assumes "distinct (concat (us @ b # vs))" "j < length (us @ b # vs)" "j \<noteq> length us"
    and "y \<in> set ((us @ b # vs) ! j)"
  shows "y \<notin> set b"
proof -
  have "(us @ b # vs) ! j \<in> set us \<union> set vs"
    using assms(2,3) by (auto simp: nth_append nth_Cons')
  then show ?thesis
    using assms(1,4) by auto
qed

lemma concat_nth_mem: "i < length bs \<Longrightarrow> x \<in> set (bs ! i) \<Longrightarrow> x \<in> set (concat bs)"
  by auto

lemma htable_add:
  assumes t: "htable m bs" and x: "x \<notin> set (concat bs)" "x \<noteq> NULL" and i: "i < length bs"
  shows "htable (hlist_add_head m x i) (bs[i := x # bs ! i])"
proof -
  let ?m = "hlist_add_head m x i" and ?b = "bs ! i" and ?bs = "bs[i := x # bs ! i]"
  obtain us vs where split: "bs = us @ ?b # vs" "length us = i"
    using id_take_nth_drop [OF i] i by (metis length_take less_imp_le_nat min.absorb2)
  have new: "?bs = us @ (x # ?b) # vs"
    using split by (metis list_update_length)
  have mem: "set (concat ?bs) = insert x (set (concat bs))" and d: "distinct (concat ?bs)"
  proof -
    have c: "concat bs = concat us @ ?b @ concat vs" "concat ?bs = concat us @ (x # ?b) @ concat vs"
      by (subst split, simp) (simp add: new)
    show "set (concat ?bs) = insert x (set (concat bs))"
      unfolding c by auto
    have "distinct (concat us @ ?b @ concat vs)" "x \<notin> set (concat us @ ?b @ concat vs)"
      using t x(1) unfolding htable_def c by simp_all
    then show "distinct (concat ?bs)"
      unfolding c by (simp only: distinct_append distinct.simps set_append list.set) blast
  qed
  have b: "hchain m (First i) ?b"
    using t i by (simp add: htable_def)
  have off: "h_next ?m y = h_next m y" "h_first ?m j = (if j = i then x else h_first m j)" if "y \<noteq> x" for y j
    using that by (auto simp: hlist_add_head_def Let_def)
  have pp: "h_pprev ?m y = h_pprev m y" if "y \<noteq> x" "y \<notin> set ?b" for y
    using that b by (cases ?b) (auto simp: hlist_add_head_def Let_def)
  have bucket: "hchain ?m (First i) (x # ?b)"
  proof (cases ?b)
    case Nil
    then show ?thesis
      using b x(2) by (simp add: hlist_add_head_def Let_def)
  next
    case (Cons y ys)
    have "x \<notin> set ?b" "distinct ?b"
      using x(1) i concat_nth_mem t by (auto simp: htable_def distinct_concat_iff)
    then have "hchain ?m (Next y) ys"
      using b Cons by (subst hchain_cong [of _ _ m]) (auto simp: hlist_add_head_def Let_def)
    moreover have "x \<noteq> y"
      using x(1) concat_nth_mem [OF i, of y] Cons by auto
    ultimately show ?thesis
      using b x(2) Cons by (simp add: hlist_add_head_def Let_def)
  qed
  have "hchain ?m (First j) (?bs ! j)" if j: "j < length ?bs" for j
  proof (cases "j = i")
    case True
    then show ?thesis using bucket i by simp
  next
    case False
    have "hchain m (First j) (bs ! j)" and "\<And>y. y \<in> set (bs ! j) \<Longrightarrow> y \<noteq> x \<and> y \<notin> set ?b"
      using t j x(1) concat_nth_mem [of j bs] other_bucket [of us ?b vs j] False split
      unfolding htable_def by (simp_all, blast?)
    then show ?thesis
      using False off pp by (subst hchain_cong [of _ _ m]) (auto simp: hlist_add_head_def Let_def)
  qed
  moreover have "h_pprev ?m y = None" if "y \<notin> set (concat ?bs)" for y
    using that t pp [of y] concat_nth_mem [OF i, of y] unfolding mem htable_def by auto
  ultimately show ?thesis
    using d unfolding htable_def by blast
qed

lemma filter_notin: "x \<notin> set ys \<Longrightarrow> filter (\<lambda>y. y \<noteq> x) ys = ys"
  by (induction ys) auto

lemma htable_del:
  assumes t: "htable m bs"
  shows "\<exists>m'. hlist_del_init m x = Some m' \<and> htable m' (map (filter (\<lambda>y. y \<noteq> x)) bs)"
proof (cases "x \<in> set (concat bs)")
  case False
  then have "map (filter (\<lambda>y. y \<noteq> x)) bs = bs"
    by (auto simp: filter_id_conv intro!: map_idI)
  moreover have "hlist_del_init m x = Some m"
    using t False by (simp add: htable_def hlist_del_init_def hlist_unhashed_def)
  ultimately show ?thesis
    using t by simp
next
  case True
  then obtain b where "b \<in> set bs" "x \<in> set b"
    by auto
  then obtain as cs us vs where split: "bs = as @ b # cs" and e: "b = us @ x # vs"
    by (meson split_list)
  let ?i = "length as"
  have dist: "distinct (concat bs)"
    using t by (simp add: htable_def)
  have xs: "x \<notin> set us" "x \<notin> set vs" "x \<notin> set (concat as)" "x \<notin> set (concat cs)"
    using dist unfolding split e by auto
  have flt: "map (filter (\<lambda>y. y \<noteq> x)) bs = as @ (us @ vs) # cs"
    using xs unfolding split e by (auto simp: filter_notin intro!: map_idI)
  have b: "hchain m (First ?i) (us @ x # vs)"
    using t split e by (auto simp: htable_def nth_append dest!: spec [of _ ?i])
  have "distinct (us @ x # vs)"
    using dist unfolding split e by (simp, blast)
  then obtain m1 where m1: "hlist_del_node m x = Some m1" "hchain m1 (First ?i) (us @ vs)"
    "\<And>y. y \<notin> set (us @ x # vs) \<Longrightarrow> h_next m1 y = h_next m y"
    "\<And>y. y \<notin> set vs \<Longrightarrow> h_pprev m1 y = h_pprev m y" "\<And>h. h \<noteq> ?i \<Longrightarrow> h_first m1 h = h_first m h"
    using hchain_del [OF b] by auto
  let ?m = "INIT_HLIST_NODE m1 x"
  have "\<not> hlist_unhashed m x"
    using hchain_pprev [OF b] by (simp add: hlist_unhashed_def)
  then have del: "hlist_del_init m x = Some ?m"
    using m1(1) by (simp add: hlist_del_init_def)
  have "hchain ?m (First j) ((as @ (us @ vs) # cs) ! j)" if j: "j < length (as @ (us @ vs) # cs)" for j
  proof (cases "j = ?i")
    case True
    then show ?thesis
      using m1(2) xs by (subst hchain_cong [of _ _ m1]) (auto simp: INIT_HLIST_NODE_def)
  next
    case False
    then have eq: "(as @ (us @ vs) # cs) ! j = bs ! j"
      unfolding split by (simp add: nth_append nth_Cons')
    have "hchain m (First j) (bs ! j)" and "\<And>y. y \<in> set (bs ! j) \<Longrightarrow> y \<notin> set (us @ x # vs)"
      using t j other_bucket [of as b cs j] False unfolding htable_def split e by simp_all
    then show ?thesis
      using False m1(3-5) unfolding eq by (subst hchain_cong [of _ _ m]) (auto simp: INIT_HLIST_NODE_def)
  qed
  moreover have "h_pprev ?m y = None" if "y \<notin> set (concat (as @ (us @ vs) # cs))" for y
    using that t m1(4) [of y] unfolding htable_def split e by (auto simp: INIT_HLIST_NODE_def)
  moreover have "distinct (concat (as @ (us @ vs) # cs))"
    using dist unfolding split e by auto
  ultimately show ?thesis
    using del unfolding flt htable_def by blast
qed

subsection \<open>The lists of the program\<close>

text \<open>
  C16: The pointer code of src/list.h implements the lists the model of wsd works on: adding a
  socket to \<open>sk_list\<close>, unlinking it from \<open>sk_list\<close> and from \<open>work_list\<close> leave the circular
  list that represents the new HOL list.
\<close>

theorem list_code_refines_lists:
  assumes sk: "dlist m head (sk_list w)" and work: "dlist n whead (work_list w)"
  shows "(s \<notin> set (head # sk_list w) \<longrightarrow> dlist (list_add_tail m s head) head (sk_list w @ [s]))
    \<and> (\<forall>w'. sk_list_del w s = Ret w' \<longrightarrow> dlist (list_del m s) head (sk_list w'))
    \<and> (s \<in> set (work_list w) \<longrightarrow> dlist (list_del n s) whead (work_list (work_del w s)))
    \<and> (list_empty m head \<longleftrightarrow> sk_list w = [])"
  using dlist_add_tail [OF sk] dlist_del [OF sk, of s] dlist_del [OF work, of s] dlist_empty_iff [OF sk]
  by (auto simp: sk_list_del_def work_del_def)

definition demo_links :: links where
  "demo_links = list_add_tail (list_add_tail (init_list_head \<lparr>l_next = (\<lambda>_. 0), l_prev = (\<lambda>_. 0)\<rparr> 9) 1 9) 2 9"

lemma demo_links_dlist: "dlist demo_links 9 [1, 2]"
proof -
  let ?m = "init_list_head \<lparr>l_next = (\<lambda>_. 0), l_prev = (\<lambda>_. 0)\<rparr> 9"
  have "dlist (list_add_tail ?m 1 9) 9 ([] @ [1])"
    by (intro dlist_add_tail dlist_init) simp
  then have "dlist (list_add_tail (list_add_tail ?m 1 9) 2 9) 9 ([1] @ [2])"
    by (intro dlist_add_tail) simp_all
  then show ?thesis
    by (simp add: demo_links_def)
qed

theorem list_code_refines_lists_witness:
  "dlist (list_add_tail demo_links 3 9) 9 [1, 2, 3] \<and> dlist (list_del demo_links 1) 9 [2]"
proof -
  let ?w = "(init_world default_cfg)\<lparr>sk_list := [1, 2], work_list := [1, 2]\<rparr>"
  show ?thesis
    using list_code_refines_lists [of demo_links 9 ?w demo_links 9 3]
      list_code_refines_lists [of demo_links 9 ?w demo_links 9 1] demo_links_dlist
    by (simp add: sk_list_del_def)
qed

text \<open>
  C17: A loop with \<open>list_for_each_entry_safe\<close> ends, and handles every socket that was linked when
  it started exactly once and in order, although its body unlinks and frees sockets: it is
  the fold over the HOL list that the model uses, and what stays linked is what the body
  did not unlink.
\<close>

theorem for_each_entry_safe_is_fold:
  assumes "dlist m head xs"
  shows "\<exists>m'. list_for_each_entry_safe (unlink_some f del) head s m = Some (foldl f s xs, m')
    \<and> dlist m' head (keep_unlinked f del s xs)"
proof -
  have "l_next m head = hd (xs @ [head])"
    using assms by (cases xs) (simp_all add: dlist_def linked_Cons2)
  then show ?thesis
    using for_each_entry_safe_run [of m head "[]" xs f del s] assms
    by (simp add: list_for_each_entry_safe_def Let_def)
qed

theorem for_each_entry_safe_is_fold_witness:
  "\<exists>m'. list_for_each_entry_safe (unlink_some (\<lambda>s e. s @ [e]) (\<lambda>s e. e = 1)) 9 [] demo_links = Some ([1, 2], m')
    \<and> dlist m' 9 [2]"
  using for_each_entry_safe_is_fold [OF demo_links_dlist, of "\<lambda>s e. s @ [e]" "\<lambda>s e. e = 1" "[]"] by simp

text \<open>
  C18: The pointer code of src/hashtable.h implements the buckets of the model: \<open>hash_add\<close> puts a
  new socket in front of its bucket, \<open>hash_del\<close> removes a socket from whatever bucket it is
  in and leaves every other bucket alone, and deleting an unlisted socket does nothing; it
  never writes through a null \<open>pprev\<close>.
\<close>

theorem hash_code_refines_buckets:
  assumes t: "htable m (sk_hash w)"
  shows "(\<forall>w'. hash_add w s key = Ret w' \<longrightarrow> \<not> hashed w s \<longrightarrow> s \<noteq> NULL \<longrightarrow>
        htable (hlist_add_head m s (hash_min key)) (sk_hash w'))
    \<and> (\<exists>m'. hlist_del_init m s = Some m' \<and> htable m' (sk_hash (hash_del w s)) \<and> hlist_unhashed m' s)"
proof -
  have "htable (hlist_add_head m s (hash_min key)) (sk_hash w')"
    if "hash_add w s key = Ret w'" "\<not> hashed w s" "s \<noteq> NULL" for w'
    using that htable_add [OF t, of s "hash_min key"]
    by (auto simp: hash_add_def hash_bucket_def hashed_def outcome_simps split: if_splits)
  moreover obtain m' where m': "hlist_del_init m s = Some m'" "htable m' (sk_hash (hash_del w s))"
    using htable_del [OF t, of s] by (auto simp: hash_del_def)
  moreover have "hlist_unhashed m' s"
    using m'(2) by (auto simp: htable_def hlist_unhashed_def hash_del_def)
  ultimately show ?thesis
    by blast
qed

theorem hash_code_refines_buckets_witness:
  "\<exists>m'. hlist_del_init (hlist_add_head \<lparr>h_first = (\<lambda>_. 0), h_next = (\<lambda>_. 0), h_pprev = (\<lambda>_. None)\<rparr> 7 3) 7 = Some m'
     \<and> htable m' (replicate 16 [])"
proof -
  let ?m = "\<lparr>h_first = (\<lambda>_. 0), h_next = (\<lambda>_. 0), h_pprev = (\<lambda>_. None)\<rparr> :: hlinks"
  let ?w = "init_world default_cfg"
  have h: "hash_min 0x0300000000000000 = 3"
    by code_simp
  have w: "hash_add ?w 7 0x0300000000000000 = Ret (?w\<lparr>sk_hash := (replicate 16 [])[3 := [7]]\<rparr>)"
    using h by (simp add: hash_add_def hash_bucket_def init_world_def)
  have "htable ?m (replicate 16 [])"
    by (simp add: htable_def)
  then have "htable (hlist_add_head ?m 7 3) ((replicate 16 [])[3 := [7]])"
    using hash_code_refines_buckets [of ?m ?w 7 "0x0300000000000000"] w h
    by (simp add: init_world_def hashed_def)
  then have "htable (hlist_add_head ?m 7 3) (sk_hash (?w\<lparr>sk_hash := (replicate 16 [])[3 := [7]]\<rparr>))"
    by simp
  moreover have "sk_hash (hash_del (?w\<lparr>sk_hash := (replicate 16 [])[3 := [7]]\<rparr>) 7) = replicate 16 []"
    by (simp add: hash_del_def map_update list_update_same_conv)
  ultimately show ?thesis
    using hash_code_refines_buckets [of "hlist_add_head ?m 7 3" "?w\<lparr>sk_hash := (replicate 16 [])[3 := [7]]\<rparr>" 7]
    by auto
qed

end
