(* ===== verification/Options.thy ===== *)
theory Options
  imports Types
begin

text \<open>
  What the two \<open>main\<close> functions use of the C library to read a command line: \<open>getopt\<close> and
  \<open>getopt_long\<close>, which skip what is no option and deliver it at the end, and \<open>atoi\<close>.
\<close>

subsection \<open>Numbers\<close>

definition is_space :: "char \<Rightarrow> bool" where
  "is_space c \<longleftrightarrow> (let n = (of_char c :: nat) in n = 32 \<or> 9 \<le> n \<and> n \<le> 13)"

definition digit :: "char \<Rightarrow> int option" where
  "digit c = (let n = (of_char c :: int) in if 48 \<le> n \<and> n \<le> 57 then Some (n - 48) else None)"

fun digits_value :: "int \<Rightarrow> string \<Rightarrow> int" where
  "digits_value v [] = v"
| "digits_value v (c # cs) = (case digit c of None \<Rightarrow> v | Some d \<Rightarrow> digits_value (10 * v + d) cs)"

definition int_ok :: "int \<Rightarrow> bool" where
  "int_ok v \<longleftrightarrow> - (2 ^ 31) \<le> v \<and> v < 2 ^ 31"

text \<open>A signed integer of the program: an overflow is a fault.\<close>

definition c_int :: "int \<Rightarrow> int outcome" where
  "c_int v = (if int_ok v then Ret v else Fault Overflow)"

definition atoi :: "string \<Rightarrow> int outcome" where
  "atoi s =
     (case dropWhile is_space s of
        [] \<Rightarrow> Ret 0
      | c # cs \<Rightarrow> c_int (if c = CHR ''-'' then - digits_value 0 cs
                        else if c = CHR ''+'' then digits_value 0 cs
                        else digits_value 0 (c # cs)))"

subsection \<open>Options\<close>

text \<open>Whether an option of one letter exists, and whether a colon says that it takes an argument.\<close>

fun takes_arg :: "string \<Rightarrow> char \<Rightarrow> bool option" where
  "takes_arg [] c = None"
| "takes_arg [x] c = (if x = c then Some False else None)"
| "takes_arg (x # y # os) c =
     (if x = c then Some (y = CHR '':'') else takes_arg (if y = CHR '':'' then os else y # os) c)"

text \<open>A group of letters behind one dash; the second result counts the arguments used.\<close>

fun cluster :: "string \<Rightarrow> string \<Rightarrow> string list \<Rightarrow> (char \<times> string) list \<times> nat" where
  "cluster os [] args = ([], 0)"
| "cluster os (c # cs) args =
     (let (r, n) = cluster os cs args in
      case takes_arg os c of
        None \<Rightarrow> ((CHR ''?'', []) # r, n)
      | Some False \<Rightarrow> ((c, []) # r, n)
      | Some True \<Rightarrow>
          if cs \<noteq> [] then ([(c, cs)], 0)
          else (case args of [] \<Rightarrow> ([(CHR ''?'', [])], 0) | a # as \<Rightarrow> ([(c, a)], 1)))"

type_synonym long_option = "string \<times> bool \<times> char"

text \<open>The option of a name, or of a prefix of only one name.\<close>

definition find_long :: "long_option list \<Rightarrow> string \<Rightarrow> long_option option" where
  "find_long ls name =
     (case filter (\<lambda>(n, has, v). n = name) ls of
        l # _ \<Rightarrow> Some l
      | [] \<Rightarrow> (case filter (\<lambda>(n, has, v). take (length name) n = name) ls of [l] \<Rightarrow> Some l | _ \<Rightarrow> None))"

definition long_arg :: "long_option list \<Rightarrow> string \<Rightarrow> string list \<Rightarrow> (char \<times> string) \<times> nat" where
  "long_arg ls t args =
     (let bad = ((CHR ''?'', []), 0); val = dropWhile (\<lambda>c. c \<noteq> CHR ''='') t in
      case find_long ls (takeWhile (\<lambda>c. c \<noteq> CHR ''='') t) of
        None \<Rightarrow> bad
      | Some (n, has, v) \<Rightarrow>
          if has then
            (if val \<noteq> [] then ((v, tl val), 0)
             else (case args of [] \<Rightarrow> bad | a # as \<Rightarrow> ((v, a), 1)))
          else if val \<noteq> [] then bad else ((v, []), 0))"

text \<open>
  The calls of \<open>getopt_long\<close> until it returns -1, for \<open>getopt\<close> with no long options, on the
  arguments behind the program's name: what they return with \<open>optarg\<close>, and what is left from
  \<open>optind\<close> on.
\<close>

fun getopt :: "string \<Rightarrow> long_option list \<Rightarrow> string list \<Rightarrow> (char \<times> string) list \<times> string list" where
  "getopt os ls [] = ([], [])"
| "getopt os ls (a # as) =
     (if a = ''--'' then ([], as)
      else if ls \<noteq> [] \<and> take 2 a = ''--'' then
        (let (r, n) = long_arg ls (drop 2 a) as; (rs, rest) = getopt os ls (drop n as) in (r # rs, rest))
      else if take 1 a = ''-'' \<and> 1 < length a then
        (let (r, n) = cluster os (tl a) as; (rs, rest) = getopt os ls (drop n as) in (r @ rs, rest))
      else let (rs, rest) = getopt os ls as in (rs, a # rest))"

text \<open>The last argument given for an option, and all of them.\<close>

definition args_of :: "char \<Rightarrow> (char \<times> string) list \<Rightarrow> string list" where
  "args_of c os = map snd (filter (\<lambda>x. fst x = c) os)"

definition last_arg :: "char \<Rightarrow> (char \<times> string) list \<Rightarrow> string option" where
  "last_arg c os = (if args_of c os = [] then None else Some (last (args_of c os)))"

lemma args_of_simps [simp]:
  "args_of c [] = []"
  "args_of c (os @ [(d, x)]) = args_of c os @ (if d = c then [x] else [])"
  by (simp_all add: args_of_def)

lemma last_arg_simps [simp]:
  "last_arg c [] = None"
  "last_arg c (os @ [(d, x)]) = (if d = c then Some x else last_arg c os)"
  by (simp_all add: last_arg_def)

subsection \<open>Programs that make system calls\<close>

datatype ending = Exits int | Dies fault

text \<open>A program takes the calls made so far; it ends, or it goes on with a value.\<close>

type_synonym ('c, 'a) prog = "'c list \<Rightarrow> (ending \<times> 'c list) + ('a \<times> 'c list)"

definition pret :: "'a \<Rightarrow> ('c, 'a) prog" where
  "pret x t = Inr (x, t)"

definition pbind :: "('c, 'a) prog \<Rightarrow> ('a \<Rightarrow> ('c, 'b) prog) \<Rightarrow> ('c, 'b) prog" where
  "pbind m f t = (case m t of Inl e \<Rightarrow> Inl e | Inr (x, t') \<Rightarrow> f x t')"

definition pend :: "ending \<Rightarrow> ('c, 'a) prog" where
  "pend e t = Inl (e, t)"

definition pcall :: "'c \<Rightarrow> ('c, unit) prog" where
  "pcall c t = Inr ((), t @ [c])"

text \<open>\<open>A\<close>, \<open>AZ\<close>, \<open>AN\<close> and \<open>ERREXIT\<close> exit with status 1.\<close>

definition pneed :: "bool \<Rightarrow> ('c, unit) prog" where
  "pneed b = (if b then pret () else pend (Exits 1))"

definition pwhen :: "bool \<Rightarrow> ('c, unit) prog \<Rightarrow> ('c, unit) prog" where
  "pwhen b m = (if b then m else pret ())"

definition plift :: "'a outcome \<Rightarrow> ('c, 'a) prog" where
  "plift m = (case m of Ret x \<Rightarrow> pret x | Exit \<Rightarrow> pend (Exits 1) | Fault e \<Rightarrow> pend (Dies e))"

text \<open>
  Where the memory of a string comes from: \<open>free\<close> takes only what \<open>malloc\<close> returned.
\<close>

datatype origin = Literal | Argument | Malloced

definition pfree :: "origin \<Rightarrow> ('c, unit) prog" where
  "pfree r = (if r = Malloced then pret () else pend (Dies Bad_free))"

lemma pbind_simps [simp]:
  "pbind (pret x) f = f x" "pbind (pend e) f = pend e" "pbind m pret = m" "pbind (pbind m f) g = pbind m (\<lambda>x. pbind (f x) g)"
  by (auto simp: pbind_def pret_def pend_def split: sum.splits)

lemma plift_simps [simp]: "plift (Ret x) = pret x" "plift Exit = pend (Exits 1)" "plift (Fault e) = pend (Dies e)"
  by (simp_all add: plift_def)

end
