(* ===== verification/Daemon.thy ===== *)
theory Daemon
  imports Options Child
begin

text \<open>
  The program wsd (src/wsd.c): its command line, the configuration it gives, and the way to the
  child process and out of it. The run of a program is modelled with the calls it makes on the
  system in their order; what the system answers is an argument.
\<close>

subsection \<open>The calls of the daemon\<close>

datatype daemon_call = Opened string | Chowned int u32 u32 | Forked | Set_umask nat | New_session | Changed_dir string
  | Wrote_pid int | Closed int | Bound int u16 | Set_uid u32 | Ran_child wsd_config | Unlinked string

type_synonym 'a daemon = "(daemon_call, 'a) prog"

subsection \<open>The command line\<close>

definition DEFAULT_MAX_HOSTNAMES :: nat where "DEFAULT_MAX_HOSTNAMES = 16"
definition DEFAULT_FORWARD_HOST :: string where "DEFAULT_FORWARD_HOST = ''127.0.0.1''"
definition DEFAULT_FORWARD_PORT :: string where "DEFAULT_FORWARD_PORT = ''6085''"
definition DEFAULT_LISTENING_PORT :: int where "DEFAULT_LISTENING_PORT = 6084"
definition DEFAULT_IDLE_TIMEOUT :: int where "DEFAULT_IDLE_TIMEOUT = -1"
definition DEFAULT_CLOSING_HANDSHAKE_TIMEOUT :: int where "DEFAULT_CLOSING_HANDSHAKE_TIMEOUT = 8000"

definition wsd_optstring :: string where "wsd_optstring = ''h:p:P:o:f:u:i:n:dv?''"

record wsd_args =
  wa_o :: int
  wa_d :: bool
  wa_i :: int
  wa_v :: int
  wa_n :: int
  wa_f :: string
  wa_u :: "string option"
  wa_p :: "string option"
  wa_P :: "string option"
  wa_h :: "(origin \<times> string) list"

definition wsd_no_args :: wsd_args where
  "wsd_no_args = \<lparr>wa_o = DEFAULT_LISTENING_PORT, wa_d = False, wa_i = DEFAULT_IDLE_TIMEOUT, wa_v = 0, wa_n = -1,
     wa_f = DEFAULT_FORWARD_PORT, wa_u = None, wa_p = None, wa_P = None, wa_h = []\<rparr>"

text \<open>One round of the option loop: the program exits, or the arguments are updated.\<close>

definition wsd_option :: "char \<Rightarrow> string \<Rightarrow> wsd_args \<Rightarrow> wsd_args daemon" where
  "wsd_option c x a =
     (if c = CHR ''h'' then
        if DEFAULT_MAX_HOSTNAMES \<le> length (wa_h a) then pend (Exits 1)
        else pret (a\<lparr>wa_h := wa_h a @ [(Argument, x)]\<rparr>)
      else if c = CHR ''u'' then pret (a\<lparr>wa_u := Some x\<rparr>)
      else if c = CHR ''p'' then pret (a\<lparr>wa_p := Some x\<rparr>)
      else if c = CHR ''P'' then pret (a\<lparr>wa_P := Some x\<rparr>)
      else if c = CHR ''o'' then pbind (plift (atoi x)) (\<lambda>v. pret (a\<lparr>wa_o := v\<rparr>))
      else if c = CHR ''n'' then pbind (plift (atoi x)) (\<lambda>v. pret (a\<lparr>wa_n := v\<rparr>))
      else if c = CHR ''f'' then pret (a\<lparr>wa_f := x\<rparr>)
      else if c = CHR ''d'' then pret (a\<lparr>wa_d := True\<rparr>)
      else if c = CHR ''v'' then pret (a\<lparr>wa_v := wa_v a + 1\<rparr>)
      else if c = CHR ''i'' then pbind (plift (atoi x)) (\<lambda>v. pret (a\<lparr>wa_i := v\<rparr>))
      else if c = CHR ''?'' then pend (Exits 0)
      else pend (Exits 1))"

fun wsd_options :: "(char \<times> string) list \<Rightarrow> wsd_args \<Rightarrow> wsd_args daemon" where
  "wsd_options [] a = pret a"
| "wsd_options ((c, x) # os) a = pbind (wsd_option c x a) (wsd_options os)"

text \<open>The defaults that are filled in behind the loop.\<close>

definition wsd_settle :: "wsd_args \<Rightarrow> wsd_args" where
  "wsd_settle a =
     (let a = (if wa_h a = [] then a\<lparr>wa_h := [(Literal, DEFAULT_FORWARD_HOST)]\<rparr> else a);
          a = (if wa_u a = None then a\<lparr>wa_u := Some ''wsd''\<rparr> else a)
      in if 0 > wa_i a then a\<lparr>wa_i := DEFAULT_IDLE_TIMEOUT\<rparr> else a)"

text \<open>The configuration, with \<open>n_arg * 1000\<close> in a signed integer.\<close>

definition wsd_config_of :: "wsd_args \<Rightarrow> u32 \<Rightarrow> wsd_config outcome" where
  "wsd_config_of a uid =
     obind (c_int (wa_n a * 1000)) (\<lambda>ping.
     Ret \<lparr>cfg_uid = uid, cfg_lfd = 0, cfg_lport = wa_o a, cfg_fport = wa_f a, cfg_fhostname = map snd (wa_h a),
       cfg_fhostname_num = of_nat (length (wa_h a)), cfg_pidfilename = wa_p a, cfg_verbose = of_int (wa_v a),
       cfg_no_fork = wa_d a, cfg_idle_timeout = wa_i a, cfg_ping_interval = ping,
       cfg_closing_handshake_timeout = DEFAULT_CLOSING_HANDSHAKE_TIMEOUT, cfg_sec_ws_proto = wa_P a,
       cfg_user_agent = [], cfg_request_target = [], cfg_sec_ws_ver = [], cfg_sec_ws_key = [], cfg_tls = False,
       cfg_no_check_cert = False\<rparr>)"

subsection \<open>The daemon\<close>

record host_system =
  hs_cwd :: string
  hs_getpwnam :: "string \<Rightarrow> (u32 \<times> u32) option"
  hs_open :: "string \<Rightarrow> int"
  hs_fchown :: int
  hs_fork :: int
  hs_setsid :: int
  hs_chdir :: int
  hs_write :: int
  hs_close :: "int \<Rightarrow> int"
  hs_socket :: int
  hs_setsockopt :: int
  hs_bind :: int
  hs_getuid :: u32
  hs_setuid :: "u32 \<Rightarrow> int"
  hs_unlink :: "string \<Rightarrow> int"
  hs_child :: "wsd_config \<Rightarrow> int outcome"

text \<open>The file a relative name means in a working directory.\<close>

definition path_in :: "string \<Rightarrow> string \<Rightarrow> string" where
  "path_in dir p = (if take 1 p = ''/'' then p else dir @ ''/'' @ p)"

definition open_pidfile :: "host_system \<Rightarrow> string option \<Rightarrow> u32 \<Rightarrow> u32 \<Rightarrow> int daemon" where
  "open_pidfile sys p uid gid =
     (case p of
        None \<Rightarrow> pret 0
      | Some p \<Rightarrow>
          let file = path_in (hs_cwd sys) p; fd = hs_open sys file in
          if 0 > fd then pend (Exits 1)
          else
          pbind (pcall (Opened file)) (\<lambda>_.
          if 0 > hs_fchown sys then pend (Exits 1)
          else pbind (pcall (Chowned fd uid gid)) (\<lambda>_. pret fd)))"

definition listen_sk_bind :: "host_system \<Rightarrow> int \<Rightarrow> int daemon" where
  "listen_sk_bind sys port =
     pbind (pneed (hs_socket sys \<ge> 0)) (\<lambda>_.
     pbind (pneed (hs_setsockopt sys = 0)) (\<lambda>_.
     pbind (pneed (hs_bind sys = 0)) (\<lambda>_.
     pbind (pcall (Bound (hs_socket sys) (of_int port))) (\<lambda>_.
     pret (hs_socket sys)))))"

definition drop_priv :: "host_system \<Rightarrow> u32 \<Rightarrow> int daemon" where
  "drop_priv sys uid =
     (if 0 > hs_setuid sys uid then pret (-1) else pbind (pcall (Set_uid uid)) (\<lambda>_. pret 0))"

definition pclose :: "host_system \<Rightarrow> int \<Rightarrow> unit daemon" where
  "pclose sys fd = pbind (pneed (hs_close sys fd = 0)) (\<lambda>_. pcall (Closed fd))"

text \<open>After \<open>chdir("/")\<close> the name of the pid file means a file of the root directory.\<close>

definition store_pid :: "host_system \<Rightarrow> string option \<Rightarrow> int \<Rightarrow> unit daemon" where
  "store_pid sys p pidfd =
     (case p of
        None \<Rightarrow> pret ()
      | Some p \<Rightarrow>
          if 0 > hs_write sys then
            pbind (pwhen (hs_unlink sys (path_in [] p) = 0) (pcall (Unlinked (path_in [] p)))) (\<lambda>_. pend (Exits 1))
          else pbind (pcall (Wrote_pid pidfd)) (\<lambda>_. pclose sys pidfd))"

text \<open>Standard input, output and error are closed whatever \<open>close\<close> returns.\<close>

definition leave_terminal :: "unit daemon" where
  "leave_terminal = pbind (pcall (Closed 0)) (\<lambda>_. pbind (pcall (Closed 1)) (\<lambda>_. pcall (Closed 2)))"

text \<open>\<open>wschild_main(&cfg)\<close> and what follows it.\<close>

definition serve_and_leave :: "host_system \<Rightarrow> wsd_config \<Rightarrow> origin \<Rightarrow> unit daemon" where
  "serve_and_leave sys cfg host0 =
     pbind (pcall (Ran_child cfg)) (\<lambda>_.
     pbind (plift (hs_child sys cfg)) (\<lambda>rv.
     pbind (pclose sys (cfg_lfd cfg)) (\<lambda>_.
     pbind (case cfg_pidfilename cfg of
              None \<Rightarrow> pret ()
            | Some p \<Rightarrow> pbind (pneed (hs_unlink sys (path_in [] p) = 0)) (\<lambda>_. pcall (Unlinked (path_in [] p)))) (\<lambda>_.
     pbind (pfree Malloced) (\<lambda>_.
     pbind (pfree host0) (\<lambda>_.
     pbind (pfree Malloced) (\<lambda>_.
     pend (Exits rv))))))))"

definition wsd_daemon :: "host_system \<Rightarrow> wsd_config \<Rightarrow> origin \<Rightarrow> int \<Rightarrow> unit daemon" where
  "wsd_daemon sys cfg host0 pidfd =
     pbind (pcall (Set_umask 0)) (\<lambda>_.
     pbind (pwhen (\<not> cfg_no_fork cfg) (pbind (pneed (\<not> 0 > hs_setsid sys)) (\<lambda>_. pcall New_session))) (\<lambda>_.
     pbind (pneed (\<not> 0 > hs_chdir sys)) (\<lambda>_.
     pbind (pcall (Changed_dir ''/'')) (\<lambda>_.
     pbind (store_pid sys (cfg_pidfilename cfg) pidfd) (\<lambda>_.
     pbind (pwhen (\<not> cfg_no_fork cfg) leave_terminal) (\<lambda>_.
     pbind (listen_sk_bind sys (cfg_lport cfg)) (\<lambda>lfd.
     if 0 > lfd then pend (Exits 1)
     else
     let cfg = cfg\<lparr>cfg_lfd := lfd\<rparr> in
     pbind (pwhen (hs_getuid sys = 0)
              (pbind (drop_priv sys (cfg_uid cfg)) (\<lambda>rv.
               pwhen (0 > rv) (pbind (pclose sys lfd) (\<lambda>_. pend (Exits 1)))))) (\<lambda>_.
     serve_and_leave sys cfg host0))))))))"

definition wsd_main :: "host_system \<Rightarrow> string list \<Rightarrow> unit daemon" where
  "wsd_main sys argv =
     pbind (wsd_options (fst (getopt wsd_optstring [] argv)) wsd_no_args) (\<lambda>a.
     let a = wsd_settle a in
     case hs_getpwnam sys (the (wa_u a)) of
       None \<Rightarrow> pend (Exits 1)
     | Some (uid, gid) \<Rightarrow>
     if uid = 0 then pend (Exits 1)
     else
     pbind (open_pidfile sys (wa_p a) uid gid) (\<lambda>pidfd.
     pbind (plift (wsd_config_of a uid)) (\<lambda>cfg.
     pbind (if cfg_no_fork cfg then pret 0
            else pbind (pneed (\<not> 0 > hs_fork sys)) (\<lambda>_. pbind (pcall Forked) (\<lambda>_. pret (hs_fork sys)))) (\<lambda>pid.
     if pid = 0 \<or> cfg_no_fork cfg then wsd_daemon sys cfg (fst (hd (wa_h a))) pidfd
     else pend (Exits 0)))))"

subsection \<open>What the options mean\<close>

lemma wsd_options_snoc: "wsd_options (os @ [(c, x)]) = (\<lambda>a. pbind (wsd_options os a) (wsd_option c x))"
proof (induction os)
  case Nil
  have "wsd_options [] = pret"
    by (rule ext) simp
  then show ?case
    by (intro ext) simp
next
  case (Cons o1 os)
  then show ?case
    by (intro ext) (cases o1, simp)
qed

text \<open>An option of wsd whose number, if it takes one, fits an int.\<close>

definition plain_option :: "char \<times> string \<Rightarrow> bool" where
  "plain_option = (\<lambda>(c, x). c \<in> set ''hpPofuindv'' \<and> (c \<in> set ''oin'' \<longrightarrow> (\<exists>v. atoi x = Ret v)))"

definition number :: "int \<Rightarrow> string option \<Rightarrow> int" where
  "number d x = (case x of None \<Rightarrow> d | Some x \<Rightarrow> (case atoi x of Ret v \<Rightarrow> v | _ \<Rightarrow> d))"

lemma number_Some: "atoi x = Ret v \<Longrightarrow> number d (Some x) = v"
  by (simp add: number_def)

definition args_from :: "(char \<times> string) list \<Rightarrow> wsd_args" where
  "args_from os =
     \<lparr>wa_o = number DEFAULT_LISTENING_PORT (last_arg CHR ''o'' os), wa_d = (args_of CHR ''d'' os \<noteq> []),
      wa_i = number DEFAULT_IDLE_TIMEOUT (last_arg CHR ''i'' os), wa_v = int (length (args_of CHR ''v'' os)),
      wa_n = number (-1) (last_arg CHR ''n'' os),
      wa_f = (case last_arg CHR ''f'' os of None \<Rightarrow> DEFAULT_FORWARD_PORT | Some x \<Rightarrow> x),
      wa_u = last_arg CHR ''u'' os, wa_p = last_arg CHR ''p'' os, wa_P = last_arg CHR ''P'' os,
      wa_h = map (Pair Argument) (args_of CHR ''h'' os)\<rparr>"

lemma wsd_option_args_from:
  assumes "plain_option (c, x)" "length (args_of CHR ''h'' os) \<le> 16"
  shows "wsd_option c x (args_from os)
    = (if 16 < length (args_of CHR ''h'' (os @ [(c, x)])) then pend (Exits 1) else pret (args_from (os @ [(c, x)])))"
proof -
  have "c \<in> set ''hpPofuindv''"
    using assms(1) by (simp add: plain_option_def)
  then consider "c = CHR ''h''" | "c = CHR ''p''" | "c = CHR ''P''" | "c = CHR ''o''" | "c = CHR ''f''" | "c = CHR ''u''"
    | "c = CHR ''i''" | "c = CHR ''n''" | "c = CHR ''d''" | "c = CHR ''v''"
    by auto
  then show ?thesis
    using assms
    by cases (auto simp: wsd_option_def args_from_def plain_option_def DEFAULT_MAX_HOSTNAMES_def number_Some add.commute)
qed

lemma wsd_options_from:
  "\<forall>x \<in> set os. plain_option x \<Longrightarrow> wsd_options os wsd_no_args
    = (if 16 < length (args_of CHR ''h'' os) then pend (Exits 1) else pret (args_from os))"
proof (induction os rule: rev_induct)
  case Nil
  show ?case
    by (simp add: wsd_no_args_def args_from_def number_def)
next
  case (snoc o1 os)
  obtain c x where o1: "o1 = (c, x)" by (cases o1)
  show ?case
  proof (cases "16 < length (args_of CHR ''h'' os)")
    case True
    then show ?thesis
      using snoc by (simp add: o1 wsd_options_snoc)
  next
    case False
    then show ?thesis
      using snoc wsd_option_args_from [of c x os] by (simp add: o1 wsd_options_snoc)
  qed
qed

text \<open>
  C11: The configuration that a command line of wsd leads to, field by field: hosts accumulate, up to
  16 of them, any other option counts as it was given last, and what is not given has its default; a
  negative idle timeout disables it, the ping interval is given in seconds and is a fault when it
  overflows, \<open>-v\<close> is counted, and only \<open>-d\<close> keeps the daemon attached, though wsd.8 says that
  \<open>-v\<close> implies it. More hosts end the program.
\<close>

theorem wsd_options_configure:
  assumes "\<forall>x \<in> set os. plain_option x"
  shows "pbind (wsd_options os wsd_no_args) (\<lambda>a. plift (wsd_config_of (wsd_settle a) uid))
    = (if 16 < length (args_of CHR ''h'' os) then pend (Exits 1)
       else pbind (plift (c_int (number (-1) (last_arg CHR ''n'' os) * 1000))) (\<lambda>ping. pret
         (default_cfg\<lparr>cfg_uid := uid, cfg_lfd := 0,
            cfg_lport := number 6084 (last_arg CHR ''o'' os),
            cfg_fport := (case last_arg CHR ''f'' os of None \<Rightarrow> ''6085'' | Some x \<Rightarrow> x),
            cfg_fhostname := (if args_of CHR ''h'' os = [] then [''127.0.0.1''] else args_of CHR ''h'' os),
            cfg_fhostname_num := of_nat (max 1 (length (args_of CHR ''h'' os))),
            cfg_pidfilename := last_arg CHR ''p'' os,
            cfg_verbose := of_nat (length (args_of CHR ''v'' os)),
            cfg_no_fork := (args_of CHR ''d'' os \<noteq> []),
            cfg_idle_timeout := max (-1) (number (-1) (last_arg CHR ''i'' os)),
            cfg_ping_interval := ping,
            cfg_sec_ws_proto := last_arg CHR ''P'' os\<rparr>)))"
proof (cases "16 < length (args_of CHR ''h'' os)")
  case False
  have m: "max (Suc 0) (length as) = length as" if "as \<noteq> []" for as :: "string list"
    using that by (cases as) simp_all
  have c: "c_int v = Ret v \<or> c_int v = Fault Overflow" for v
    by (simp add: c_int_def)
  show ?thesis
    using False c [of "number (- 1) (last_arg CHR ''n'' os) * 1000"] unfolding wsd_options_from [OF assms]
    by (auto simp: args_from_def wsd_settle_def wsd_config_of_def default_cfg_def Let_def m comp_def
        DEFAULT_CLOSING_HANDSHAKE_TIMEOUT_def DEFAULT_IDLE_TIMEOUT_def DEFAULT_FORWARD_PORT_def DEFAULT_FORWARD_HOST_def
        DEFAULT_LISTENING_PORT_def split: option.splits)
qed (simp add: wsd_options_from [OF assms])


text \<open>A command line with every kind of option.\<close>

definition demo_argv :: "string list" where
  "demo_argv = [''-h'', ''10.0.0.1'', ''-dv'', ''-n30'', ''-h'', ''10.0.0.2'', ''-o'', ''80'', ''-i'', ''-7'', ''-P'', ''chat'']"

theorem wsd_options_configure_witness:
  "pbind (wsd_options (fst (getopt wsd_optstring [] demo_argv)) wsd_no_args) (\<lambda>a. plift (wsd_config_of (wsd_settle a) 100))
    = pret (default_cfg\<lparr>cfg_uid := 100, cfg_lfd := 0, cfg_lport := 80, cfg_fhostname := [''10.0.0.1'', ''10.0.0.2''],
        cfg_fhostname_num := 2, cfg_verbose := 1, cfg_no_fork := True, cfg_idle_timeout := -1, cfg_ping_interval := 30000,
        cfg_sec_ws_proto := Some ''chat''\<rparr>)"
proof -
  let ?os = "fst (getopt wsd_optstring [] demo_argv)"
  have g: "?os = [(CHR ''h'', ''10.0.0.1''), (CHR ''d'', []), (CHR ''v'', []), (CHR ''n'', ''30''), (CHR ''h'', ''10.0.0.2''),
      (CHR ''o'', ''80''), (CHR ''i'', ''-7''), (CHR ''P'', ''chat'')]"
    by code_simp
  have n: "atoi ''30'' = Ret 30" "atoi ''80'' = Ret 80" "atoi ''-7'' = Ret (-7)"
    by code_simp+
  have "\<forall>x \<in> set ?os. plain_option x"
    using n by (simp add: g plain_option_def)
  from wsd_options_configure [OF this, of 100] show ?thesis
    using n by (simp add: g args_of_def last_arg_def number_def c_int_def int_ok_def default_cfg_def)
qed

subsection \<open>What the program does to the system\<close>

text \<open>A run ends with \<open>E\<close>, or goes on with \<open>Q\<close>.\<close>

definition wp :: "'a daemon \<Rightarrow> ('a \<Rightarrow> daemon_call list \<Rightarrow> bool) \<Rightarrow> (ending \<Rightarrow> daemon_call list \<Rightarrow> bool) \<Rightarrow> daemon_call list \<Rightarrow> bool" where
  "wp m Q E t = (case m t of Inl (e, t') \<Rightarrow> E e t' | Inr (x, t') \<Rightarrow> Q x t')"

lemma wp_simps [simp]:
  "wp (pret x) Q E t = Q x t"
  "wp (pend e) Q E t = E e t"
  "wp (pcall c) Q' E t = Q' () (t @ [c])"
  "wp (pbind n f) Q E t = wp n (\<lambda>x. wp (f x) Q E) E t"
  by (simp_all add: wp_def pret_def pend_def pcall_def pbind_def split: sum.splits prod.splits)

lemma wp_control [simp]:
  "wp (pneed b) Q' E t = (if b then Q' () t else E (Exits 1) t)"
  "wp (pwhen b m') Q' E t = (if b then wp m' Q' E t else Q' () t)"
  "wp (pfree r) Q' E t = (if r = Malloced then Q' () t else E (Dies Bad_free) t)"
  "wp (plift m) Q E t = (case m of Ret x \<Rightarrow> Q x t | Exit \<Rightarrow> E (Exits 1) t | Fault e \<Rightarrow> E (Dies e) t)"
  by (simp_all add: pneed_def pwhen_def pfree_def plift_def split: outcome.split)

lemma wp_if: "(b \<Longrightarrow> wp m Q E t) \<Longrightarrow> (\<not> b \<Longrightarrow> wp n Q E t) \<Longrightarrow> wp (if b then m else n) Q E t"
  by simp

lemma wpD: "wp m Q E t \<Longrightarrow> m t = Inl (e, t') \<Longrightarrow> E e t'"
  by (simp add: wp_def)

definition from_argv :: "wsd_args \<Rightarrow> bool" where
  "from_argv a \<longleftrightarrow> (\<forall>x \<in> set (wa_h a). fst x \<noteq> Malloced)"

lemma wp_wsd_option:
  assumes "from_argv a" "\<And>a'. from_argv a' \<Longrightarrow> Q a' t" "\<And>e. E e t"
  shows "wp (wsd_option c x a) Q E t"
proof -
  have keep: "from_argv (f a)" if "wa_h (f a) = wa_h a" for f
    using assms(1) that by (simp add: from_argv_def)
  have host: "from_argv (a\<lparr>wa_h := wa_h a @ [(Argument, x)]\<rparr>)"
    using assms(1) by (auto simp: from_argv_def)
  show ?thesis
    unfolding wsd_option_def by (intro wp_if) (auto intro!: assms(2,3) keep host split: outcome.split)
qed

lemma wp_wsd_options:
  assumes "from_argv a" "\<And>a'. from_argv a' \<Longrightarrow> Q a' t" "\<And>e. E e t"
  shows "wp (wsd_options os a) Q E t"
  using assms(1)
proof (induction os arbitrary: a)
  case Nil
  then show ?case
    by (simp add: assms(2))
next
  case (Cons o1 os)
  obtain c x where o1: "o1 = (c, x)" by (cases o1)
  show ?case
    using Cons.IH wp_wsd_option [OF Cons.prems, of "\<lambda>a. wp (wsd_options os a) Q E"] assms(3) by (simp add: o1)
qed

lemma settle_host: "from_argv a \<Longrightarrow> wa_h (wsd_settle a) \<noteq> [] \<and> fst (hd (wa_h (wsd_settle a))) \<noteq> Malloced"
  by (auto simp: from_argv_def wsd_settle_def Let_def)

lemma config_uid: "wsd_config_of a uid = Ret cfg \<Longrightarrow> cfg_uid cfg = uid"
  by (auto simp: wsd_config_of_def outcome_simps)

text \<open>
  The child is run with a configuration only behind everything that has to come first: it
  never runs as root, the port is bound, and without -d the program is a daemon of its own.
\<close>

definition prepared :: "host_system \<Rightarrow> wsd_config \<Rightarrow> daemon_call list \<Rightarrow> bool" where
  "prepared sys cfg t \<longleftrightarrow> cfg_uid cfg \<noteq> 0 \<and> Bound (cfg_lfd cfg) (of_int (cfg_lport cfg)) \<in> set t \<and> 0 \<le> cfg_lfd cfg
     \<and> (hs_getuid sys = 0 \<longrightarrow> Set_uid (cfg_uid cfg) \<in> set t)
     \<and> (cfg_no_fork cfg \<or> Forked \<in> set t \<and> New_session \<in> set t)"

definition served_safely :: "host_system \<Rightarrow> daemon_call list \<Rightarrow> bool" where
  "served_safely sys t \<longleftrightarrow> (\<forall>cfg. Ran_child cfg \<in> set t \<longrightarrow> (\<exists>u v. t = u @ Ran_child cfg # v \<and> prepared sys cfg u))"

definition childless :: "daemon_call list \<Rightarrow> bool" where
  "childless t \<longleftrightarrow> (\<forall>cfg. Ran_child cfg \<notin> set t)"

lemma childless_simps [simp]:
  "childless []" "childless (c # t) \<longleftrightarrow> (\<forall>cfg. c \<noteq> Ran_child cfg) \<and> childless t" "childless (t @ u) \<longleftrightarrow> childless t \<and> childless u"
  by (auto simp: childless_def)

lemma served_childless: "childless t \<Longrightarrow> served_safely sys t"
  by (simp add: childless_def served_safely_def)

lemma served_once: "childless t \<Longrightarrow> prepared sys cfg t \<Longrightarrow> childless u \<Longrightarrow> served_safely sys (t @ Ran_child cfg # u)"
  unfolding served_safely_def childless_def by auto

text \<open>How a run may end: what has been prepared, and how once the child has returned.\<close>

definition ends_well :: "host_system \<Rightarrow> ending \<Rightarrow> daemon_call list \<Rightarrow> bool" where
  "ends_well sys e t \<longleftrightarrow> served_safely sys t
     \<and> (\<forall>cfg rv. Ran_child cfg \<in> set t \<longrightarrow> hs_child sys cfg = Ret rv \<longrightarrow> (\<forall>fd. hs_close sys fd = 0) \<longrightarrow>
          (\<forall>f. hs_unlink sys f = 0) \<longrightarrow> e = Dies Bad_free)"

lemma ends_childless: "childless t \<Longrightarrow> ends_well sys e t"
  by (auto simp: ends_well_def served_childless childless_def)

lemma ends_served:
  assumes "childless t" "prepared sys cfg t" "childless u"
    and "\<And>rv. hs_child sys cfg = Ret rv \<Longrightarrow> \<forall>fd. hs_close sys fd = 0 \<Longrightarrow> \<forall>f. hs_unlink sys f = 0 \<Longrightarrow> e = Dies Bad_free"
  shows "ends_well sys e (t @ Ran_child cfg # u)"
  using assms served_once [OF assms(1-3)] by (auto simp: ends_well_def childless_def)

lemma wp_serve:
  assumes "childless t" "prepared sys cfg t" "host0 \<noteq> Malloced"
  shows "wp (serve_and_leave sys cfg host0) Q (ends_well sys) t"
  using assms by (auto simp: serve_and_leave_def pclose_def intro: ends_served split: option.split outcome.split)

lemma wp_store_pid:
  assumes "childless t" "\<And>u. childless u \<Longrightarrow> Q () (t @ u)"
  shows "wp (store_pid sys p pidfd) Q (ends_well sys) t"
  using assms(1) assms(2) [of "[Wrote_pid pidfd, Closed pidfd]"] assms(2) [of "[]"]
  by (simp add: store_pid_def pclose_def ends_childless split: option.split)

lemma wp_listen:
  assumes "childless t" "\<And>fd. 0 \<le> fd \<Longrightarrow> Q fd (t @ [Bound fd (of_int port)])"
  shows "wp (listen_sk_bind sys port) Q (ends_well sys) t"
  using assms by (simp add: listen_sk_bind_def ends_childless)

lemma wp_daemon:
  assumes t: "childless t" "cfg_uid cfg \<noteq> 0" "host0 \<noteq> Malloced" "cfg_no_fork cfg \<or> Forked \<in> set t"
  shows "wp (wsd_daemon sys cfg host0 pidfd) Q (ends_well sys) t"
proof -
  have listen: "wp (pbind (listen_sk_bind sys (cfg_lport cfg)) (\<lambda>lfd.
     if 0 > lfd then pend (Exits 1)
     else
     let cfg = cfg\<lparr>cfg_lfd := lfd\<rparr> in
     pbind (pwhen (hs_getuid sys = 0)
              (pbind (drop_priv sys (cfg_uid cfg)) (\<lambda>rv.
               pwhen (0 > rv) (pbind (pclose sys lfd) (\<lambda>_. pend (Exits 1)))))) (\<lambda>_.
     serve_and_leave sys cfg host0))) Q (ends_well sys) u"
    if u: "childless u" "cfg_no_fork cfg \<or> Forked \<in> set u \<and> New_session \<in> set u" for u
    unfolding wp_simps
  proof (rule wp_listen [OF u(1)])
    fix fd :: int assume fd: "0 \<le> fd"
    let ?c = "cfg\<lparr>cfg_lfd := fd\<rparr>"
    have serve: "wp (serve_and_leave sys ?c host0) Q (ends_well sys) (u @ Bound fd (of_int (cfg_lport cfg)) # v)"
      if "childless v" "hs_getuid sys = 0 \<longrightarrow> Set_uid (cfg_uid cfg) \<in> set v" for v
      using that u t(2,3) fd by (intro wp_serve) (auto simp: prepared_def)
    show "wp (if 0 > fd then pend (Exits 1)
     else
     let cfg = cfg\<lparr>cfg_lfd := fd\<rparr> in
     pbind (pwhen (hs_getuid sys = 0)
              (pbind (drop_priv sys (cfg_uid cfg)) (\<lambda>rv.
               pwhen (0 > rv) (pbind (pclose sys fd) (\<lambda>_. pend (Exits 1)))))) (\<lambda>_.
     serve_and_leave sys cfg host0)) Q (ends_well sys) (u @ [Bound fd (of_int (cfg_lport cfg))])"
      using fd u(1) serve by (simp add: Let_def drop_priv_def pclose_def ends_childless)
  qed
  have rest: "wp (pbind (pwhen (\<not> cfg_no_fork cfg) leave_terminal) (\<lambda>_. pbind (listen_sk_bind sys (cfg_lport cfg)) (\<lambda>lfd.
     if 0 > lfd then pend (Exits 1)
     else
     let cfg = cfg\<lparr>cfg_lfd := lfd\<rparr> in
     pbind (pwhen (hs_getuid sys = 0)
              (pbind (drop_priv sys (cfg_uid cfg)) (\<lambda>rv.
               pwhen (0 > rv) (pbind (pclose sys lfd) (\<lambda>_. pend (Exits 1)))))) (\<lambda>_.
     serve_and_leave sys cfg host0)))) Q (ends_well sys) u"
    if u: "childless u" "cfg_no_fork cfg \<or> Forked \<in> set u \<and> New_session \<in> set u" for u
    using listen [OF u] listen [of "u @ [Closed 0, Closed 1, Closed 2]"] u by (auto simp: leave_terminal_def)
  have store: "wp (pbind (store_pid sys (cfg_pidfilename cfg) pidfd) (\<lambda>_. pbind (pwhen (\<not> cfg_no_fork cfg) leave_terminal)
     (\<lambda>_. pbind (listen_sk_bind sys (cfg_lport cfg)) (\<lambda>lfd.
     if 0 > lfd then pend (Exits 1)
     else
     let cfg = cfg\<lparr>cfg_lfd := lfd\<rparr> in
     pbind (pwhen (hs_getuid sys = 0)
              (pbind (drop_priv sys (cfg_uid cfg)) (\<lambda>rv.
               pwhen (0 > rv) (pbind (pclose sys lfd) (\<lambda>_. pend (Exits 1)))))) (\<lambda>_.
     serve_and_leave sys cfg host0))))) Q (ends_well sys) u"
    if u: "childless u" "cfg_no_fork cfg \<or> Forked \<in> set u \<and> New_session \<in> set u" for u
    by (subst wp_simps(4), rule wp_store_pid, rule u(1), rule rest) (use u in auto)
  show ?thesis
    using t(1,4) store [of "t @ [Set_umask 0, Changed_dir ''/'']"] store [of "t @ [Set_umask 0, New_session, Changed_dir ''/'']"]
    by (cases "cfg_no_fork cfg"; cases "hs_chdir sys < 0"; cases "hs_setsid sys < 0") (simp_all add: wsd_daemon_def ends_childless)
qed

lemma wp_main: "wp (wsd_main sys argv) Q (ends_well sys) []"
proof -
  have run: "wp (let a = wsd_settle a in case hs_getpwnam sys (the (wa_u a)) of
       None \<Rightarrow> pend (Exits 1)
     | Some (uid, gid) \<Rightarrow>
     if uid = 0 then pend (Exits 1)
     else
     pbind (open_pidfile sys (wa_p a) uid gid) (\<lambda>pidfd.
     pbind (plift (wsd_config_of a uid)) (\<lambda>cfg.
     pbind (if cfg_no_fork cfg then pret 0
            else pbind (pneed (\<not> 0 > hs_fork sys)) (\<lambda>_. pbind (pcall Forked) (\<lambda>_. pret (hs_fork sys)))) (\<lambda>pid.
     if pid = 0 \<or> cfg_no_fork cfg then wsd_daemon sys cfg (fst (hd (wa_h a))) pidfd
     else pend (Exits 0))))) Q (ends_well sys) []" if "from_argv a" for a
    using settle_host [OF that] config_uid
    by (auto simp: Let_def open_pidfile_def intro!: ends_childless wp_daemon split: option.split outcome.split)
  show ?thesis
    unfolding wsd_main_def wp_simps
    by (rule wp_wsd_options) (use run in \<open>auto simp: from_argv_def wsd_no_args_def intro: ends_childless\<close>)
qed

text \<open>
  C8: The program serves only behind all precautions, however the system answers and whatever
  the command line: when the child runs, its user is not root, the listening port is bound, a
  program started as root has given up its privileges for that user, and without -d it has forked
  and leads a session of its own.
\<close>

theorem wsd_main_drops_privileges:
  assumes "wsd_main sys argv [] = Inl (e, t)" "Ran_child cfg \<in> set t"
  shows "\<exists>u v. t = u @ Ran_child cfg # v \<and> cfg_uid cfg \<noteq> 0 \<and> Bound (cfg_lfd cfg) (of_int (cfg_lport cfg)) \<in> set u
    \<and> (hs_getuid sys = 0 \<longrightarrow> Set_uid (cfg_uid cfg) \<in> set u)
    \<and> (cfg_no_fork cfg \<or> Forked \<in> set u \<and> New_session \<in> set u)"
proof -
  have "served_safely sys t"
    using wpD [OF wp_main assms(1)] by (simp add: ends_well_def)
  then obtain u v where "t = u @ Ran_child cfg # v" "prepared sys cfg u"
    using assms(2) unfolding served_safely_def by blast
  then show ?thesis
    unfolding prepared_def by blast
qed

text \<open>
  C29: The program never exits in good order: once the child has returned, it frees the first host
  name, which is an argument of the program or a literal and was never allocated.
\<close>

theorem wsd_main_frees_argument:
  assumes "wsd_main sys argv [] = Inl (e, t)" "Ran_child cfg \<in> set t" "hs_child sys cfg = Ret rv"
    and "\<forall>fd. hs_close sys fd = 0" "\<forall>f. hs_unlink sys f = 0"
  shows "e = Dies Bad_free"
  using wpD [OF wp_main assms(1)] assms(2-5) unfolding ends_well_def by blast

text \<open>A system that grants everything, to a program started by root.\<close>

definition demo_system :: host_system where
  "demo_system = \<lparr>hs_cwd = ''/root'', hs_getpwnam = (\<lambda>u. if u = ''wsd'' then Some (100, 100) else None), hs_open = (\<lambda>_. 4),
     hs_fchown = 0, hs_fork = 0, hs_setsid = 0, hs_chdir = 0, hs_write = 3, hs_close = (\<lambda>_. 0), hs_socket = 3, hs_setsockopt = 0,
     hs_bind = 0, hs_getuid = 0, hs_setuid = (\<lambda>_. 0), hs_unlink = (\<lambda>_. 0), hs_child = (\<lambda>_. Ret 0)\<rparr>"

definition demo_served :: wsd_config where
  "demo_served = default_cfg\<lparr>cfg_uid := 100, cfg_lfd := 3, cfg_lport := 80, cfg_ping_interval := -1000\<rparr>"

lemma demo_run_ends:
  "wsd_main demo_system [''-o'', ''80''] [] = Inl (Dies Bad_free,
     [Forked, Set_umask 0, New_session, Changed_dir ''/'', Closed 0, Closed 1, Closed 2, Bound 3 80, Set_uid 100, Ran_child demo_served, Closed 3])"
  by code_simp

theorem wsd_main_drops_privileges_witness:
  "\<exists>e t u v. wsd_main demo_system [''-o'', ''80''] [] = Inl (e, t) \<and> t = u @ Ran_child demo_served # v \<and> Set_uid 100 \<in> set u"
proof -
  let ?t = "[Forked, Set_umask 0, New_session, Changed_dir ''/'', Closed 0, Closed 1, Closed 2, Bound 3 80, Set_uid 100, Ran_child demo_served, Closed 3]"
  have mem: "Ran_child demo_served \<in> set ?t"
    by simp
  have uid: "cfg_uid demo_served = 100" "hs_getuid demo_system = 0"
    by (simp_all add: demo_served_def demo_system_def)
  from wsd_main_drops_privileges [OF demo_run_ends mem] obtain u v where
    "?t = u @ Ran_child demo_served # v" "Set_uid 100 \<in> set u"
    unfolding uid by blast
  then show ?thesis
    using demo_run_ends by blast
qed

theorem wsd_main_frees_argument_witness:
  "\<exists>e t. wsd_main demo_system [''-o'', ''80''] [] = Inl (e, t) \<and> Ran_child demo_served \<in> set t \<and> e = Dies Bad_free"
proof -
  let ?t = "[Forked, Set_umask 0, New_session, Changed_dir ''/'', Closed 0, Closed 1, Closed 2, Bound 3 80, Set_uid 100, Ran_child demo_served, Closed 3]"
  have "hs_child demo_system demo_served = Ret 0" "\<forall>fd. hs_close demo_system fd = 0" "\<forall>f. hs_unlink demo_system f = 0"
    "Ran_child demo_served \<in> set ?t"
    by (simp_all add: demo_system_def)
  from wsd_main_frees_argument [OF demo_run_ends this(4,1,2,3)] show ?thesis
    using demo_run_ends \<open>Ran_child demo_served \<in> set ?t\<close> by blast
qed

text \<open>A pid file with a relative name is removed under another name than it was created.\<close>

lemma relative_pidfile:
  assumes "take 1 p \<noteq> ''/''" "hs_cwd sys \<noteq> []"
  shows "path_in (hs_cwd sys) p \<noteq> path_in [] p"
  using assms by (simp add: path_in_def)

end
