(* ===== verification/Uri.thy ===== *)
theory Uri
  imports Parser
begin

text \<open>
  src/uri.c: splitting the URI argument of wscat (RFC 3986, section 3).

  The argument is a NUL-terminated byte array; the chunks of the result are positions in
  it, except for the path, which is the literal \<open>"/"\<close> when the URI has none.
\<close>

datatype uri_path = Path_null | Path_arg chunk | Path_literal string

record uri =
  uri_scheme :: chunk
  uri_host :: chunk
  uri_port :: chunk
  uri_path :: uri_path

definition null_uri :: uri where
  "null_uri = \<lparr>uri_scheme = null_chunk, uri_host = null_chunk, uri_port = null_chunk,
     uri_path = Path_null\<rparr>"

text \<open>\<open>while (*c is none of stop) c++\<close>\<close>

definition scan_to :: "u8 set \<Rightarrow> u8 list \<Rightarrow> nat \<Rightarrow> nat outcome" where
  "scan_to stop m c = obind (scan_past (\<lambda>x. x \<notin> stop) m c) (\<lambda>c. Ret (c - 1))"

definition uri_chunk :: "nat \<Rightarrow> nat \<Rightarrow> chunk" where
  "uri_chunk begn c = \<lparr>chunk_p = Some begn, chunk_len = of_nat (c - begn)\<rparr>"

text \<open>The label \<open>empty_path\<close>.\<close>

definition empty_path :: "uri \<Rightarrow> (int \<times> uri) outcome" where
  "empty_path u = Ret (0, u\<lparr>uri_path := Path_literal ''/''\<rparr>)"

abbreviation HASH :: u8 where "HASH \<equiv> 0x23"

text \<open>From \<open>if (*c != '/') return (-1)\<close> behind the authority to the end.\<close>

definition parse_uri_path :: "u8 list \<Rightarrow> nat \<Rightarrow> uri \<Rightarrow> (int \<times> uri) outcome" where
  "parse_uri_path m c u =
     obind (mem_get m c) (\<lambda>x.
     if x \<noteq> SLASH then Ret (-1, u)
     else let begn = c in
     obind (scan_to {NUL, HASH} m c) (\<lambda>c.
     if begn = c then empty_path u
     else obind (mem_get m (begn + 1)) (\<lambda>y.
     if y = SLASH then Ret (-1, u)
     else Ret (0, u\<lparr>uri_path := Path_arg (uri_chunk begn c)\<rparr>))))"

definition parse_uri :: "u8 list \<Rightarrow> uri \<Rightarrow> (int \<times> uri) outcome" where
  "parse_uri m u =
     (let begn = 0 in
     obind (scan_to {NUL, COLON} m 0) (\<lambda>c.
     obind (mem_get m c) (\<lambda>x.
     if x = NUL \<or> begn = c then Ret (-1, u)
     else let u = u\<lparr>uri_scheme := uri_chunk begn c\<rparr>; c = c + 1 in
     obind (mem_get m c) (\<lambda>x.
     if x = NUL \<or> x \<noteq> SLASH then Ret (-1, u)
     else let c = c + 1 in
     obind (mem_get m c) (\<lambda>x.
     if x = NUL \<or> x \<noteq> SLASH then Ret (-1, u)
     else let c = c + 1; begn = c in
     obind (scan_to {NUL, COLON, SLASH} m c) (\<lambda>c.
     if begn = c then Ret (-1, u)
     else let u = u\<lparr>uri_host := uri_chunk begn c\<rparr> in
     obind (mem_get m c) (\<lambda>x.
     if x = NUL then empty_path u
     else if x = COLON then
       let c = c + 1; begn = c in
       obind (scan_to {NUL, SLASH} m c) (\<lambda>c.
       if begn = c then Ret (-1, u)
       else let u = u\<lparr>uri_port := uri_chunk begn c\<rparr> in
       obind (mem_get m c) (\<lambda>x.
       if x = NUL then empty_path u else parse_uri_path m c u))
     else parse_uri_path m c u)))))))"

subsection \<open>Safety on every argument\<close>

lemma scan_to_NUL:
  assumes "NUL \<in> stop" "c \<le> e" "e < length m" "m ! e = NUL"
  shows "\<exists>j. scan_to stop m c = Ret j \<and> c \<le> j \<and> j \<le> e \<and> m ! j \<in> stop"
proof -
  obtain j where "scan_past (\<lambda>x. x \<notin> stop) m c = Ret j" "c < j" "j \<le> Suc e"
    using scan_past_before [of c e m "\<lambda>x. x \<notin> stop"] assms by auto
  then show ?thesis
    using scan_past_RetD by (intro exI [of _ "j - 1"]) (force simp: scan_to_def)
qed

lemma parse_uri_path_safe:
  assumes "c \<le> e" "e < length m" "m ! e = NUL"
  shows "\<exists>rv u'. parse_uri_path m c u = Ret (rv, u') \<and> rv \<in> {0, -1}"
proof -
  obtain j where "scan_to {NUL, HASH} m c = Ret j" "c \<le> j" "j \<le> e"
    using scan_to_NUL [of "{NUL, HASH}" c e m] assms by auto
  moreover have "c + 1 < length m" if "m ! c = SLASH"
    using that assms by (cases "c = e") auto
  ultimately show ?thesis
    using assms by (auto simp: parse_uri_path_def empty_path_def Let_def)
qed

lemma parse_uri_safe:
  assumes e: "e < length m" "m ! e = NUL"
  shows "\<exists>rv u'. parse_uri m u = Ret (rv, u') \<and> rv \<in> {0, -1}"
proof -
  have step: "Suc c \<le> e" if "c \<le> e" "m ! c \<noteq> NUL" for c
    using that e by (cases "c = e") auto
  have get: "mem_get m c = Ret (m ! c)" if "c \<le> e" for c
    using that e by simp
  obtain j where j: "scan_to {NUL, COLON} m 0 = Ret j" "j \<le> e"
    using scan_to_NUL [of "{NUL, COLON}" 0 e m] e by auto
  show ?thesis
  proof (cases "m ! j = NUL \<or> j = 0 \<or> m ! (j + 1) \<noteq> SLASH \<or> m ! (j + 2) \<noteq> SLASH")
    case True
    then show ?thesis
      using j get step [of j] step [of "j + 1"] by (auto simp: parse_uri_def Let_def)
  next
    case False
    then have j3: "j + 1 \<le> e" "j + 2 \<le> e" "j + 3 \<le> e"
      using step [of j] step [of "j + 1"] step [of "j + 2"] j by auto
    obtain h where h: "scan_to {NUL, COLON, SLASH} m (j + 3) = Ret h" "h \<le> e"
      using scan_to_NUL [of "{NUL, COLON, SLASH}" "j + 3" e m] e j3 by auto
    have hk: "\<exists>k. scan_to {NUL, SLASH} m (Suc h) = Ret k \<and> k \<le> e" if "m ! h = COLON"
      using scan_to_NUL [of "{NUL, SLASH}" "Suc h" e m] e step [of h] h that by auto
    show ?thesis
      using j j3 h hk get False parse_uri_path_safe [OF _ e]
      by (auto simp: parse_uri_def empty_path_def Let_def numeral_3_eq_3 numeral_2_eq_2)
  qed
qed

text \<open>
  C39: On every NUL-terminated argument \<open>parse_uri\<close> returns 0 or -1 and reads no byte behind
  the terminator.
\<close>

theorem parse_uri_memory_safe:
  assumes "e < length m" "m ! e = NUL"
  shows "\<exists>rv u'. parse_uri (take (e + 1) m) u = Ret (rv, u') \<and> rv \<in> {0, -1}"
  using assms by (intro parse_uri_safe [of e]) simp_all

theorem parse_uri_memory_safe_witness:
  "\<exists>rv u'. parse_uri (take (3 + 1) (bytes ''foo'' @ [NUL, 1])) null_uri = Ret (rv, u') \<and> rv \<in> {0, -1}"
  by (rule parse_uri_memory_safe) (simp_all add: bytes_def)

subsection \<open>Round trip\<close>

lemma scan_to_run:
  assumes "drop p m = xs @ c # ys" "p \<le> length m" "set xs \<inter> stop = {}" "c \<in> stop"
  shows "scan_to stop m p = Ret (p + length xs) \<and> mem_get m (p + length xs) = Ret c"
proof -
  have "scan_past (\<lambda>x. x \<notin> stop) m p = Ret (p + length xs + 1)"
    by (rule scan_past_run [OF assms(1,2)]) (use assms(3,4) in auto)
  moreover have "m ! (p + length xs) = c"
    using nth_drop_eq [of p m "xs @ [c]" ys "length xs"] assms by simp
  ultimately show ?thesis
    using drop_len [OF assms(1,2)] by (simp add: scan_to_def)
qed

definition uri_text :: "u8 list \<Rightarrow> u8 list \<Rightarrow> u8 list option \<Rightarrow> u8 list \<Rightarrow> u8 list" where
  "uri_text scheme host port path =
     scheme @ COLON # SLASH # SLASH # host
       @ (case port of None \<Rightarrow> [] | Some p \<Rightarrow> COLON # p) @ path @ [NUL]"

definition legal_uri :: "u8 list \<Rightarrow> u8 list \<Rightarrow> u8 list option \<Rightarrow> u8 list \<Rightarrow> bool" where
  "legal_uri scheme host port path \<longleftrightarrow>
     scheme \<noteq> [] \<and> set scheme \<inter> {NUL, COLON} = {} \<and>
     host \<noteq> [] \<and> set host \<inter> {NUL, COLON, SLASH} = {} \<and>
     (\<forall>p. port = Some p \<longrightarrow> p \<noteq> [] \<and> set p \<inter> {NUL, SLASH} = {}) \<and>
     (path = [] \<or> hd path = SLASH \<and> set path \<inter> {NUL, HASH} = {} \<and> (tl path = [] \<or> hd (tl path) \<noteq> SLASH))"

lemma parse_uri_path_run:
  assumes d: "drop p m = path @ [NUL]" and "p \<le> length m" "path \<noteq> []" "hd path = SLASH"
    "set path \<inter> {NUL, HASH} = {}" "tl path = [] \<or> hd (tl path) \<noteq> SLASH"
  shows "parse_uri_path m p u = Ret (0, u\<lparr>uri_path := Path_arg (uri_chunk p (p + length path))\<rparr>)"
proof -
  have len: "length m = p + length path + 1" using drop_len [OF d assms(2)] by simp
  have "(path @ [NUL]) ! 0 = SLASH"
    using assms(3,4) by (simp add: hd_conv_nth nth_append)
  then have x: "mem_get m p = Ret SLASH"
    using nth_drop_eq [of p m "path @ [NUL]" "[]" 0] d assms(2) len by simp
  have "(path @ [NUL]) ! 1 \<noteq> SLASH"
    using assms(3,6) by (cases path rule: list.exhaust; cases "tl path") auto
  then have y: "mem_get m (p + 1) = Ret ((path @ [NUL]) ! 1)" "(path @ [NUL]) ! 1 \<noteq> SLASH"
    using nth_drop_eq [of p m "path @ [NUL]" "[]" 1] d assms(2,3) len by simp_all
  have "scan_to {NUL, HASH} m p = Ret (p + length path)"
    using scan_to_run [OF d assms(2), of "{NUL, HASH}"] assms(5) by simp
  then show ?thesis
    using x y assms(3) by (simp add: parse_uri_path_def Let_def)
qed

definition path_text :: "u8 list \<Rightarrow> uri_path \<Rightarrow> u8 list" where
  "path_text m p = (case p of Path_null \<Rightarrow> [] | Path_arg c \<Rightarrow> chunk_text m c | Path_literal s \<Rightarrow> bytes s)"

lemma chunk_text_uri_chunk:
  assumes "drop p m = xs @ ys" "p \<le> length m" "length m < 2 ^ 32"
  shows "chunk_text m (uri_chunk p (p + length xs)) = xs"
proof -
  have "unat (of_nat (length xs) :: u32) = length xs"
    using drop_len [OF assms(1,2)] assms(3) by (intro unat_of_nat_u32) simp
  then show ?thesis
    using assms(1) by (simp add: chunk_text_def uri_chunk_def)
qed

lemma legal_uriD:
  assumes "legal_uri scheme host port path"
  shows "scheme \<noteq> []" "set scheme \<inter> {NUL, COLON} = {}" "host \<noteq> []"
    "set host \<inter> {NUL, COLON, SLASH} = {}"
    "\<And>p. port = Some p \<Longrightarrow> p \<noteq> [] \<and> set p \<inter> {NUL, SLASH} = {}"
    "path = [] \<or> hd path = SLASH \<and> set path \<inter> {NUL, HASH} = {} \<and> (tl path = [] \<or> hd (tl path) \<noteq> SLASH)"
  using assms by (auto simp: legal_uri_def)

definition uri_tail :: "u8 list option \<Rightarrow> u8 list \<Rightarrow> u8 list" where
  "uri_tail port path = (case port of None \<Rightarrow> [] | Some p \<Rightarrow> COLON # p) @ path @ [NUL]"

lemma uri_text_drop:
  assumes "m = uri_text scheme host port path"
  shows "drop 0 m = scheme @ COLON # SLASH # SLASH # host @ uri_tail port path"
    "drop (length scheme) m = [COLON, SLASH, SLASH] @ host @ uri_tail port path"
    "drop (length scheme + 3) m = host @ uri_tail port path"
    "length m = length scheme + 3 + length host + length (uri_tail port path)"
  by (simp_all add: assms uri_text_def uri_tail_def)

lemma uri_tail_hd:
  assumes "legal_uri scheme host port path"
  shows "uri_tail port path = hd (uri_tail port path) # tl (uri_tail port path)
    \<and> hd (uri_tail port path) = (if port \<noteq> None then COLON else if path = [] then NUL else SLASH)"
  using legal_uriD(6) [OF assms] by (cases port) (auto simp: uri_tail_def hd_append)

text \<open>What the code does once scheme and host are cut off.\<close>

definition parse_uri_rest :: "u8 list \<Rightarrow> nat \<Rightarrow> u8 list option \<Rightarrow> u8 list \<Rightarrow> uri \<Rightarrow> (int \<times> uri) outcome" where
  "parse_uri_rest m p port path u =
     (case port of
        None \<Rightarrow> if path = [] then empty_path u else parse_uri_path m p u
      | Some q \<Rightarrow>
          let u = u\<lparr>uri_port := uri_chunk (p + 1) (p + 1 + length q)\<rparr>
          in if path = [] then empty_path u else parse_uri_path m (p + 1 + length q) u)"

lemma parse_uri_authority:
  assumes legal: "legal_uri scheme host port path" and m: "m = uri_text scheme host port path"
    and p: "p = length scheme + 3"
  shows "parse_uri m u = parse_uri_rest m (p + length host) port path
    (u\<lparr>uri_scheme := uri_chunk 0 (length scheme), uri_host := uri_chunk p (p + length host)\<rparr>)"
proof -
  let ?s = "length scheme"
  note L = legal_uriD [OF legal] and D = uri_text_drop [OF m] and T = uri_tail_hd [OF legal]
  have c: "mem_get m ?s = Ret COLON" "mem_get m (Suc ?s) = Ret SLASH" "mem_get m (Suc (Suc ?s)) = Ret SLASH"
    using nth_drop_eq [OF D(2), of 0] nth_drop_eq [OF D(2), of 1] nth_drop_eq [OF D(2), of 2] D(4)
    by (simp_all add: numeral_2_eq_2)
  have s0: "scan_to {NUL, COLON} m 0 = Ret ?s"
    using scan_to_run [OF D(1) _ L(2)] by simp
  have "drop p m = host @ hd (uri_tail port path) # tl (uri_tail port path)"
    by (subst conjunct1 [OF T, symmetric]) (unfold p, rule D(3))
  then have sh: "scan_to {NUL, COLON, SLASH} m p = Ret (p + length host)"
    "mem_get m (p + length host) = Ret (hd (uri_tail port path))"
    using scan_to_run [of p m host "hd (uri_tail port path)" "tl (uri_tail port path)"]
      conjunct2 [OF T] L(4) D(4)
    by (auto simp: p split: if_splits)
  show ?thesis
  proof (cases port)
    case None
    then show ?thesis
      using s0 c sh L(1,3) conjunct2 [OF T] by (simp add: parse_uri_def parse_uri_rest_def Let_def p numeral_3_eq_3)
  next
    case (Some q)
    let ?k = "p + length host + 1" and ?r = "path @ [NUL]"
    have "drop ?k m = q @ ?r"
      using arg_cong [OF D(3), of "drop (length host + 1)"] by (simp add: Some p uri_tail_def ac_simps)
    then have "drop ?k m = q @ hd ?r # tl ?r" by simp
    then have "scan_to {NUL, SLASH} m ?k = Ret (?k + length q)"
      "mem_get m (?k + length q) = Ret (if path = [] then NUL else SLASH)"
      using scan_to_run [of ?k m q "hd ?r" "tl ?r" "{NUL, SLASH}"] L(5) [OF Some] L(6) D(4)
      by (auto simp: hd_append p Some uri_tail_def)
    then show ?thesis
      using s0 c sh L(1,3) L(5) [OF Some] conjunct2 [OF T] Some
      by (simp add: parse_uri_def parse_uri_rest_def Let_def p numeral_3_eq_3)
  qed
qed

lemma parse_path_text:
  assumes "drop p m = path @ [NUL]" "p \<le> length m" "length m < 2 ^ 32"
    and "legal_uri scheme host port path"
  shows "\<exists>u'. (if path = [] then empty_path u else parse_uri_path m p u) = Ret (0, u')
      \<and> uri_scheme u' = uri_scheme u \<and> uri_host u' = uri_host u \<and> uri_port u' = uri_port u
      \<and> path_text m (uri_path u') = (if path = [] then bytes ''/'' else path)"
  using parse_uri_path_run [OF assms(1,2)] legal_uriD(6) [OF assms(4)] chunk_text_uri_chunk [OF assms(1-3)]
  by (cases "path = []") (auto simp: empty_path_def path_text_def)

text \<open>
  C38: Round trip. Any URI written as scheme, host, optional port and optional path is taken
  apart into exactly these parts; a missing path becomes \<open>/\<close> and a missing port stays null.
\<close>

theorem parse_uri_roundtrip:
  assumes legal: "legal_uri scheme host port path" and m: "m = uri_text scheme host port path"
    and size: "length m < 2 ^ 32"
  shows "\<exists>u. parse_uri m null_uri = Ret (0, u) \<and> chunk_text m (uri_scheme u) = scheme
    \<and> chunk_text m (uri_host u) = host
    \<and> (case port of None \<Rightarrow> uri_port u = null_chunk | Some p \<Rightarrow> chunk_text m (uri_port u) = p)
    \<and> path_text m (uri_path u) = (if path = [] then bytes ''/'' else path)"
proof -
  let ?p = "length scheme + 3"
  let ?q = "?p + length host"
  let ?u = "null_uri\<lparr>uri_scheme := uri_chunk 0 (length scheme), uri_host := uri_chunk ?p ?q\<rparr>"
  note D = uri_text_drop [OF m]
  have main: "parse_uri m null_uri = parse_uri_rest m ?q port path ?u"
    using parse_uri_authority [OF legal m refl] .
  have texts: "chunk_text m (uri_chunk 0 (length scheme)) = scheme" "chunk_text m (uri_chunk ?p ?q) = host"
    using chunk_text_uri_chunk [OF D(1) _ size] chunk_text_uri_chunk [OF D(3) _ size] D(4) by simp_all
  have tail: "drop ?q m = uri_tail port path"
    using arg_cong [OF D(3), of "drop (length host)"] by (simp add: ac_simps)
  show ?thesis
  proof (cases port)
    case None
    then show ?thesis
      using parse_path_text [of ?q m path, OF _ _ size legal, of ?u] tail main texts D(4)
      by (auto simp: parse_uri_rest_def uri_tail_def null_uri_def)
  next
    case (Some q)
    have dk: "drop (?q + 1) m = q @ path @ [NUL]" and dp: "drop (?q + 1 + length q) m = path @ [NUL]"
      using arg_cong [OF tail, of "drop 1"] arg_cong [OF tail, of "drop (1 + length q)"]
      by (simp_all add: uri_tail_def Some ac_simps)
    have le: "?q + 1 + length q \<le> length m"
      using D(4) by (simp add: uri_tail_def Some)
    then have "chunk_text m (uri_chunk (?q + 1) (?q + 1 + length q)) = q"
      using chunk_text_uri_chunk [OF dk _ size] by simp
    then show ?thesis
      using parse_path_text [OF dp le size legal, of "?u\<lparr>uri_port := uri_chunk (?q + 1) (?q + 1 + length q)\<rparr>"]
        main texts by (auto simp: parse_uri_rest_def Some Let_def)
  qed
qed

theorem parse_uri_roundtrip_witness:
  "\<exists>u. parse_uri (bytes ''ws://foobar:89/one'' @ [NUL]) null_uri = Ret (0, u)
    \<and> chunk_text (bytes ''ws://foobar:89/one'' @ [NUL]) (uri_host u) = bytes ''foobar''
    \<and> chunk_text (bytes ''ws://foobar:89/one'' @ [NUL]) (uri_port u) = bytes ''89''
    \<and> path_text (bytes ''ws://foobar:89/one'' @ [NUL]) (uri_path u) = bytes ''/one''"
proof -
  let ?m = "bytes ''ws://foobar:89/one'' @ [NUL]"
  have legal: "legal_uri (bytes ''ws'') (bytes ''foobar'') (Some (bytes ''89'')) (bytes ''/one'')"
    by (simp add: legal_uri_def bytes_def)
  have m: "?m = uri_text (bytes ''ws'') (bytes ''foobar'') (Some (bytes ''89'')) (bytes ''/one'')"
    by (simp add: uri_text_def bytes_def)
  have "bytes ''/one'' \<noteq> []" and size: "length ?m < 2 ^ 32" by (simp_all add: bytes_def)
  then show ?thesis
    using parse_uri_roundtrip [OF legal m size] by auto
qed

end
