(* ===== verification/Request.thy ===== *)
theory Request
  imports Common
begin

text \<open>
  The upgrade request of wscat (src/wscat.c, \<open>create_http_req\<close>). Texts of the request are byte
  strings without the terminating NUL.
\<close>

subsection \<open>The upgrade request\<close>

record req_text =
  rt_method :: "u8 list"
  rt_target :: "u8 list"
  rt_http_ver :: "u8 list"
  rt_host :: "u8 list"
  rt_origin :: "u8 list"
  rt_sec_ws_proto :: "u8 list"
  rt_sec_ws_key :: "u8 list"
  rt_sec_ws_ver :: "u8 list"
  rt_user_agent :: "u8 list"

text \<open>\<open>skb_put_strn(buf, s, strlen(s))\<close> with the result ignored.\<close>

definition put_text :: "skb \<Rightarrow> u8 list \<Rightarrow> skb outcome" where
  "put_text b t = obind (skb_put_strn b (t @ [NUL]) 0 (of_nat (length t))) (\<lambda>(rv, b). Ret b)"

fun put_texts :: "skb \<Rightarrow> u8 list list \<Rightarrow> skb outcome" where
  "put_texts b [] = Ret b"
| "put_texts b (t # ts) = obind (put_text b t) (\<lambda>b. put_texts b ts)"

definition skb_put_http_req :: "bool \<Rightarrow> skb \<Rightarrow> req_text \<Rightarrow> (int \<times> skb) outcome" where
  "skb_put_http_req tls b req =
     obind (put_text b (rt_method req)) (\<lambda>b.
     obind (skb_put8 b SP) (\<lambda>b.
     obind (put_text b (rt_target req)) (\<lambda>b.
     obind (skb_put8 b SP) (\<lambda>b.
     obind (put_texts b
       ([rt_http_ver req, [CR, LF],
         bytes ''Upgrade: websocket'' @ [CR, LF],
         bytes ''Connection: Upgrade'' @ [CR, LF],
         bytes ''Host: '', rt_host req, [CR, LF],
         if tls then bytes ''Origin: https://'' else bytes ''Origin: http://'',
         rt_origin req, [CR, LF]]
        @ (if rt_sec_ws_proto req = [] then []
           else [bytes ''Sec-WebSocket-Protocol: '', rt_sec_ws_proto req, [CR, LF]])
        @ [bytes ''Pragma: no-cache'' @ [CR, LF],
           bytes ''Cache-Control: no-cache'' @ [CR, LF],
           bytes ''Sec-WebSocket-Key: '', rt_sec_ws_key req, [CR, LF],
           bytes ''Sec-WebSocket-Version: '', rt_sec_ws_ver req, [CR, LF],
           bytes ''User-Agent: '', rt_user_agent req, [CR, LF, CR, LF]])) (\<lambda>b.
     Ret (0, b))))))"

text \<open>The request of a configuration; \<open>fhostname[0]\<close> is both the host and the origin.\<close>

definition http_request :: "wsd_config \<Rightarrow> req_text" where
  "http_request cfg =
     \<lparr>rt_method = bytes ''GET'', rt_target = bytes (cfg_request_target cfg), rt_http_ver = bytes ''HTTP/1.1'',
      rt_host = bytes (hd (cfg_fhostname cfg)), rt_origin = bytes (hd (cfg_fhostname cfg)),
      rt_sec_ws_proto = (case cfg_sec_ws_proto cfg of None \<Rightarrow> [] | Some p \<Rightarrow> bytes p),
      rt_sec_ws_key = bytes (cfg_sec_ws_key cfg), rt_sec_ws_ver = bytes (cfg_sec_ws_ver cfg),
      rt_user_agent = bytes (cfg_user_agent cfg)\<rparr>"

definition create_http_req :: "world \<Rightarrow> ptr \<Rightarrow> (int \<times> world) outcome" where
  "create_http_req w s =
     (if cfg_fhostname (wsd_cfg w) = [] then Fault Out_of_bounds
      else
        obind (deref w s) (\<lambda>k.
        obind (skb_put_http_req (cfg_tls (wsd_cfg w)) (sk_sendbuf k) (http_request (wsd_cfg w))) (\<lambda>(rv, b).
        obind (guard (rv = 0)) (\<lambda>_.
        Ret (0, put_sk w s (k\<lparr>sk_sendbuf := b\<rparr>))))))"

end
