(* ===== verification/Tls.thy ===== *)
theory Tls
  imports Request Loop
begin

text \<open>
  TLS in wscat (src/wscat.c, \<open>wssk_tls_init\<close> to \<open>wssk_tls_write\<close>), for a URI with the scheme wss.
  While the handshake lasts, both handlers of the connection drive it; then they read and write
  through OpenSSL, and go back to the handshake when the peer renegotiates. What a call of
  OpenSSL returns is an argument.
\<close>

datatype ssl_error = SSL_ERROR_WANT_READ | SSL_ERROR_WANT_WRITE | SSL_ERROR_ZERO_RETURN | SSL_ERROR_OTHER

subsection \<open>Setting up\<close>

text \<open>Which of the calls of \<open>wssk_tls_init\<close> succeed.\<close>

record tls_setup =
  set_ctx :: bool
  set_min_version :: bool
  set_verify_paths :: bool
  set_ssl :: bool
  set_host :: bool
  set_fd :: bool
  set_host_name :: bool

definition TLS1_VERSION :: nat where "TLS1_VERSION = 0x0301"

definition wssk_tls_init :: "tls_setup \<Rightarrow> bool \<Rightarrow> sk \<Rightarrow> string \<Rightarrow> int \<times> sk" where
  "wssk_tls_init ts no_check_cert k hostname =
     (if \<not> set_ctx ts then (-1, k)
      else if \<not> set_min_version ts then (-1, k)
      else if \<not> set_verify_paths ts then (-1, k)
      else
      let peer = (if no_check_cert then False else True) in
      if \<not> set_ssl ts then (-1, k)
      else if \<not> set_host ts then (-1, k)
      else if \<not> set_fd ts then (-1, k)
      else if \<not> set_host_name ts then (-1, k)
      else (0, k\<lparr>sk_ssl := Some \<lparr>tls_min_version = TLS1_VERSION, tls_verify_peer = peer, tls_host = hostname,
                   tls_no_partial_wildcards = True, tls_fd = sk_fd k, tls_host_name = hostname\<rparr>,
                 sk_ops := (sk_ops k)\<lparr>ops_read := Some Wssk_tls_handshake_read,
                                      ops_write := Some Wssk_tls_handshake_write\<rparr>\<rparr>))"

text \<open>The two pairs of handlers.\<close>

definition tls_handshake_mode :: "sk \<Rightarrow> sk" where
  "tls_handshake_mode k = k\<lparr>sk_ops := (sk_ops k)\<lparr>ops_read := Some Wssk_tls_handshake_read,
     ops_write := Some Wssk_tls_handshake_write\<rparr>\<rparr>"

definition tls_data_mode :: "sk \<Rightarrow> sk" where
  "tls_data_mode k = k\<lparr>sk_ops := (sk_ops k)\<lparr>ops_read := Some Wssk_tls_read, ops_write := Some Wssk_tls_write\<rparr>\<rparr>"

subsection \<open>The handshake\<close>

text \<open>\<open>SSL_do_handshake\<close>: done, or what \<open>SSL_get_error\<close> says.\<close>

definition wssk_tls_handshake :: "ssl_error option \<Rightarrow> handler" where
  "wssk_tls_handshake ret w s =
     obind (deref w s) (\<lambda>k.
     case ret of
       Some SSL_ERROR_WANT_READ \<Rightarrow> obind (turn_on_events w s EPOLLIN) (\<lambda>w. Ret (0, w))
     | Some SSL_ERROR_WANT_WRITE \<Rightarrow> obind (turn_on_events w s EPOLLOUT) (\<lambda>w. Ret (0, w))
     | Some _ \<Rightarrow> Ret (-1, w)
     | None \<Rightarrow>
         obind (create_http_req (put_sk w s (tls_data_mode k)) s) (\<lambda>(rv, w).
         if 0 > rv then Ret (-1, w)
         else obind (turn_on_events w s (EPOLLOUT OR EPOLLIN)) (\<lambda>w. Ret (0, w))))"

definition wssk_tls_handshake_read :: "ssl_error option \<Rightarrow> handler" where
  "wssk_tls_handshake_read ret w s =
     obind (turn_off_events w s EPOLLIN) (\<lambda>w. wssk_tls_handshake ret w s)"

definition wssk_tls_handshake_write :: "ssl_error option \<Rightarrow> handler" where
  "wssk_tls_handshake_write ret w s =
     obind (turn_off_events w s EPOLLOUT) (\<lambda>w. wssk_tls_handshake ret w s)"

subsection \<open>Data\<close>

text \<open>\<open>SSL_read\<close> delivers at least one byte, or an error; \<open>SSL_write\<close> takes \<open>n + 1\<close> bytes, or as many as there are.\<close>

datatype tls_in = Tls_bytes u8 "u8 list" | Tls_no_read ssl_error
datatype tls_out = Tls_wrote nat | Tls_no_write ssl_error

definition wssk_tls_read :: "tls_in \<Rightarrow> world \<Rightarrow> ptr \<Rightarrow> (int \<times> world) outcome" where
  "wssk_tls_read io w s =
     obind (deref w s) (\<lambda>k.
     obind (guard (0 \<le> sk_fd k)) (\<lambda>_.
     if skb_wrsz (sk_recvbuf k) = 0
     then obind (turn_off_events w s EPOLLIN) (\<lambda>w. Ret (-1, w\<lparr>wsd_errno := WSD_EAGAIN\<rparr>))
     else case io of
       Tls_bytes c cs \<Rightarrow>
         obind (skb_put_mem (sk_recvbuf k) (take (unat (skb_wrsz (sk_recvbuf k))) (c # cs))) (\<lambda>b.
         Ret (0, put_sk w s (k\<lparr>sk_recvbuf := b\<rparr>)))
     | Tls_no_read SSL_ERROR_WANT_READ \<Rightarrow> Ret (0, w)
     | Tls_no_read SSL_ERROR_WANT_WRITE \<Rightarrow>
         obind (turn_on_events (put_sk w s (tls_handshake_mode k)) s EPOLLOUT) (\<lambda>w. Ret (0, w))
     | Tls_no_read _ \<Rightarrow> Ret (-1, w\<lparr>wsd_errno := WSD_CHECKERRNO\<rparr>)))"

definition wssk_tls_write :: "tls_out \<Rightarrow> world \<Rightarrow> ptr \<Rightarrow> (int \<times> u8 list \<times> world) outcome" where
  "wssk_tls_write io w s =
     obind (deref w s) (\<lambda>k.
     obind (guard (0 \<le> sk_fd k)) (\<lambda>_.
     if skb_rdsz (sk_sendbuf k) = 0
     then obind (turn_off_events w s EPOLLOUT) (\<lambda>w. Ret (-1, [], w\<lparr>wsd_errno := WSD_EAGAIN\<rparr>))
     else case io of
       Tls_wrote n \<Rightarrow>
         obind (skb_get_mem (sk_sendbuf k) (min (Suc n) (unat (skb_rdsz (sk_sendbuf k))))) (\<lambda>(sent, b).
         obind (skb_compact b) (\<lambda>b.
         Ret (0, sent, put_sk w s (k\<lparr>sk_sendbuf := b\<rparr>))))
     | Tls_no_write SSL_ERROR_WANT_WRITE \<Rightarrow> Ret (0, [], w)
     | Tls_no_write SSL_ERROR_WANT_READ \<Rightarrow>
         obind (turn_on_events (put_sk w s (tls_handshake_mode k)) s EPOLLIN) (\<lambda>w. Ret (0, [], w))
     | Tls_no_write _ \<Rightarrow> Ret (-1, [], w\<lparr>wsd_errno := WSD_CHECKERRNO\<rparr>)))"

subsection \<open>Reading and writing through the table of wscat\<close>

record tls_answers =
  ta_handshake :: "ssl_error option"
  ta_read :: tls_in
  ta_write :: tls_out

definition wscat_call_read :: "tls_answers \<Rightarrow> reader" where
  "wscat_call_read ta io w s =
     obind (deref w s) (\<lambda>k.
     case ops_read (sk_ops k) of
       Some Sk_read \<Rightarrow> sk_read io w s
     | Some Wssk_tls_handshake_read \<Rightarrow> wssk_tls_handshake_read (ta_handshake ta) w s
     | Some Wssk_tls_read \<Rightarrow> wssk_tls_read (ta_read ta) w s
     | None \<Rightarrow> Fault Null_call)"

definition wscat_call_write :: "tls_answers \<Rightarrow> writer" where
  "wscat_call_write ta io w s =
     obind (deref w s) (\<lambda>k.
     case ops_write (sk_ops k) of
       Some Sk_write \<Rightarrow> sk_write io w s
     | Some Wssk_tls_handshake_write \<Rightarrow>
         obind (wssk_tls_handshake_write (ta_handshake ta) w s) (\<lambda>(rv, w). Ret (rv, [], w))
     | Some Wssk_tls_write \<Rightarrow> wssk_tls_write (ta_write ta) w s
     | None \<Rightarrow> Fault Null_call)"

end
