(* ===== verification/Wscat.thy ===== *)
theory Wscat
  imports Tls Parser Frames
begin

text \<open>
  The client wscat (src/wscat.c): how it connects, the switch to websocket mode when the
  server has answered, the handlers of the connection and of standard input, and what it
  does on every round of the event loop.
\<close>

subsection \<open>Connecting\<close>

text \<open>
  How the system answers \<open>wssk_init\<close>: the descriptor, the return value of \<open>getaddrinfo\<close>, whether
  the first address is \<open>AF_INET\<close>, the error number left by the \<open>connect\<close> calls, whose return
  values are not looked at, the cell \<open>malloc\<close> returns, whether \<open>sk_init\<close> finds memory, and how
  OpenSSL sets up TLS.
\<close>

record connection =
  cn_fd :: int
  cn_gai :: "string \<Rightarrow> string \<Rightarrow> int"
  cn_inet :: bool
  cn_errno :: sys_err
  cn_ptr :: "ptr option"
  cn_mem :: bool
  cn_tls :: tls_setup

definition wssk_init :: "connection \<Rightarrow> world \<Rightarrow> (int \<times> world) outcome" where
  "wssk_init cn w =
     (if 0 > cn_fd cn then Ret (-1, w)
      else if cfg_fhostname (wsd_cfg w) = [] then Fault Out_of_bounds
      else
      let rv = cn_gai cn (hd (cfg_fhostname (wsd_cfg w))) (cfg_fport (wsd_cfg w)) in
      if 0 > rv then Ret (-1, w)
      else if \<not> cn_inet cn then Ret (-1, w)
      else
      let w = w\<lparr>sys_errno := cn_errno cn\<rparr> in
      if 0 > rv \<and> sys_errno w \<noteq> EINPROGRESS then Ret (-1, w)
      else case cn_ptr cn of
        None \<Rightarrow> Ret (-1, w)
      | Some s \<Rightarrow>
      case sk_init (cn_mem cn) zero_sk (cn_fd cn) 0 of
        Inl e \<Rightarrow> Ret (-1, w\<lparr>wsd_errno := e\<rparr>)
      | Inr k \<Rightarrow>
      let (tls, k) = (if cfg_tls (wsd_cfg w)
                      then wssk_tls_init (cn_tls cn) (cfg_no_check_cert (wsd_cfg w)) k (hd (cfg_fhostname (wsd_cfg w)))
                      else (0, k))
      in
      if 0 > tls then Ret (-1, w)
      else
      let k = k\<lparr>sk_ops := (sk_ops k)\<lparr>ops_recv := Some Wssk_http_recv, ops_close := Some Wssk_close\<rparr>,
                sk_proto := (sk_proto k)\<lparr>decode_frame := Some Wssk_ws_decode_frame,
                  encode_frame := Some Wssk_ws_encode_frame, ping := Some Ws_ping, pong := Some Ws_pong,
                  start_closing_handshake := Some Ws_start_closing_handshake\<rparr>\<rparr>;
          w = (put_sk w s k)\<lparr>wssk := Some s, epoll := Map.empty\<rparr>
      in
      obind (register_for_events w s) (\<lambda>(rv, w).
      obind (guard (rv = 0)) (\<lambda>_. Ret (0, w))))"

subsection \<open>The answer of the server\<close>

definition wssk_http_error :: "world \<Rightarrow> ptr \<Rightarrow> (int \<times> world) outcome" where
  "wssk_http_error w s =
     obind (upd_sk w s (\<lambda>k. k\<lparr>sk_recvbuf := skb_reset (sk_recvbuf k)\<rparr>)) (\<lambda>w.
     Ret (-1, w\<lparr>wsd_errno := WSD_EBADREQ\<rparr>))"

text \<open>\<open>stdin_sk\<close> is the cell that \<open>malloc\<close> returns for standard input.\<close>

definition wssk_http_recv :: "ptr option \<Rightarrow> bool \<Rightarrow> world \<Rightarrow> ptr \<Rightarrow> (int \<times> world) outcome" where
  "wssk_http_recv stdin_sk mem_ok w s =
     obind (deref w s) (\<lambda>k.
     let m = skb_data (sk_recvbuf k) in
     obind (has_rnrn_termination (sk_recvbuf k)) (\<lambda>complete.
     if complete = 0 then Ret (-1, w\<lparr>wsd_errno := WSD_EINPUT\<rparr>)
     else
     obind (http_header_tok m (Some (unat (rdpos (sk_recvbuf k)))) None) (\<lambda>(rv, tok, prev, e).
     let w = w\<lparr>wsd_errno := e\<rparr> in
     if 0 > rv then wssk_http_error w s
     else
     obind (header_loop m prev null_http_req) (\<lambda>(rv, req, prev, e).
     let w = w\<lparr>wsd_errno := e\<rparr> in
     if 0 > rv then wssk_http_error w s
     else
     obind (upd_sk w s (\<lambda>k. k\<lparr>sk_ops := (sk_ops k)\<lparr>ops_recv := Some Wssk_ws_recv\<rparr>,
                               sk_recvbuf := skb_reset (sk_recvbuf k)\<rparr>)) (\<lambda>w.
     case stdin_sk of
       None \<Rightarrow> Exit
     | Some f \<Rightarrow>
     case sk_init mem_ok zero_sk 0 0 of
       Inl e \<Rightarrow> Exit
     | Inr fk \<Rightarrow>
     let fk = fk\<lparr>sk_ops := (sk_ops fk)\<lparr>ops_recv := Some Stdin_recv, ops_close := Some Stdin_close\<rparr>,
                 sk_proto := (sk_proto fk)\<lparr>decode_frame := Some Stdin_decode_frame,
                   ping := Some Stdin_nop, pong := Some Stdin_nop\<rparr>\<rparr>;
         w = (put_sk w f fk)\<lparr>fdin := Some f\<rparr>
     in
     obind (register_for_events w f) (\<lambda>(rv, w).
     obind (guard (rv = 0)) (\<lambda>_. Ret (0, w))))))))"

subsection \<open>Receiving\<close>

text \<open>The loop over \<open>decode_frame\<close>, with what is printed.\<close>

partial_function (option) print_frames ::
  "u8 list \<Rightarrow> nat \<Rightarrow> world \<Rightarrow> ptr \<Rightarrow> (int \<times> nat \<times> u8 list \<times> world) outcome option" where
  "print_frames out frames w s =
     (case wssk_ws_decode_frame w s of
        Exit \<Rightarrow> Some Exit
      | Fault e \<Rightarrow> Some (Fault e)
      | Ret (rv, printed, w') \<Rightarrow>
          if rv = 0 then print_frames (out @ printed) (Suc frames) w' s
          else Some (Ret (rv, frames, out @ printed, w')))"

definition wssk_ws_recv :: "world \<Rightarrow> ptr \<Rightarrow> (int \<times> u8 list \<times> world) outcome" where
  "wssk_ws_recv w s =
     obind (deref w s) (\<lambda>k.
     obind (guard (skb_rdsz (sk_recvbuf k) \<noteq> 0)) (\<lambda>_.
     obind (case print_frames [] 0 w s of None \<Rightarrow> Fault Diverges | Some r \<Rightarrow> r) (\<lambda>(rv, frames, out, w).
     obind (if frames = 0 then Ret w
            else
              obind (deref w s) (\<lambda>k.
              obind (if 0 < skb_rdsz (sk_sendbuf k) then ensure_events w s EPOLLOUT else Ret w) (\<lambda>w.
              obind (deref w s) (\<lambda>k.
              if sk_close_on_write k then Ret w else ensure_events w s EPOLLIN)))) (\<lambda>w.
     obind (deref w s) (\<lambda>k.
     obind (if sk_close_flag k \<or> sk_close_on_write k then turn_off_events w s EPOLLIN else Ret w) (\<lambda>w.
     Ret (rv, out, w)))))))"

definition stdin_recv :: "world \<Rightarrow> ptr \<Rightarrow> (int \<times> world) outcome" where
  "stdin_recv w s =
     obind (deref w s) (\<lambda>k.
     obind (guard (skb_rdsz (sk_recvbuf k) \<noteq> 0)) (\<lambda>_.
     case wssk w of
       None \<Rightarrow> Ret (-1, w)
     | Some q \<Rightarrow>
     obind (case decode_frames stdin_decode_frame 0 w s of None \<Rightarrow> Fault Diverges | Some r \<Rightarrow> r) (\<lambda>(rv, frames, w).
     obind (if frames = 0 then Ret w
            else
              obind (ensure_events w q EPOLLOUT) (\<lambda>w.
              obind (deref w s) (\<lambda>k.
              if sk_close_on_write k then ensure_events w s EPOLLIN else Ret w))) (\<lambda>w.
     obind (deref w s) (\<lambda>k.
     obind (if sk_close_flag k \<or> sk_close_on_write k then turn_off_events w s EPOLLIN else Ret w) (\<lambda>w.
     obind (if sk_close_on_write k then ensure_events w s EPOLLOUT else Ret w) (\<lambda>w.
     Ret (0, w)))))))) "

subsection \<open>Closing\<close>

definition wssk_close :: handler where
  "wssk_close w s =
     obind (deref w s) (\<lambda>k.
     Ret (0, (sk_destroy (close_fd w (sk_fd k)) s)\<lparr>wssk := None, wsd_done := True\<rparr>))"

definition wssk_ws_start_closing_handshake :: "world \<Rightarrow> world outcome" where
  "wssk_ws_start_closing_handshake w =
     obind (deref_global (wssk w)) (\<lambda>q.
     obind (deref w q) (\<lambda>qk.
     obind (call_closing (start_closing_handshake (sk_proto qk)) w q WS_1000 True) (\<lambda>(rv, w).
     Ret (if 0 > rv then w\<lparr>wsd_done := True\<rparr> else w))))"

definition wssk_ws_ping :: "world \<Rightarrow> world outcome" where
  "wssk_ws_ping w =
     obind (deref_global (wssk w)) (\<lambda>q.
     obind (deref w q) (\<lambda>qk.
     obind (call_ctl (ping (sk_proto qk)) w q True) (\<lambda>(rv, w).
     Ret (if 0 > rv then w\<lparr>wsd_done := True\<rparr> else w))))"

subsection \<open>Repeating the last input\<close>

text \<open>
  \<open>while (repeat_last_num) { \<dots> }\<close> over the temporary socket \<open>s\<close>; \<open>rv\<close> is the return value of
  the last call of \<open>stdin_decode_frame\<close>.
\<close>

partial_function (option) repeat_loop :: "int \<Rightarrow> world \<Rightarrow> ptr \<Rightarrow> (int \<times> world) outcome option" where
  "repeat_loop rv w s =
     (if repeat_last_num w = 0 then Some (Ret (rv, w))
      else case heap w s of
        None \<Rightarrow> Some (Fault Use_after_free)
      | Some k \<Rightarrow>
          if skb_wrsz (sk_recvbuf k) < skb_rdsz (last_input w)
          then Some (Ret (-1, w\<lparr>wsd_errno := WSD_EAGAIN\<rparr>))
          else case
            obind (skb_copy (sk_recvbuf k) (last_input w) (ucast (skb_rdsz (last_input w)))) (\<lambda>b.
            obind (stdin_decode_frame (put_sk w s (k\<lparr>sk_recvbuf := b\<rparr>)) s) (\<lambda>(rv, w).
            let w = (if 0 = rv then w\<lparr>repeat_last_num := repeat_last_num w - 1\<rparr> else w)
            in Ret (rv, if 0 > rv \<and> wsd_errno w \<noteq> WSD_EAGAIN then w\<lparr>repeat_last_num := 0\<rparr> else w)))
          of
            Ret (rv, w) \<Rightarrow> repeat_loop rv w s
          | Exit \<Rightarrow> Some Exit
          | Fault e \<Rightarrow> Some (Fault e))"

text \<open>\<open>tmp\<close> is the cell \<open>malloc\<close> returns for the temporary socket.\<close>

definition repeat_last :: "ptr option \<Rightarrow> bool \<Rightarrow> world \<Rightarrow> (int \<times> world) outcome" where
  "repeat_last tmp mem_ok w =
     (if skb_rdsz (last_input w) = 0 then Ret (0, w\<lparr>repeat_last_num := 0\<rparr>)
      else case tmp of
        None \<Rightarrow> Exit
      | Some s \<Rightarrow>
      case sk_init mem_ok zero_sk (-1) 0 of
        Inl e \<Rightarrow> Exit
      | Inr k \<Rightarrow>
      obind (case repeat_loop 0 (put_sk w s k) s of None \<Rightarrow> Fault Diverges | Some r \<Rightarrow> r) (\<lambda>(rv, w).
      let w = sk_destroy w s
      in Ret (if repeat_last_num w = 0 then 0 else rv, w)))"

definition stdin_close :: "ptr option \<Rightarrow> bool \<Rightarrow> handler" where
  "stdin_close tmp mem_ok w s =
     obind (if cfg_idle_timeout (wsd_cfg w) = -1 \<and> cfg_ping_interval (wsd_cfg w) = -1 \<and> repeat_last_num w = -1
            then if no_handshake w then Ret w else wssk_ws_start_closing_handshake w
            else if 0 < repeat_last_num w
            then obind (repeat_last tmp mem_ok (w\<lparr>repeat_last_armed := True\<rparr>)) (\<lambda>(rv, w). Ret w)
            else Ret w) (\<lambda>w.
     obind (deref w s) (\<lambda>k.
     Ret (0, (sk_destroy (close_fd w (sk_fd k)) s)\<lparr>fdin := None\<rparr>)))"

definition try_repeating_last :: "ptr option \<Rightarrow> bool \<Rightarrow> world \<Rightarrow> world outcome" where
  "try_repeating_last tmp mem_ok w =
     (if \<not> repeat_last_armed w then Ret w
      else case wssk w of
        None \<Rightarrow> Ret w
      | Some q \<Rightarrow>
      obind (deref w q) (\<lambda>qk.
      if sk_closing qk then Ret w
      else
        obind (if 0 < repeat_last_num w
               then obind (repeat_last tmp mem_ok w) (\<lambda>(rv, w). Ret w) else Ret w) (\<lambda>w.
        let w = (if repeat_last_num w = 0 then w\<lparr>repeat_last_armed := False\<rparr> else w) in
        if repeat_last_num w = 0 \<and> cfg_idle_timeout (wsd_cfg w) = -1 \<and> \<not> no_handshake w
        then wssk_ws_start_closing_handshake w else Ret w)))"

subsection \<open>Every round\<close>

text \<open>\<open>check_timeout(wssk, now, timeout)\<close> exits when the connection is gone.\<close>

definition wssk_timeout :: "timespec \<Rightarrow> (wsd_config \<Rightarrow> int) \<Rightarrow> world \<Rightarrow> bool outcome" where
  "wssk_timeout now timeout w =
     obind (guard (wssk w \<noteq> None)) (\<lambda>_.
     obind (deref_global (wssk w)) (\<lambda>q.
     obind (deref w q) (\<lambda>qk. Ret (check_timeout qk now (timeout (wsd_cfg w))))))"

definition wscat_on_iteration :: "ptr option \<Rightarrow> bool \<Rightarrow> timespec \<Rightarrow> world \<Rightarrow> (int \<times> world) outcome" where
  "wscat_on_iteration tmp mem_ok now w =
     obind (wssk_timeout now cfg_ping_interval w) (\<lambda>late.
     obind (if late then wssk_ws_ping w else Ret w) (\<lambda>w.
     obind (wssk_timeout now cfg_idle_timeout w) (\<lambda>late.
     obind (if late \<and> \<not> no_handshake w then wssk_ws_start_closing_handshake w else Ret w) (\<lambda>w.
     obind (try_repeating_last tmp mem_ok w) (\<lambda>w. Ret (0, w))))))"

subsection \<open>Events\<close>

text \<open>
  What the program gets from outside in one round: cells for standard input and for repeating,
  and the answers of OpenSSL on the connection.
\<close>

record wscat_env =
  we_stdin :: "ptr option"
  we_tmp :: "ptr option"
  we_mem :: bool
  we_tls :: tls_answers

text \<open>\<open>post_read\<close>; the second component is what was printed.\<close>

definition wscat_post_read :: "wscat_env \<Rightarrow> world \<Rightarrow> ptr \<Rightarrow> (int \<times> u8 list \<times> world) outcome" where
  "wscat_post_read env w s =
     obind (deref w s) (\<lambda>k.
     if skb_rdsz (sk_recvbuf k) = 0 then Ret (0, [], w)
     else case ops_recv (sk_ops k) of
       Some Wssk_http_recv \<Rightarrow>
         obind (wssk_http_recv (we_stdin env) (we_mem env) w s) (\<lambda>(rv, w). Ret (rv, [], w))
     | Some Wssk_ws_recv \<Rightarrow> wssk_ws_recv w s
     | Some Stdin_recv \<Rightarrow> obind (stdin_recv w s) (\<lambda>(rv, w). Ret (rv, [], w))
     | _ \<Rightarrow> Fault Null_call)"

definition wscat_call_close :: "wscat_env \<Rightarrow> handler" where
  "wscat_call_close env w s =
     obind (deref w s) (\<lambda>k.
     case ops_close (sk_ops k) of
       Some Wssk_close \<Rightarrow> wssk_close w s
     | Some Stdin_close \<Rightarrow> stdin_close (we_tmp env) (we_mem env) w s
     | _ \<Rightarrow> Fault Null_call)"

text \<open>An event of wscat; what \<open>post_read\<close> prints is left out here.\<close>

definition wscat_event :: "wscat_env \<Rightarrow> timespec \<Rightarrow> event \<Rightarrow> world \<Rightarrow> (int \<times> u8 list \<times> world) outcome" where
  "wscat_event env now ev w =
     on_epoll_event (wscat_call_read (we_tls env)) (wscat_call_write (we_tls env)) (wscat_call_close env)
       (\<lambda>w s. obind (wscat_post_read env w s) (\<lambda>(rv, out, w). Ret (rv, w))) ev now w"

end
