(* ===== verification/Client.thy ===== *)
theory Client
  imports Options Uri Handshake Wscat
begin

text \<open>
  The program wscat (src/wscat.c, \<open>main\<close>): its command line with the URI, the configuration it
  gives, and the run from connecting to the end of the event loop.
\<close>

subsection \<open>The command line\<close>

definition wscat_optstring :: string where "wscat_optstring = ''V:P:K:A:i:R:p:vhjNx''"

definition long_opt :: "long_option list" where
  "long_opt =
     [(''sec-ws-ver'', True, CHR ''V''), (''sec-ws-proto'', True, CHR ''P''), (''sec-ws-key'', True, CHR ''K''),
      (''user-agent'', True, CHR ''A''), (''idle-timeout'', True, CHR ''i''), (''ping-interval'', True, CHR ''p''),
      (''json'', True, CHR ''j''), (''repeat-last'', True, CHR ''R''), (''no-handshake'', False, CHR ''N''),
      (''verbose'', False, CHR ''v''), (''no-check-certificate'', False, CHR ''x''), (''help'', False, CHR ''h'')]"

record wscat_args =
  ca_json :: bool
  ca_no_handshake :: bool
  ca_repeat_last :: int
  ca_idle_timeout :: int
  ca_ping_interval :: int
  ca_verbose :: int
  ca_hostname :: "string option"
  ca_port :: "string option"
  ca_user_agent :: string
  ca_request_target :: string
  ca_sec_ws_proto :: "string option"
  ca_sec_ws_ver :: string
  ca_sec_ws_key :: string
  ca_tls :: bool
  ca_no_check_cert :: bool

definition wscat_no_args :: wscat_args where
  "wscat_no_args = \<lparr>ca_json = False, ca_no_handshake = False, ca_repeat_last = -1, ca_idle_timeout = -1,
     ca_ping_interval = -1, ca_verbose = 0, ca_hostname = None, ca_port = None, ca_user_agent = ''wscat'',
     ca_request_target = ''/'', ca_sec_ws_proto = None, ca_sec_ws_ver = ''13'',
     ca_sec_ws_key = ''B9Pc1t39Tqoj+fidr/bzeg=='', ca_tls = False, ca_no_check_cert = False\<rparr>"

definition wscat_option :: "char \<Rightarrow> string \<Rightarrow> wscat_args \<Rightarrow> ('c, wscat_args) prog" where
  "wscat_option c x a =
     (if c = CHR ''A'' then pret (a\<lparr>ca_user_agent := x\<rparr>)
      else if c = CHR ''i'' then pbind (plift (atoi x)) (\<lambda>v. pret (a\<lparr>ca_idle_timeout := v\<rparr>))
      else if c = CHR ''p'' then pbind (plift (atoi x)) (\<lambda>v. pret (a\<lparr>ca_ping_interval := v\<rparr>))
      else if c = CHR ''v'' then pret (a\<lparr>ca_verbose := ca_verbose a + 1\<rparr>)
      else if c = CHR ''V'' then pret (a\<lparr>ca_sec_ws_ver := x\<rparr>)
      else if c = CHR ''K'' then pret (a\<lparr>ca_sec_ws_key := x\<rparr>)
      else if c = CHR ''P'' then pret (a\<lparr>ca_sec_ws_proto := Some x\<rparr>)
      else if c = CHR ''j'' then pret (a\<lparr>ca_json := True\<rparr>)
      else if c = CHR ''N'' then pret (a\<lparr>ca_no_handshake := True\<rparr>)
      else if c = CHR ''R'' then pbind (plift (atoi x)) (\<lambda>v. pret (a\<lparr>ca_repeat_last := v\<rparr>))
      else if c = CHR ''x'' then pret (a\<lparr>ca_no_check_cert := True\<rparr>)
      else if c = CHR ''h'' then pend (Exits 0)
      else pend (Exits 1))"

fun wscat_options :: "(char \<times> string) list \<Rightarrow> wscat_args \<Rightarrow> ('c, wscat_args) prog" where
  "wscat_options [] a = pret a"
| "wscat_options ((c, x) # os) a = pbind (wscat_option c x a) (wscat_options os)"

subsection \<open>The URI\<close>

text \<open>\<open>strndup\<close> of a part of the URI, as a string.\<close>

fun strndup :: "u8 list \<Rightarrow> nat \<Rightarrow> nat \<Rightarrow> string outcome" where
  "strndup m p 0 = Ret []"
| "strndup m p (Suc n) =
     obind (mem_get m p) (\<lambda>c.
     if c = NUL then Ret [] else obind (strndup m (Suc p) n) (\<lambda>cs. Ret (char_of (unat c) # cs)))"

definition chunk_strndup :: "u8 list \<Rightarrow> chunk \<Rightarrow> string outcome" where
  "chunk_strndup m c =
     (if chunk_len c = 0 then Ret []
      else case chunk_p c of None \<Rightarrow> Fault Null_deref | Some p \<Rightarrow> strndup m p (unat (chunk_len c)))"

definition path_strndup :: "u8 list \<Rightarrow> uri_path \<Rightarrow> string outcome" where
  "path_strndup m p = (case p of Path_null \<Rightarrow> Ret [] | Path_arg c \<Rightarrow> chunk_strndup m c | Path_literal s \<Rightarrow> Ret s)"

definition wscat_uri :: "string \<Rightarrow> wscat_args \<Rightarrow> ('c, wscat_args) prog" where
  "wscat_uri arg a =
     (let m = bytes arg @ [NUL] in
      pbind (plift (parse_uri m null_uri)) (\<lambda>(rv, u).
      if 0 > rv then pend (Exits 1)
      else
      pbind (plift (if chunk_len (uri_scheme u) = 3 then chunk_strncasecmp m (uri_scheme u) ''wss'' 3 else Ret False)) (\<lambda>wss.
      pbind (plift (if wss then Ret True
                    else if chunk_len (uri_scheme u) \<noteq> 2 then Ret False
                    else chunk_strncasecmp m (uri_scheme u) ''ws'' 2)) (\<lambda>known.
      if \<not> known then pend (Exits 1)
      else
      let a = (if wss then a\<lparr>ca_tls := True\<rparr> else a) in
      pbind (plift (chunk_strndup m (uri_host u))) (\<lambda>host.
      let a = a\<lparr>ca_hostname := Some host\<rparr> in
      pbind (if chunk_len (uri_port u) \<noteq> 0
             then pbind (plift (chunk_strndup m (uri_port u))) (\<lambda>port. pret (a\<lparr>ca_port := Some port\<rparr>))
             else pret a) (\<lambda>a.
      pbind (plift (path_strndup m (uri_path u))) (\<lambda>target.
      pret (a\<lparr>ca_request_target := target\<rparr>))))))))"

subsection \<open>The configuration\<close>

text \<open>
  The array for the one host name is allocated with 2 bytes and then takes a pointer of 8:
  \<open>usable\<close> says how many bytes may be used of what \<open>malloc(n)\<close> returns.
\<close>

definition wscat_config :: "(nat \<Rightarrow> nat) \<Rightarrow> wscat_args \<Rightarrow> wsd_config outcome" where
  "wscat_config usable a =
     (let host = (case ca_hostname a of None \<Rightarrow> ''localhost'' | Some h \<Rightarrow> h);
          port = (case ca_port a of None \<Rightarrow> if ca_tls a then ''443'' else ''80'' | Some p \<Rightarrow> p)
      in
      obind (c_int (ca_ping_interval a * 1000)) (\<lambda>ping.
      if usable 2 < 8 then Fault Out_of_bounds
      else
      Ret \<lparr>cfg_uid = 0, cfg_lfd = -1, cfg_lport = 0, cfg_fport = port, cfg_fhostname = [host], cfg_fhostname_num = 0,
        cfg_pidfilename = None, cfg_verbose = of_int (ca_verbose a), cfg_no_fork = False,
        cfg_idle_timeout = ca_idle_timeout a, cfg_ping_interval = ping, cfg_closing_handshake_timeout = 0,
        cfg_sec_ws_proto = ca_sec_ws_proto a, cfg_user_agent = ca_user_agent a,
        cfg_request_target = ca_request_target a, cfg_sec_ws_ver = ca_sec_ws_ver a,
        cfg_sec_ws_key = ca_sec_ws_key a, cfg_tls = ca_tls a, cfg_no_check_cert = ca_no_check_cert a\<rparr>))"

text \<open>The globals when \<open>main\<close> has set them.\<close>

definition wscat_globals :: "wsd_config \<Rightarrow> wscat_args \<Rightarrow> world" where
  "wscat_globals cfg a = (init_world cfg)\<lparr>is_json := ca_json a, no_handshake := ca_no_handshake a,
     repeat_last_num := (if 0 < ca_repeat_last a then ca_repeat_last a else -1)\<rparr>"

subsection \<open>The run\<close>

text \<open>Connecting, and the first step on the connection.\<close>

definition wscat_start :: "connection \<Rightarrow> ssl_error option \<Rightarrow> world \<Rightarrow> ('c, world) prog" where
  "wscat_start cn ret w =
     pbind (plift (wssk_init cn w)) (\<lambda>(rv, w).
     if 0 > rv then pend (Exits 1)
     else
     pbind (plift (deref_global (wssk w))) (\<lambda>s.
     if cfg_tls (wsd_cfg w)
     then pbind (plift (wssk_tls_handshake ret w s)) (\<lambda>(rv, w). pret w)
     else
       pbind (plift (create_http_req w s)) (\<lambda>(rv, w).
       if 0 > rv then pend (Exits 1) else plift (turn_on_events w s EPOLLOUT))))"

definition wscat_setup ::
  "(nat \<Rightarrow> nat) \<Rightarrow> connection \<Rightarrow> ssl_error option \<Rightarrow> string list \<Rightarrow> ('c, world) prog" where
  "wscat_setup usable cn ret argv =
     (let (os, rest) = getopt wscat_optstring long_opt argv in
      pbind (wscat_options os wscat_no_args) (\<lambda>a.
      pbind (if rest \<noteq> [] then wscat_uri (hd rest) a else pret a) (\<lambda>a.
      pbind (plift (wscat_config usable a)) (\<lambda>cfg.
      wscat_start cn ret (wscat_globals cfg a)))))"

text \<open>
  \<open>closed\<close> says whether \<open>close(epfd)\<close> succeeds; the host name, the port, the array of host names, the
  configuration and the last input all come from \<open>malloc\<close>, \<open>strdup\<close> or \<open>strndup\<close>.
\<close>

definition wscat_main ::
  "(nat \<Rightarrow> nat) \<Rightarrow> connection \<Rightarrow> ssl_error option \<Rightarrow> wscat_env round list \<Rightarrow> bool \<Rightarrow> string list \<Rightarrow> ('c, unit) prog" where
  "wscat_main usable cn ret rounds closed argv =
     pbind (wscat_setup usable cn ret argv) (\<lambda>w.
     pbind (plift (event_loop (\<lambda>env. wscat_on_iteration (we_tmp env) (we_mem env)) (\<lambda>ev w. Fault Null_call)
              wscat_event 0 rounds w)) (\<lambda>(rv, out, w).
     pbind (pfree Malloced) (\<lambda>_.
     pbind (pneed closed) (\<lambda>_.
     pbind (pfree Malloced) (\<lambda>_.
     pbind (pfree Malloced) (\<lambda>_.
     pbind (pfree Malloced) (\<lambda>_.
     pbind (pfree Malloced) (\<lambda>_.
     pend (Exits rv)))))))))"

end
