(* ===== verification/Steps.thy ===== *)
theory Steps
  imports Child
begin

text \<open>
  The child process of wsd as a state machine: its invariant, the proof that every handler
  keeps it, the step relation of the event loop, and what holds in every reachable state.
\<close>

subsection \<open>What returned computations satisfy\<close>

definition returns :: "'a outcome \<Rightarrow> ('a \<Rightarrow> bool) \<Rightarrow> bool" where
  "returns r Q \<longleftrightarrow> (\<forall>x. r = Ret x \<longrightarrow> Q x)"

named_theorems wlp \<open>rules for what a computation returns, if it does\<close>

lemma returns_simps [simp]: "returns (Ret x) Q = Q x" "returns Exit Q" "returns (Fault e) Q"
  by (simp_all add: returns_def)

lemma returns_post: "post m Q \<Longrightarrow> returns m Q"
  by (cases m) simp_all

lemma returnsD: "returns m Q \<Longrightarrow> m = Ret x \<Longrightarrow> Q x"
  by simp

lemma returns_obind [wlp]: "returns m (\<lambda>x. returns (f x) Q) \<Longrightarrow> returns (obind m f) Q"
  by (cases m) simp_all

lemma returns_guard [wlp]: "(b \<Longrightarrow> Q ()) \<Longrightarrow> returns (guard b) Q"
  by (cases b) simp_all

lemma returns_if [wlp]: "(b \<Longrightarrow> returns m Q) \<Longrightarrow> (\<not> b \<Longrightarrow> returns n Q) \<Longrightarrow> returns (if b then m else n) Q"
  by simp

lemma returns_mono: "returns m P \<Longrightarrow> (\<And>x. P x \<Longrightarrow> Q x) \<Longrightarrow> returns m Q"
  by (cases m) simp_all

lemma returns_deref [wlp]: "(\<And>k. heap w s = Some k \<Longrightarrow> Q k) \<Longrightarrow> returns (deref w s) Q"
  by (simp add: deref_def split: option.split)

lemma returns_upd_sk [wlp]: "(\<And>k. heap w s = Some k \<Longrightarrow> Q (put_sk w s (f k))) \<Longrightarrow> returns (upd_sk w s f) Q"
  by (auto simp: upd_sk_def deref_def split: option.split)

lemma returns_global [wlp]: "(\<And>p. g = Some p \<Longrightarrow> Q p) \<Longrightarrow> returns (deref_global g) Q"
  by (cases g) simp_all

lemma returns_any: "(\<And>x. Q x) \<Longrightarrow> returns m Q"
  by (cases m) simp_all

subsection \<open>The invariant\<close>

definition role_ok :: "world \<Rightarrow> ptr \<Rightarrow> sk \<Rightarrow> bool" where
  "role_ok w s k \<longleftrightarrow> ops_read (sk_ops k) = Some Sk_read \<and> ops_write (sk_ops k) = Some Sk_write
     \<and> (if pp2sk w = Some s
        then ops_recv (sk_ops k) = Some Pp2_recv \<and> ops_close (sk_ops k) = Some Pp2_close
        else ops_close (sk_ops k) = Some Sk_close
          \<and> (ops_recv (sk_ops k) = Some Http_recv \<and> sk_proto k = null_proto\<lparr>decode_handshake := Some Ws_decode_handshake\<rparr>
             \<or> ops_recv (sk_ops k) = Some Ws_recv \<and> ws_client k \<and> ping (sk_proto k) = Some Ws_ping
               \<and> decode_frame (sk_proto k) = Some Ws_decode_frame \<and> encode_frame (sk_proto k) = Some Ws_encode_frame))"

definition child_ok :: "world \<Rightarrow> bool" where
  "child_ok w \<longleftrightarrow> wsd_ok w \<and> table_ok w \<and> distinct (sk_list w) \<and> distinct (work_list w)
     \<and> (\<forall>s \<in> set (sk_list w). \<exists>k. heap w s = Some k \<and> role_ok w s k)
     \<and> (\<forall>s. hashed w s \<longrightarrow> s \<in> set (sk_list w) \<and> pp2sk w \<noteq> Some s)
     \<and> (\<forall>p. pp2sk w = Some p \<longrightarrow> p \<in> set (sk_list w))
     \<and> (\<forall>s k. heap w s = Some k \<longrightarrow> s \<in> set (sk_list w) \<or> ops_recv (sk_ops k) = None)"

lemma child_okD:
  assumes "child_ok w"
  shows "wsd_ok w" "table_ok w" "distinct (sk_list w)" "distinct (work_list w)"
  using assms by (simp_all add: child_ok_def)

lemma child_ok_role: "child_ok w \<Longrightarrow> s \<in> set (sk_list w) \<Longrightarrow> heap w s = Some k \<Longrightarrow> role_ok w s k"
  by (auto simp: child_ok_def)

lemma role_ok_ident: "ident k' = ident k \<Longrightarrow> pp2sk w' = pp2sk w \<Longrightarrow> role_ok w' s k' = role_ok w s k"
  by (simp add: role_ok_def ident_def ws_client_def)

lemma hashed_cong: "sk_hash w' = sk_hash w \<Longrightarrow> hashed w' s = hashed w s"
  by (simp add: hashed_def)

lemma table_ok_evolves:
  assumes "table_ok w" "evolves w w'"
  shows "table_ok w'"
proof -
  have "\<exists>k'. heap w' s = Some k' \<and> hash_min (sk_hashval k') = i" if "heap w s = Some k" "hash_min (sk_hashval k) = i" for s k i
    using evolves_heap [OF assms(2) that(1)] that(2) by (metis ident_def prod.inject)
  then show ?thesis
    using assms(1) evolvesD(3) [OF assms(2)] by (fastforce simp: table_ok_def)
qed

lemma child_ok_evolves:
  assumes ok: "child_ok w" and e: "evolves w w'"
  shows "child_ok w'"
proof -
  note E = evolvesD [OF e]
  have "\<exists>k'. heap w' s = Some k' \<and> role_ok w' s k'" if "s \<in> set (sk_list w)" for s
  proof -
    obtain k where k: "heap w s = Some k" "role_ok w s k"
      using ok \<open>s \<in> _\<close> by (auto simp: child_ok_def)
    obtain k' where "heap w' s = Some k'" "ident k' = ident k"
      using evolves_heap [OF e k(1)] .
    then show ?thesis
      using k(2) role_ok_ident [OF _ E(2)] by blast
  qed
  moreover have "s \<in> set (sk_list w) \<or> ops_recv (sk_ops k') = None" if "heap w' s = Some k'" for s k'
  proof -
    have "map_option ident (heap w s) = Some (ident k')"
      using e that unfolding evolves_def same_sockets_def by (metis option.simps(9))
    then obtain k where "heap w s = Some k" "sk_ops k = sk_ops k'"
      by (auto simp: ident_def)
    then show ?thesis
      using ok unfolding child_ok_def by metis
  qed
  ultimately show ?thesis
    using ok E table_ok_evolves [OF _ e] hashed_cong [OF E(3)] by (simp add: child_ok_def)
qed

subsection \<open>Buffers\<close>

lemma skb_wrote:
  assumes "skb_wf b" "mem_write (skb_data b) (unat (wrpos b)) bs = Ret d" "n \<le> length bs"
  shows "skb_wf (b\<lparr>skb_data := d, wrpos := wrpos b + of_nat n\<rparr>)"
proof -
  note D = skb_wfD [OF assms(1)]
  have le: "unat (wrpos b) + n \<le> 1048576"
    using assms(2,3) D by (auto simp: mem_write_def split: if_splits)
  then have "unat (wrpos b + of_nat n) = unat (wrpos b) + n"
    by (rule unat_add_small)
  then show ?thesis
    using D le length_mem_write [OF assms(2)] by (simp add: skb_wf_def word_le_nat_alt SKB_SIZE_def)
qed

text \<open>A buffer that has been appended to.\<close>

definition longer :: "skb \<Rightarrow> skb \<Rightarrow> bool" where
  "longer b0 b \<longleftrightarrow> skb_wf b0 \<and> skb_wf b \<and> rdpos b = rdpos b0"

lemma longer_refl: "skb_wf b \<Longrightarrow> longer b b"
  by (simp add: longer_def)

lemma longer_undo: "longer b b' \<Longrightarrow> longer b (b'\<lparr>wrpos := wrpos b\<rparr>)"
  by (simp add: longer_def skb_wf_def)

lemma longer_write:
  assumes "longer b0 b" "mem_write (skb_data b) (unat (wrpos b)) bs = Ret d" "n \<le> length bs"
  shows "longer b0 (b\<lparr>skb_data := d, wrpos := wrpos b + of_nat n\<rparr>)"
  using assms skb_wrote [of b bs d n] by (simp add: longer_def)

lemma longer_strcpy [wlp]:
  assumes "longer b0 b" "\<And>b'. longer b0 b' \<Longrightarrow> Q b'"
  shows "returns (skb_strcpy b lit) Q"
  using longer_write [OF assms(1), of "lit @ [NUL]" _ "length lit"]
  by (auto simp: skb_strcpy_def returns_def outcome_simps intro!: assms(2))

lemma longer_put_mem [wlp]:
  assumes "longer b0 b" "\<And>b'. longer b0 b' \<Longrightarrow> Q b'"
  shows "returns (skb_put_mem b bs) Q"
  using longer_write [OF assms(1), of bs _ "length bs"]
  by (auto simp: skb_put_mem_def returns_def outcome_simps intro!: assms(2))

lemma longer_put8 [wlp]: "longer b0 b \<Longrightarrow> (\<And>b'. longer b0 b' \<Longrightarrow> Q b') \<Longrightarrow> returns (skb_put8 b c) Q"
  unfolding skb_put8_def by (rule longer_put_mem)

lemma skb_put_strn_wf:
  assumes "skb_wf b"
  shows "returns (skb_put_strn b m p n) (\<lambda>(rv, b'). skb_wf b')"
proof -
  have len: "strncpy_bytes m p k = Ret bs \<Longrightarrow> length bs = k" for k bs
    by (auto simp: strncpy_bytes_def Let_def split: if_splits intro!: le_add_diff_inverse
        order_trans [OF length_takeWhile_le])
  have cast: "(ucast n :: u32) = of_nat (unat n)" for n :: u64
    by simp
  show ?thesis
    using assms skb_wrote [OF assms, of _ _ "unat n"] len
    by (auto simp: skb_put_strn_def returns_def outcome_simps split: if_splits)
qed

lemma generate_accept_val_longer [wlp]:
  "longer b0 b \<Longrightarrow> (\<And>b' req'. longer b0 b' \<Longrightarrow> Q (1, b', req')) \<Longrightarrow> returns (generate_accept_val digest m b req) Q"
  unfolding generate_accept_val_def Let_def
  by (rule wlp returns_any returns_simps(1) [THEN iffD2] | assumption)+

lemma prepare_handshake_longer:
  assumes "skb_wf b"
  shows "returns (prepare_handshake digest m b req) (\<lambda>(rv, b', req'). longer b b')"
proof -
  note undo = longer_undo [of b]
  show ?thesis
    unfolding prepare_handshake_def Let_def
    using longer_refl [OF assms]
    by - (rule wlp | simp only: returns_simps prod.case | erule undo | assumption | rule returns_any)+
qed

subsection \<open>Handlers that keep the identity of the sockets\<close>

text \<open>A returned world satisfies the invariant; rules to step through a handler.\<close>

lemma child_ok_live:
  assumes "child_ok w" "heap w s = Some k"
  shows "skb_wf (sk_sendbuf k)" "skb_wf (sk_recvbuf k)" "registered w k"
  using wsd_ok_wf [OF child_okD(1) [OF assms(1)] assms(2)] by simp_all

lemma child_ok_errno [simp]: "child_ok (w\<lparr>wsd_errno := e\<rparr>) = child_ok w"
proof -
  have "evolves v (v\<lparr>wsd_errno := e'\<rparr>)" if "wsd_ok v" for v e'
    by (rule evolves_errno [OF evolves_refl [OF that]])
  then have up: "child_ok v \<Longrightarrow> child_ok (v\<lparr>wsd_errno := e'\<rparr>)" for v e'
    using child_ok_evolves child_okD(1) by blast
  from up [of w e] up [of "w\<lparr>wsd_errno := e\<rparr>" "wsd_errno w"] show ?thesis
    by auto
qed

lemma child_ok_put:
  assumes "child_ok w" "heap w s = Some k" "ident k' = ident k" "sk_events k' = sk_events k"
    "skb_wf (sk_sendbuf k')" "skb_wf (sk_recvbuf k')"
  shows "child_ok (put_sk w s k')"
  using child_ok_evolves [OF assms(1) evolves_put [OF child_okD(1) [OF assms(1)] assms(2-6)]] .

lemma keeps_by_output:
  assumes "child_ok w" "\<And>w'. child_ok w' \<Longrightarrow> Q w'"
    and "m = obind (deref w s) f" "\<And>k. heap w s = Some k \<Longrightarrow> post m (output_only w)"
  shows "returns m Q"
proof (cases "heap w s")
  case (Some k)
  from returns_post [OF assms(4) [OF Some]] show ?thesis
    by (rule returns_mono) (use assms(1,2) child_ok_evolves in \<open>auto simp: output_only_def\<close>)
qed (simp add: assms(3) deref_def)

lemma keeps_turn_on [wlp]:
  "child_ok w \<Longrightarrow> (\<And>w'. child_ok w' \<Longrightarrow> Q w') \<Longrightarrow> returns (turn_on_events w s ev) Q"
  by (rule keeps_by_output [OF _ _ turn_on_events_def post_turn_on [OF child_okD(1)]])

lemma keeps_turn_off [wlp]:
  "child_ok w \<Longrightarrow> (\<And>w'. child_ok w' \<Longrightarrow> Q w') \<Longrightarrow> returns (turn_off_events w s ev) Q"
  by (rule keeps_by_output [OF _ _ turn_off_events_def post_turn_off [OF child_okD(1)]])

lemma keeps_ensure [wlp]:
  "child_ok w \<Longrightarrow> (\<And>w'. child_ok w' \<Longrightarrow> Q w') \<Longrightarrow> returns (ensure_events w s ev) Q"
  by (rule keeps_by_output [OF _ _ ensure_events_def post_ensure [OF child_okD(1)]])

lemma keeps_compact [wlp]:
  "child_ok w \<Longrightarrow> (\<And>w'. child_ok w' \<Longrightarrow> Q w') \<Longrightarrow> returns (compact_recvbuf w s) Q"
  by (rule keeps_by_output [OF _ _ compact_recvbuf_def compact_recvbuf_post [OF child_okD(1)]])

text \<open>Assignments to a socket.\<close>

lemma keeps_upd:
  assumes "child_ok w"
    and "\<And>k. heap w s = Some k \<Longrightarrow> skb_wf (sk_sendbuf k) \<Longrightarrow> skb_wf (sk_recvbuf k) \<Longrightarrow>
      ident (f k) = ident k \<and> sk_events (f k) = sk_events k \<and> skb_wf (sk_sendbuf (f k)) \<and> skb_wf (sk_recvbuf (f k))"
    and "\<And>w'. child_ok w' \<Longrightarrow> Q w'"
  shows "returns (upd_sk w s f) Q"
  using assms(1,2) child_ok_live [OF assms(1)]
  by (auto intro!: returns_upd_sk assms(3) child_ok_put)

lemma skb_reset_wf: "skb_wf b \<Longrightarrow> skb_wf (skb_reset b)"
  using skb_reset_ok [of b] skb_wfD(1) [of b] by simp

lemma keeps_answer [wlp]:
  assumes "child_ok w" "\<And>w'. child_ok w' \<Longrightarrow> Q w'"
  shows "returns (answer w s lit) Q"
  unfolding answer_def
proof (intro returns_obind returns_deref)
  fix k assume k: "heap w s = Some k"
  note wf = child_ok_live [OF assms(1) k]
  show "returns (skb_put_strn (sk_sendbuf k) (lit @ [NUL]) 0 (of_nat (length lit))) (\<lambda>x. returns
    (case x of (rv, b) \<Rightarrow> let k = k\<lparr>sk_sendbuf := b\<rparr> in Ret (put_sk w s (if rv = 0 then k\<lparr>sk_close_on_write := True\<rparr> else k))) Q)"
    by (rule returns_mono [OF skb_put_strn_wf [OF wf(1)]])
      (auto simp: Let_def ident_def intro!: assms(2) child_ok_put [OF assms(1) k] wf(2))
qed

lemma keeps_reject [wlp]:
  assumes "child_ok w" "\<And>w'. child_ok w' \<Longrightarrow> Q (-1, w')"
  shows "returns (reject w s) Q"
  unfolding reject_def Let_def
  by (intro wlp keeps_upd [OF assms(1)]) (auto simp: ident_def skb_reset_wf intro!: wlp assms(2))

lemma keeps_bad_request [wlp]:
  "child_ok w \<Longrightarrow> (\<And>w'. child_ok w' \<Longrightarrow> Q (-1, w')) \<Longrightarrow> returns (bad_request w s) Q"
  unfolding bad_request_def by (intro wlp)

subsection \<open>The upgrade of a client\<close>

lemma child_ok_ws_mode:
  assumes ok: "child_ok w" and k: "heap w s = Some k" and s: "pp2sk w \<noteq> Some s" "ops_recv (sk_ops k) = Some Http_recv"
  shows "child_ok (put_sk w s (ws_mode k))"
proof -
  note D = child_okD [OF ok]
  have same: "sk_fd (ws_mode k) = sk_fd k" "sk_events (ws_mode k) = sk_events k" "sk_hashval (ws_mode k) = sk_hashval k"
    "sk_sendbuf (ws_mode k) = sk_sendbuf k" "sk_recvbuf (ws_mode k) = sk_recvbuf k"
    by (simp_all add: ws_mode_def)
  let ?w = "put_sk w s (ws_mode k)"
  have live: "live ?w t l" if "heap ?w t = Some l" for t l
    using that wsd_ok_live [OF D(1), of t] wsd_ok_live [OF D(1) k] same
    by (cases "t = s") (auto simp: live_def registered_def)
  have fd: "t = u" if "heap ?w t = Some l" "heap ?w u = Some m" "sk_fd l = sk_fd m" for t u l m
  proof -
    have "\<exists>k0. heap w v = Some k0 \<and> sk_fd k0 = sk_fd n" if "heap ?w v = Some n" for v n
      using that k same(1) by (cases "v = s") auto
    from this [OF that(1)] this [OF that(2)] show ?thesis
      using that(3) wsd_ok_fd [OF D(1), of t _ u] by fastforce
  qed
  have wsd: "wsd_ok ?w"
    unfolding wsd_ok_def
  proof (intro conjI allI impI)
    fix p assume "pp2sk ?w = Some p"
    then show "\<exists>pk. heap ?w p = Some pk \<and> encode_frame (sk_proto pk) = Some Pp2_encode_frame
        \<and> decode_frame (sk_proto pk) = Some Pp2_decode_frame"
      using wsd_ok_pp2sk [OF D(1), of p] s(1) by auto
  qed (use live fd in blast)+
  have mem: "s \<in> set (sk_list w)"
    using ok k s(2) unfolding child_ok_def by fastforce
  have tab: "table_ok ?w"
    using D(2) k same(3) by (fastforce simp: table_ok_def)
  have role: "role_ok ?w t l" if "t \<in> set (sk_list w)" "heap ?w t = Some l" for t l
  proof (cases "t = s")
    case True
    then have "role_ok w s k"
      using child_ok_role [OF ok mem k] by simp
    then show ?thesis
      using True that s by (auto simp: role_ok_def ws_mode_def ws_client_def)
  next
    case False
    then show ?thesis
      using that child_ok_role [OF ok, of t l] by (simp add: role_ok_def)
  qed
  have "\<exists>l. heap ?w t = Some l" if "t \<in> set (sk_list w)" for t
    using that ok k unfolding child_ok_def by fastforce
  moreover have "t \<in> set (sk_list ?w) \<or> ops_recv (sk_ops l) = None" if "heap ?w t = Some l" for t l
    using that ok mem unfolding child_ok_def by (auto split: if_splits)
  moreover have "hashed ?w t = hashed w t" for t
    by (simp add: hashed_def)
  ultimately show ?thesis
    using ok wsd tab role unfolding child_ok_def by simp metis
qed

text \<open>A computation on values only: whatever it returns.\<close>

lemma returns_bind1: "(\<And>x. returns (f x) Q) \<Longrightarrow> returns (obind m f) Q"
  by (cases m) simp_all

lemma returns_bind2: "(\<And>a b. returns (f a b) Q) \<Longrightarrow> returns (obind m (\<lambda>(a, b). f a b)) Q"
  by (cases m) (auto split: prod.split)

lemma returns_bind3: "(\<And>a b c. returns (f a b c) Q) \<Longrightarrow> returns (obind m (\<lambda>(a, b, c). f a b c)) Q"
  by (cases m) (auto split: prod.split)

lemma returns_bind4: "(\<And>a b c d. returns (f a b c d) Q) \<Longrightarrow> returns (obind m (\<lambda>(a, b, c, d). f a b c d)) Q"
  by (cases m) (auto split: prod.split)

lemma returns_then:
  "returns m P \<Longrightarrow> (\<And>x. P x \<Longrightarrow> returns (f x) Q) \<Longrightarrow> returns (obind m f) Q"
  by (cases m) simp_all

lemma keeps_decode_handshake:
  assumes ok: "child_ok w" and s: "pp2sk w \<noteq> Some s" "\<And>k. heap w s = Some k \<Longrightarrow> ops_recv (sk_ops k) = Some Http_recv"
    and Q: "\<And>rv w'. child_ok w' \<Longrightarrow> Q (rv, w')"
  shows "returns (ws_decode_handshake digest w s req) Q"
proof -
  have refuse: "returns (obind (answer v s lit) (\<lambda>w. reject w s)) Q" if "child_ok v" for v lit
    using that by (intro wlp Q)
  have switch: "returns (if 0 > rv then obind (answer v s HTTP_500) (\<lambda>w. reject w s)
      else obind (upd_sk v s ws_mode) (\<lambda>w. obind (guard g1) (\<lambda>_. obind (guard g2) (\<lambda>_.
      obind (compact_recvbuf w s) (\<lambda>w. obind (ensure_events w s EPOLLOUT) (\<lambda>w. Ret (0, w))))))) Q"
    if v: "v = put_sk w s (k\<lparr>sk_sendbuf := b\<rparr>)" "heap w s = Some k" "skb_wf b" for v k b g1 g2 and rv :: int
  proof -
    have v_ok: "child_ok v"
      unfolding v(1) using v(3) child_ok_live [OF ok v(2)] by (intro child_ok_put [OF ok v(2)]) (simp_all add: ident_def)
    moreover have k: "heap v s = Some (k\<lparr>sk_sendbuf := b\<rparr>)" "pp2sk v \<noteq> Some s"
      using s(1) by (simp_all add: v(1))
    ultimately have "child_ok (put_sk v s (ws_mode (k\<lparr>sk_sendbuf := b\<rparr>)))"
      using s(2) [OF v(2)] by (intro child_ok_ws_mode) simp_all
    then have "returns (obind (upd_sk v s ws_mode) (\<lambda>w. obind (guard g1) (\<lambda>_. obind (guard g2) (\<lambda>_.
      obind (compact_recvbuf w s) (\<lambda>w. obind (ensure_events w s EPOLLOUT) (\<lambda>w. Ret (0, w))))))) Q"
      unfolding upd_sk_Ret [OF k(1)] obind.simps by (intro wlp) (auto intro!: wlp Q)
    then show ?thesis
      using refuse [OF v_ok] by simp
  qed
  have prep: "returns (obind (prepare_handshake digest m (sk_sendbuf k) req) (\<lambda>(rv, b, req).
      if 0 > rv then obind (answer (put_sk w s (k\<lparr>sk_sendbuf := b\<rparr>)) s HTTP_500) (\<lambda>w. reject w s)
      else obind (upd_sk (put_sk w s (k\<lparr>sk_sendbuf := b\<rparr>)) s ws_mode) (\<lambda>w. obind (guard g1) (\<lambda>_. obind (guard (skb_wrsz b \<noteq> 0)) (\<lambda>_.
      obind (compact_recvbuf w s) (\<lambda>w. obind (ensure_events w s EPOLLOUT) (\<lambda>w. Ret (0, w)))))))) Q"
    if k: "heap w s = Some k" for k m req g1
    by (rule returns_then [OF prepare_handshake_longer [OF child_ok_live(1) [OF ok k]]])
      (auto simp only: prod.case longer_def intro!: switch [OF refl k])
  show ?thesis
    unfolding ws_decode_handshake_def Let_def
    by (rule prep returns_obind [OF returns_deref] returns_bind2 returns_if refuse ok returns_obind [OF returns_guard] | assumption)+
qed

lemma keeps_check_fields:
  assumes ok: "child_ok w" and k: "heap w s = Some k" and s: "pp2sk w \<noteq> Some s" "ops_recv (sk_ops k) = Some Http_recv"
    and Q: "\<And>rv w'. child_ok w' \<Longrightarrow> Q (rv, w')"
  shows "returns (check_fields digest m w s k req) Q"
proof -
  have errno: "child_ok (set_errno e w) \<and> heap (set_errno e w) = heap w \<and> pp2sk (set_errno e w) = pp2sk w" if "child_ok w" for e w
    using that by (cases e) (simp_all add: set_errno_def)
  have bad: "returns (bad_request v s) Q" if "child_ok v" for v
    using that by (intro wlp Q)
  have last: "returns (obind (upd_sk v s (\<lambda>k. k\<lparr>sk_recvbuf := skb_reset (sk_recvbuf k)\<rparr>)) (\<lambda>w.
      call_decode_handshake digest f w s req)) Q" if v: "child_ok v" "heap v = heap w" "pp2sk v = pp2sk w" for v f req
  proof -
    have "child_ok (put_sk v s (k\<lparr>sk_recvbuf := skb_reset (sk_recvbuf k)\<rparr>))"
      using child_ok_live [OF ok k] v(2) k by (intro child_ok_put [OF v(1), of _ k]) (simp_all add: ident_def skb_reset_wf)
    then show ?thesis
      using v s k by (cases f) (auto simp: call_decode_handshake_def intro!: keeps_decode_handshake Q split: decode_handshake_fn.split)
  qed
  show ?thesis
    unfolding check_fields_def Let_def
    using errno [OF ok] errno [OF conjunct1 [OF errno [OF ok]]]
    by - (rule last returns_bind3 returns_if bad ok | (simp; fail))+
qed

lemma keeps_http_recv:
  assumes ok: "child_ok w" and s: "pp2sk w \<noteq> Some s" "\<And>k. heap w s = Some k \<Longrightarrow> ops_recv (sk_ops k) = Some Http_recv"
    and Q: "\<And>rv w'. child_ok w' \<Longrightarrow> Q (rv, w')"
  shows "returns (http_recv digest w s) Q"
proof -
  have bad: "returns (bad_request (w\<lparr>wsd_errno := e\<rparr>) s) Q" "returns (reject (w\<lparr>wsd_errno := e\<rparr>) s) Q"
    "returns (bad_request (set_errno e' (w\<lparr>wsd_errno := e\<rparr>)) s) Q" for e e'
    using ok by (cases e'; intro wlp Q; simp add: set_errno_def)+
  have fields: "returns (check_fields digest m (w\<lparr>wsd_errno := e\<rparr>) s k req) Q" if "heap w s = Some k" for k m req e
    using that ok s by (intro keeps_check_fields Q) simp_all
  show ?thesis
    unfolding http_recv_def Let_def
    by (rule fields bad returns_obind [OF returns_deref] returns_obind [OF returns_guard] returns_bind4 returns_bind3 returns_bind2 returns_bind1 returns_if
      | assumption | (simp add: Q ok bad fields; fail))+
qed

subsection \<open>Frames of the backend\<close>

lemma skipped:
  assumes "skb_wf b" "n \<le> length (pending b)"
  shows "skb_wf (b\<lparr>rdpos := rdpos b + of_nat n\<rparr>) \<and> same_bytes b (b\<lparr>rdpos := rdpos b + of_nat n\<rparr>)
    \<and> length (pending (b\<lparr>rdpos := rdpos b + of_nat n\<rparr>)) + n = length (pending b)"
  using skip_pending [OF assms(1,2)] assms(2) by (simp add: same_bytes_def)

lemma tlv_returns:
  assumes "skb_wf b" "11 \<le> length (pending b)"
  obtains v b' where "pp2_get_connhash b = Ret (v, b')" "skb_wf b'" "same_bytes b b'"
    "length (pending b) \<le> length (pending b') + 11" "length (pending b') \<le> length (pending b)"
proof (cases "take 3 (pending b) = [0xE0, 0, 8]")
  case True
  then show thesis
    using skipped [OF assms] that [OF pp2_get_connhash_pending [OF assms, unfolded if_P [OF True]]] by simp
next
  case False
  then show thesis
    using assms that [OF pp2_get_connhash_pending [OF assms, unfolded if_not_P [OF False]]] by (simp add: same_bytes_refl)
qed

lemma tlv_returns':
  assumes "skb_wf b" "7 \<le> length (pending b)"
  obtains v b' where "pp2_get_payloadlen b = Ret (v, b')" "skb_wf b'" "same_bytes b b'"
    "length (pending b') \<le> length (pending b)"
proof (cases "take 3 (pending b) = [0xE1, 0, 4]")
  case True
  then show thesis
    using skipped [OF assms] that [OF pp2_get_payloadlen_pending [OF assms, unfolded if_P [OF True]]] by simp
next
  case False
  then show thesis
    using assms that [OF pp2_get_payloadlen_pending [OF assms, unfolded if_not_P [OF False]]] by (simp add: same_bytes_refl)
qed

text \<open>The client a hash names is not the backend connection.\<close>

lemma hash_find_client:
  assumes ok: "child_ok w" and f: "hash_find w key = Ret (Some c)"
  obtains k where "heap w c = Some k" "hashed w c" "pp2sk w \<noteq> Some c" "encode_frame (sk_proto k) \<in> {None, Some Ws_encode_frame}"
proof -
  have "hash_min key < HASH_SIZE"
    using f child_okD(2) [OF ok] by (auto simp: hash_find_def hash_bucket_def table_ok_def outcome_simps split: if_splits)
  from hash_find_spec [OF child_okD(2) [OF ok] this] f have c: "hashed w c" by auto
  then have mem: "c \<in> set (sk_list w)" "pp2sk w \<noteq> Some c"
    using ok unfolding child_ok_def by blast+
  obtain k where k: "heap w c = Some k"
    using hashed_alloc [OF child_okD(2) [OF ok] c] by blast
  have "role_ok w c k"
    by (rule child_ok_role [OF ok mem(1) k])
  then show thesis
    using that [OF k c mem(2)] mem(2) by (auto simp: role_ok_def null_proto_def)
qed

text \<open>Passing on a payload, or dropping it when nobody wants it.\<close>

lemma pp2_deliver_returns:
  assumes ok: "child_ok w" and p: "pp2sk w = Some p" and k: "heap w p = Some k"
    and len: "unat len \<le> length (inbuf w p)"
  shows "returns (obind (hash_find w hash) (\<lambda>cln. case cln of
      None \<Rightarrow> obind (upd_sk w p (\<lambda>k. k\<lparr>sk_recvbuf := skb_rd_forward (sk_recvbuf k) len\<rparr>)) (\<lambda>w.
        obind (compact_recvbuf w p) (\<lambda>w. Ret (0, w)))
    | Some c \<Rightarrow> obind (deref w c) (\<lambda>ck. call_encode_frame (encode_frame (sk_proto ck)) w c
        (null_wsframe\<lparr>wsf_payload_len := ucast len\<rparr>)))) (\<lambda>(rv, w'). evolves w w' \<and> length (inbuf w' p) \<le> length (inbuf w p))"
    (is "returns (obind _ ?f) ?Q")
proof (cases "hash_find w hash")
  case (Ret r)
  note wf = child_ok_live [OF ok k] and wsd = child_okD(1) [OF ok]
  show ?thesis
  proof (cases r)
    case None
    let ?b = "skb_rd_forward (sk_recvbuf k) len"
    have b: "skb_wf ?b" "length (pending ?b) \<le> length (pending (sk_recvbuf k))"
      using skipped [OF wf(2), of "unat len"] len k by (simp_all add: skb_rd_forward_def inbuf_def)
    have e: "evolves w (put_sk w p (k\<lparr>sk_recvbuf := ?b\<rparr>))"
      using wf b by (intro evolves_put [OF wsd k]) (simp_all add: ident_def)
    have "returns (compact_recvbuf (put_sk w p (k\<lparr>sk_recvbuf := ?b\<rparr>)) p) (output_only (put_sk w p (k\<lparr>sk_recvbuf := ?b\<rparr>)))"
      by (intro returns_post compact_recvbuf_post evolvesD(1) [OF e]) simp
    then show ?thesis
      using b(2) k by (auto simp: Ret None returns_def outcome_simps output_only_def inbuf_def intro: evolves_trans [OF e])
  next
    case (Some c)
    obtain ck where c: "heap w c = Some ck" "pp2sk w \<noteq> Some c" "encode_frame (sk_proto ck) \<in> {None, Some Ws_encode_frame}"
      using hash_find_client [OF ok, of hash c] Ret Some by auto
    have "unat (ucast len :: u64) = unat len"
      by (simp add: unsigned_ucast_eq take_bit_nat_eq_self order.strict_trans [OF unat_u32_less])
    then have "returns (ws_encode_frame w c (null_wsframe\<lparr>wsf_payload_len := ucast len\<rparr>)) ?Q"
      using ws_encode_frame_RetD [OF wsd c(1) p _ refl, of "null_wsframe\<lparr>wsf_payload_len := ucast len\<rparr>"] c(2) p len
      by (fastforce simp: returns_def split: if_splits)
    then show ?thesis
      using c by (auto simp: Ret Some call_encode_frame_def)
  qed
qed simp_all

lemma pp2_decode_frame_returns:
  assumes ok: "child_ok w" and p: "pp2sk w = Some p"
  shows "returns (pp2_decode_frame w p) (\<lambda>(rv, w'). evolves w w' \<and> (rv = 0 \<longrightarrow> length (inbuf w' p) < length (inbuf w p)))"
proof -
  note wsd = child_okD(1) [OF ok]
  obtain k where k: "heap w p = Some k"
    using wsd_ok_pp2sk [OF wsd p] .
  note wf = child_ok_live [OF ok k]
  let ?rb = "sk_recvbuf k"
  have same: "evolves w ((put_sk w p (k\<lparr>sk_recvbuf := b\<lparr>rdpos := rdpos ?rb\<rparr>\<rparr>))\<lparr>wsd_errno := e\<rparr>)" if "same_bytes ?rb b" for b e
    using that k evolves_recvbuf(1) [OF wsd k wf(2)] by (simp add: same_bytes_def)
  show ?thesis
  proof (cases "length (pending ?rb) \<le> 46")
    case True
    then have "PP2_HEADER_LEN \<ge> skb_rdsz ?rb"
      using length_pending [OF wf(2)] by (simp add: word_le_nat_alt pp2_defs)
    then show ?thesis
      using k by (simp add: pp2_decode_frame_def evolves_errno evolves_refl wsd)
  next
    case False
    then have big: "\<not> PP2_HEADER_LEN \<ge> skb_rdsz ?rb"
      using length_pending [OF wf(2)] by (simp add: word_le_nat_alt pp2_defs)
    have l16: "16 \<le> length (pending ?rb)" using False by simp
    obtain hdr b where b: "skb_get_mem ?rb 16 = Ret (hdr, b)" "length hdr = 16" "hdr = take 16 (pending ?rb)" "skb_wf b"
      "same_bytes ?rb b" "pending b = drop 16 (pending ?rb)"
      by (rule skb_get_any [OF wf(2) l16])
    define b1 where "b1 = b\<lparr>rdpos := rdpos b + PP2_ADDR_LEN\<rparr>"
    have b1: "skb_wf b1" "same_bytes b b1" "length (pending b1) + 28 = length (pending ?rb)"
    proof -
    have "12 \<le> length (pending b)"
      using b(6) False by simp
    from skipped [OF b(4) this] have s: "skb_wf b1" "same_bytes b b1" "length (pending b1) + 12 = length (pending b)"
      by (simp_all add: b1_def pp2_defs)
    have "length (pending b) + 16 = length (pending ?rb)"
      using l16 unfolding b(6) length_drop by linarith
    with s show "skb_wf b1" "same_bytes b b1" "length (pending b1) + 28 = length (pending ?rb)"
      by (assumption | linarith)+
  qed
    obtain v2 b2 where b2: "pp2_get_connhash b1 = Ret (v2, b2)" "skb_wf b2" "same_bytes b1 b2"
      "length (pending b1) \<le> length (pending b2) + 11" "length (pending b2) \<le> length (pending b1)"
      using tlv_returns [OF b1(1)] b1(3) False by auto
    obtain v3 b3 where b3: "pp2_get_payloadlen b2 = Ret (v3, b3)" "skb_wf b3" "same_bytes b2 b3"
      "length (pending b3) \<le> length (pending b2)"
      using tlv_returns' [OF b2(2)] b1(3) b2(4) False by auto
    have s2: "same_bytes ?rb b2" and s3: "same_bytes ?rb b3"
      using same_bytes_trans b(5) b1(2) b2(3) b3(3) by blast+
    let ?w = "put_sk w p (k\<lparr>sk_recvbuf := b3\<rparr>)"
    have e: "evolves w ?w"
      using wf b3(2) by (intro evolves_put [OF wsd k]) (simp_all add: ident_def)
    have shorter: "length (inbuf ?w p) < length (inbuf w p)"
      using b1(3) b2(5) b3(4) k by (simp add: inbuf_def)
    have deliver: "returns (obind (hash_find ?w hash) (\<lambda>cln. case cln of
        None \<Rightarrow> obind (upd_sk ?w p (\<lambda>k. k\<lparr>sk_recvbuf := skb_rd_forward (sk_recvbuf k) len\<rparr>)) (\<lambda>w.
          obind (compact_recvbuf w p) (\<lambda>w. Ret (0, w)))
      | Some c \<Rightarrow> obind (deref ?w c) (\<lambda>ck. call_encode_frame (encode_frame (sk_proto ck)) ?w c
          (null_wsframe\<lparr>wsf_payload_len := ucast len\<rparr>))))
        (\<lambda>(rv, w'). evolves w w' \<and> (rv = 0 \<longrightarrow> length (inbuf w' p) < length (inbuf w p)))"
      if "\<not> skb_rdsz b3 < len" for hash len
    proof -
      have at: "pp2sk ?w = Some p" "heap ?w p = Some (k\<lparr>sk_recvbuf := b3\<rparr>)"
        using p by simp_all
      have "unat len \<le> length (inbuf ?w p)"
        using that length_pending [OF b3(2)] by (simp add: inbuf_def word_less_nat_alt)
      from pp2_deliver_returns [OF child_ok_evolves [OF ok e] at this] show ?thesis
        by (rule returns_mono) (use shorter in \<open>auto intro: evolves_trans [OF e]\<close>)
    qed
    have fail: "returns (pp2_decode_error w p k c (rdpos ?rb))
        (\<lambda>(rv, w'). evolves w w' \<and> (rv = 0 \<longrightarrow> length (inbuf w' p) < length (inbuf w p)))" if "same_bytes ?rb c" for c
      using same [OF that] by (simp add: pp2_decode_error_def)
    show ?thesis
      unfolding pp2_decode_frame_def
      by (simp only: deref_Ret [OF k] obind.simps big if_False Let_def b(1) prod.case b1_def [symmetric] b2(1) b3(1))
        (intro returns_if fail b(5) s2 s3 deliver, simp_all add: same s3)
  qed
qed

text \<open>A socket whose receive handler may run its decoder.\<close>

definition decodes :: "world \<Rightarrow> ptr \<Rightarrow> bool" where
  "decodes w s \<longleftrightarrow> child_ok w \<and> (pp2sk w = Some s \<or> client_ready w s
     \<and> (\<exists>k. heap w s = Some k \<and> decode_frame (sk_proto k) = Some Ws_decode_frame))"

lemma decodes_evolves:
  assumes "decodes w s" "evolves w w'"
  shows "decodes w' s"
proof -
  have "\<exists>k. heap w' s = Some k \<and> decode_frame (sk_proto k) = Some Ws_decode_frame"
    if k: "heap w s = Some k" "decode_frame (sk_proto k) = Some Ws_decode_frame" for k
  proof -
    obtain k' where "heap w' s = Some k'" "ident k' = ident k"
      using evolves_heap [OF assms(2) k(1)] .
    then show ?thesis
      using k(2) by (simp add: ident_def)
  qed
  then show ?thesis
    using assms(1) child_ok_evolves [OF _ assms(2)] client_ready_evolves [OF _ assms(2)] evolvesD(2) [OF assms(2)]
    unfolding decodes_def by auto
qed

lemma call_decode_frame_returns:
  assumes "decodes w s"
  shows "returns (call_decode_frame w s) (\<lambda>(rv, w'). evolves w w' \<and> (rv = 0 \<longrightarrow> length (inbuf w' s) < length (inbuf w s)))"
proof (cases "pp2sk w = Some s")
  case True
  have ok: "child_ok w" using assms by (simp add: decodes_def)
  obtain k where k: "heap w s = Some k" "decode_frame (sk_proto k) = Some Pp2_decode_frame"
    using wsd_ok_pp2sk [OF child_okD(1) [OF ok] True] by metis
  show ?thesis
    using pp2_decode_frame_returns [OF ok True] k by (simp add: call_decode_frame_def)
next
  case False
  then obtain k where k: "heap w s = Some k" "decode_frame (sk_proto k) = Some Ws_decode_frame" "client_ready w s"
    using assms by (auto simp: decodes_def)
  have "returns (ws_decode_frame w s) (\<lambda>(rv, w'). evolves w w' \<and> (rv = 0 \<longrightarrow> length (inbuf w' s) < length (inbuf w s)))"
    by (rule returns_mono [OF returns_post [OF ws_decode_frame_post [OF k(3)]]]) auto
  then show ?thesis
    using k by (simp add: call_decode_frame_def)
qed

interpretation child_decoder: frame_decoder call_decode_frame decodes
proof unfold_locales
  fix w s rv w' assume d: "decodes w s" and r: "call_decode_frame w s = Ret (rv, w')"
  from returnsD [OF call_decode_frame_returns [OF d] r] show "decodes w' s"
    using decodes_evolves [OF d] by simp
next
  fix w s w' assume d: "decodes w s" and r: "call_decode_frame w s = Ret (0, w')"
  from returnsD [OF call_decode_frame_returns [OF d] r] show "length (inbuf w' s) < length (inbuf w s)"
    by simp
qed

lemma keeps_run_frames [wlp]:
  assumes "decodes w s" "\<And>rv m w'. child_ok w' \<Longrightarrow> Q (rv, m, w')"
  shows "returns (run_frames w s) Q"
  using child_decoder.loop_ends [OF assms(1), of 0] assms(2) by (auto simp: run_frames_def returns_def decodes_def)

subsection \<open>Sockets come and go\<close>

lemma wsd_ok_add:
  assumes ok: "wsd_ok w" and p: "heap w p = None" and k: "epoll w (sk_fd k) = None" "skb_wf (sk_sendbuf k)" "skb_wf (sk_recvbuf k)"
    and w': "heap w' = (heap w)(p \<mapsto> k)" "epoll w' = (epoll w)(sk_fd k \<mapsto> sk_events k)"
      "pp2sk w' = pp2sk w \<or> pp2sk w' = Some p \<and> encode_frame (sk_proto k) = Some Pp2_encode_frame
         \<and> decode_frame (sk_proto k) = Some Pp2_decode_frame"
  shows "wsd_ok w'"
proof -
  have fd: "sk_fd l \<noteq> sk_fd k" if "heap w t = Some l" for t l
    using wsd_ok_wf(3) [OF ok that] k(1) by (auto simp: registered_def)
  have live: "live w' t l" if "heap w' t = Some l" for t l
    using that k w'(1,2) wsd_ok_live [OF ok, of t l] fd [of t l] by (auto simp: live_def registered_def split: if_splits)
  show ?thesis
    unfolding wsd_ok_def
  proof (intro conjI allI impI)
    fix t u l m assume "heap w' t = Some l" "heap w' u = Some m" "sk_fd l = sk_fd m"
    then show "t = u"
      using fd [of t l] fd [of u m] wsd_ok_fd [OF ok, of t l u m] by (auto simp: w'(1) split: if_splits)
  next
    fix q assume "pp2sk w' = Some q"
    then show "\<exists>pk. heap w' q = Some pk \<and> encode_frame (sk_proto pk) = Some Pp2_encode_frame
        \<and> decode_frame (sk_proto pk) = Some Pp2_decode_frame"
      using w'(3) p wsd_ok_pp2sk [OF ok, of q] by (cases "q = p") (auto simp: w'(1))
  qed (use live in blast)
qed

lemma wsd_ok_remove:
  assumes ok: "wsd_ok w" and k: "heap w s = Some k"
    and w': "heap w' = (heap w)(s := None)" "epoll w' = (epoll w)(sk_fd k := None)"
      "pp2sk w' = None \<or> pp2sk w' = pp2sk w \<and> pp2sk w \<noteq> Some s"
  shows "wsd_ok w'"
proof -
  have live: "live w' t l" if "heap w' t = Some l" for t l
  proof -
    have t: "heap w t = Some l" "t \<noteq> s"
      using that by (auto simp: w'(1) split: if_splits)
    show ?thesis
      using wsd_ok_live [OF ok t(1)] wsd_ok_fd [OF ok t(1) k t(2)] t by (simp add: live_def registered_def w'(1,2))
  qed
  show ?thesis
    unfolding wsd_ok_def
  proof (intro conjI allI impI)
    fix t u l m assume "heap w' t = Some l" "heap w' u = Some m" "sk_fd l = sk_fd m"
    then have "heap w t = Some l" "heap w u = Some m" "sk_fd l = sk_fd m"
      by (auto simp: w'(1) split: if_splits)
    then show "t = u"
      using wsd_ok_fd [OF ok] by blast
  next
    fix q assume "pp2sk w' = Some q"
    then have q: "pp2sk w = Some q" "q \<noteq> s"
      using w'(3) by auto
    obtain pk where "heap w q = Some pk" "encode_frame (sk_proto pk) = Some Pp2_encode_frame"
      "decode_frame (sk_proto pk) = Some Pp2_decode_frame"
      using wsd_ok_pp2sk [OF ok q(1)] .
    then show "\<exists>pk. heap w' q = Some pk \<and> encode_frame (sk_proto pk) = Some Pp2_encode_frame
        \<and> decode_frame (sk_proto pk) = Some Pp2_decode_frame"
      using q(2) by (simp add: w'(1))
  qed (use live in blast)
qed

lemma table_ok_cong:
  "table_ok w \<Longrightarrow> sk_hash w' = sk_hash w \<Longrightarrow> (\<And>t. hashed w t \<Longrightarrow> heap w' t = heap w t) \<Longrightarrow> table_ok w'"
  unfolding table_ok_def hashed_def by (metis UN_I nth_mem)

lemma child_ok_fresh:
  assumes "child_ok w" "heap w p = None"
  shows "p \<notin> set (sk_list w)" "\<not> hashed w p" "pp2sk w \<noteq> Some p"
proof -
  show "p \<notin> set (sk_list w)"
    using assms unfolding child_ok_def by force
  then show "\<not> hashed w p" "pp2sk w \<noteq> Some p"
    using assms(1) unfolding child_ok_def by blast+
qed

lemma child_ok_add:
  assumes ok: "child_ok w" and p: "heap w p = None"
    and w': "wsd_ok w'" "table_ok w'" "heap w' = (heap w)(p \<mapsto> k)" "sk_list w' = sk_list w @ [p]" "work_list w' = work_list w"
      "pp2sk w' = pp2sk w \<or> pp2sk w = None \<and> pp2sk w' = Some p"
      "\<And>t. hashed w' t \<Longrightarrow> hashed w t \<or> t = p \<and> pp2sk w' \<noteq> Some p" "role_ok w' p k"
  shows "child_ok w'"
proof -
  note fresh = child_ok_fresh [OF ok p]
  have role: "role_ok w' t l" if "t \<in> set (sk_list w)" "heap w t = Some l" "t \<noteq> p" for t l
    using child_ok_role [OF ok that(1,2)] w'(6) that(3) by (auto simp: role_ok_def)
  have mem: "\<exists>l. heap w' t = Some l \<and> role_ok w' t l" if "t \<in> set (sk_list w')" for t
  proof (cases "t = p")
    case False
    then have t: "t \<in> set (sk_list w)"
      using that w'(4) by simp
    then obtain l where l: "heap w t = Some l"
      using ok unfolding child_ok_def by blast
    then show ?thesis
      using role [OF t l False] False by (simp add: w'(3))
  qed (simp add: w'(3,8))
  have hash: "t \<in> set (sk_list w') \<and> pp2sk w' \<noteq> Some t" if "hashed w' t" for t
  proof (cases "hashed w t")
    case True
    then have "t \<in> set (sk_list w)" "pp2sk w \<noteq> Some t"
      using ok unfolding child_ok_def by blast+
    then show ?thesis
      using True fresh(2) w'(4,6) by auto
  qed (use w'(4,7) that in auto)
  have rest: "t \<in> set (sk_list w') \<or> ops_recv (sk_ops l) = None" if l: "heap w' t = Some l" for t l
  proof (cases "t = p")
    case False
    then have "heap w t = Some l"
      using l by (simp add: w'(3))
    then show ?thesis
      using ok w'(4) unfolding child_ok_def by auto
  qed (simp add: w'(4))
  have "\<forall>q. pp2sk w' = Some q \<longrightarrow> q \<in> set (sk_list w')"
    using ok w'(4,6) unfolding child_ok_def by auto
  then show ?thesis
    using w'(1,2,5) child_okD(3,4) [OF ok] fresh(1) mem hash rest
    unfolding child_ok_def w'(4) by auto
qed

lemma child_ok_remove:
  assumes ok: "child_ok w"
    and w': "wsd_ok w'" "table_ok w'" "heap w' = (heap w)(s := None)" "sk_list w' = removeAll s (sk_list w)"
      "distinct (work_list w')" "pp2sk w' = None \<and> pp2sk w = Some s \<or> pp2sk w' = pp2sk w \<and> pp2sk w \<noteq> Some s"
      "\<And>t. hashed w' t \<Longrightarrow> hashed w t \<and> t \<noteq> s"
  shows "child_ok w'"
proof -
  have role: "role_ok w' t l" if "t \<in> set (sk_list w)" "heap w t = Some l" "t \<noteq> s" for t l
    using child_ok_role [OF ok that(1,2)] w'(6) that(3) by (auto simp: role_ok_def)
  have mem: "\<exists>l. heap w' t = Some l \<and> role_ok w' t l" if "t \<in> set (sk_list w')" for t
  proof -
    have t: "t \<in> set (sk_list w)" "t \<noteq> s"
      using that w'(4) by simp_all
    then obtain l where l: "heap w t = Some l"
      using ok unfolding child_ok_def by blast
    then show ?thesis
      using role [OF t(1) l t(2)] t(2) by (simp add: w'(3))
  qed
  have hash: "t \<in> set (sk_list w') \<and> pp2sk w' \<noteq> Some t" if "hashed w' t" for t
  proof -
    have "hashed w t" "t \<noteq> s"
      using w'(7) [OF that] by simp_all
    moreover from this have "t \<in> set (sk_list w)" "pp2sk w \<noteq> Some t"
      using ok unfolding child_ok_def by blast+
    ultimately show ?thesis
      using w'(4,6) by auto
  qed
  have rest: "t \<in> set (sk_list w') \<or> ops_recv (sk_ops l) = None" if l: "heap w' t = Some l" for t l
  proof -
    have "t \<noteq> s" "heap w t = Some l"
      using l by (auto simp: w'(3) split: if_splits)
    then show ?thesis
      using ok w'(4) unfolding child_ok_def by auto
  qed
  have "\<forall>q. pp2sk w' = Some q \<longrightarrow> q \<in> set (sk_list w')"
    using ok w'(4,6) unfolding child_ok_def by auto
  then show ?thesis
    using w'(1,2,5) child_okD(3) [OF ok] mem hash rest
    unfolding child_ok_def w'(4) by (auto simp: distinct_removeAll)
qed

text \<open>Closing.\<close>

lemma other_work_distinct: "returns (other_work w fd ts) (\<lambda>us. set us \<subseteq> set ts \<and> (distinct ts \<longrightarrow> distinct us))"
  by (induction ts) (auto simp: returns_def outcome_simps split: if_splits)

lemma keeps_sk_close:
  assumes ok: "child_ok w" and s: "pp2sk w \<noteq> Some s" and Q: "\<And>w'. child_ok w' \<Longrightarrow> Q (0, w')"
  shows "returns (sk_close w s) Q"
proof (cases "heap w s")
  case (Some k)
  have "Q (0, sk_destroy (close_fd (w1\<lparr>work_list := ts\<rparr>) (sk_fd k)) s)" (is "Q (0, ?w)")
    if w1: "sk_list_del (hash_del w s) s = Ret w1" and ts: "other_work w1 (sk_fd k) (work_list w1) = Ret ts" for w1 ts
  proof (rule Q)
    have e: "w1 = (hash_del w s)\<lparr>sk_list := removeAll s (sk_list w)\<rparr>"
      using w1 by (auto simp: sk_list_del_def hash_del_def split: if_splits)
    have h: "hashed ?w t \<longleftrightarrow> t \<noteq> s \<and> hashed w t" for t
      using table_ok_del(2) [of w s t] by (simp add: e sk_destroy_def close_fd_def hashed_def)
    show "child_ok ?w"
    proof (rule child_ok_remove [OF ok])
      show "wsd_ok ?w"
        using s by (intro wsd_ok_remove [OF child_okD(1) [OF ok] Some]) (simp_all add: e sk_destroy_def close_fd_def hash_del_def)
      show "table_ok ?w"
      proof (rule table_ok_cong [OF table_ok_del(1) [OF child_okD(2) [OF ok]]])
        fix t assume "hashed (hash_del w s) t"
        then have "t \<noteq> s"
          by (simp add: table_ok_del(2))
        then show "heap ?w t = heap (hash_del w s) t"
          by (simp add: e sk_destroy_def close_fd_def hash_del_def)
      qed (simp add: e sk_destroy_def close_fd_def)
      show "distinct (work_list ?w)"
        using returnsD [OF other_work_distinct ts] child_okD(4) [OF ok]
        by (simp add: e sk_destroy_def close_fd_def hash_del_def)
    qed (use s h in \<open>auto simp: e sk_destroy_def close_fd_def hash_del_def\<close>)
  qed
  then show ?thesis
    by (auto simp: sk_close_def Some returns_def outcome_simps)
qed (simp add: sk_close_def deref_def)

lemma keeps_pp2_close:
  assumes ok: "child_ok w" and s: "pp2sk w = Some s" and Q: "\<And>w'. child_ok w' \<Longrightarrow> Q (0, w')"
  shows "returns (pp2_close w s) Q"
proof (cases "heap w s")
  case (Some k)
  have nh: "\<not> hashed w s"
    using ok s unfolding child_ok_def by blast
  have "Q (0, (sk_destroy w1 s)\<lparr>pp2sk := None\<rparr>)" (is "Q (0, ?w)")
    if w1: "sk_list_del (close_fd w (sk_fd k)) s = Ret w1" for w1
  proof (rule Q)
    have e: "w1 = (close_fd w (sk_fd k))\<lparr>sk_list := removeAll s (sk_list w)\<rparr>"
      using w1 by (auto simp: sk_list_del_def close_fd_def split: if_splits)
    have h: "hashed ?w t \<longleftrightarrow> hashed w t" for t
      by (simp add: e sk_destroy_def close_fd_def hashed_def)
    show "child_ok ?w"
    proof (rule child_ok_remove [OF ok])
      show "wsd_ok ?w"
        by (intro wsd_ok_remove [OF child_okD(1) [OF ok] Some]) (simp_all add: e sk_destroy_def close_fd_def)
      show "table_ok ?w"
        using nh by (intro table_ok_cong [OF child_okD(2) [OF ok]]) (auto simp: e sk_destroy_def close_fd_def)
    qed (use s h nh child_okD(4) [OF ok] in \<open>auto simp: e sk_destroy_def close_fd_def\<close>)
  qed
  then show ?thesis
    by (auto simp: pp2_close_def Some returns_def outcome_simps)
qed (simp add: pp2_close_def deref_def)

lemma keeps_call_close [wlp]:
  assumes ok: "child_ok w" and Q: "\<And>w'. child_ok w' \<Longrightarrow> Q (0, w')"
  shows "returns (call_close w s) Q"
proof (cases "heap w s")
  case (Some k)
  show ?thesis
  proof (cases "s \<in> set (sk_list w)")
    case True
    from child_ok_role [OF ok this Some] show ?thesis
      using keeps_sk_close [OF ok, where s = s and Q = Q] keeps_pp2_close [OF ok, where s = s and Q = Q] Q
      by (auto simp: call_close_def Some role_ok_def split: if_splits)
  next
    case False
    then have "sk_close w s = Fault Null_deref" "pp2_close w s = Fault Null_deref"
      using Some by (simp_all add: sk_close_def pp2_close_def sk_list_del_def hash_del_def close_fd_def)
    then show ?thesis
      by (simp add: call_close_def Some split: option.split close_fn.split)
  qed
qed (simp add: call_close_def deref_def)

lemma keeps_must_close [wlp]:
  "child_ok w \<Longrightarrow> (\<And>w'. child_ok w' \<Longrightarrow> Q w') \<Longrightarrow> returns (must_close call_close w s) Q"
  unfolding must_close_def by (intro returns_obind keeps_call_close) auto

text \<open>Opening: \<open>malloc\<close> returns a cell that is not in use.\<close>

definition fresh_cell :: "world \<Rightarrow> ptr option \<Rightarrow> bool" where
  "fresh_cell w c \<longleftrightarrow> (\<forall>p. c = Some p \<longrightarrow> heap w p = None)"

lemma put_fresh_table:
  assumes ok: "child_ok w" and p: "heap w p = None" and w': "heap w' = (heap w)(p \<mapsto> k)" "sk_hash w' = sk_hash w"
  shows "table_ok w'" "hashed w' t = hashed w t"
proof -
  show "hashed w' t = hashed w t"
    using w'(2) by (rule hashed_cong)
  show "table_ok w'"
  proof (rule table_ok_cong [OF child_okD(2) [OF ok] w'(2)])
    fix t assume "hashed w t"
    then have "t \<noteq> p"
      using child_ok_fresh(2) [OF ok p] by blast
    then show "heap w' t = heap w t"
      by (simp add: w'(1))
  qed
qed

text \<open>After an attempt to open the connection to the backend.\<close>

definition opened :: "world \<Rightarrow> int \<Rightarrow> world \<Rightarrow> bool" where
  "opened w rv w' \<longleftrightarrow> child_ok w' \<and> (\<forall>s k. heap w s = Some k \<longrightarrow> heap w' s = Some k)
     \<and> (if rv < 0 then heap w' = heap w else \<exists>p. pp2sk w' = Some p \<and> heap w p = None)"

lemma child_ok_other:
  assumes "child_ok w" "heap w' = heap w" "epoll w' = epoll w" "pp2sk w' = pp2sk w" "sk_hash w' = sk_hash w"
    "sk_list w' = sk_list w" "work_list w' = work_list w" "wsd_cfg w' = wsd_cfg w"
  shows "child_ok w'"
proof -
  have "wsd_ok w'"
    using child_okD(1) [OF assms(1)] assms(2-4) by (simp add: wsd_ok_def live_def registered_def)
  then have "evolves w w'"
    using assms by (simp add: evolves_def same_sockets_def)
  from child_ok_evolves [OF assms(1) this] show ?thesis .
qed

lemma returns_wipe: "returns (f ()) Q \<Longrightarrow> returns (obind (wipe_cell w s) f) Q"
  by (simp add: wipe_cell_def)

lemma keeps_sk_open:
  assumes ok: "child_ok w" and fresh: "fresh_cell w (dial_ptr d)"
    and Q: "\<And>rv w'. opened w rv w' \<Longrightarrow> Q (rv, w')"
  shows "returns (sk_open d w hostname service) Q"
proof -
  have fail: "Q (-1, w\<lparr>wsd_errno := e\<rparr>)" "Q (-1, w\<lparr>sys_errno := e', wsd_errno := e\<rparr>)" for e e'
    using ok child_ok_other [OF ok, of "w\<lparr>sys_errno := e'\<rparr>"] by (auto simp: opened_def intro!: Q)
  have new: "returns (obind (register_for_events (put_sk v p k\<lparr>pp2sk := Some p, sk_list := sk_list w @ [p]\<rparr>) p)
      (\<lambda>(rv, w). obind (guard (rv = 0)) (\<lambda>_. Ret (0, w)))) Q"
    if v: "v = w \<or> v = w\<lparr>sys_errno := e\<rparr>" and p: "heap w p = None" "pp2sk w = None"
      and k: "role_ok ((put_sk v p k)\<lparr>pp2sk := Some p\<rparr>) p k" "skb_wf (sk_sendbuf k)" "skb_wf (sk_recvbuf k)"
        "encode_frame (sk_proto k) = Some Pp2_encode_frame" "decode_frame (sk_proto k) = Some Pp2_decode_frame" for v p k e
  proof -
    have v': "heap v = heap w" "epoll v = epoll w" "sk_list v = sk_list w" "work_list v = work_list w" "sk_hash v = sk_hash w"
      "pp2sk v = pp2sk w" "wsd_cfg v = wsd_cfg w"
      using v by auto
    let ?w = "(put_sk v p k)\<lparr>pp2sk := Some p, sk_list := sk_list w @ [p], epoll := (epoll w)(sk_fd k \<mapsto> sk_events k)\<rparr>"
    have ok': "child_ok ?w" if e: "epoll w (sk_fd k) = None"
    proof (rule child_ok_add [OF ok p(1)])
      show "wsd_ok ?w"
        using k by (intro wsd_ok_add [OF child_okD(1) [OF ok] p(1) e k(2,3)]) (simp_all add: v')
      show "table_ok ?w"
        by (rule put_fresh_table(1) [OF ok p(1)]) (simp_all add: v')
      show "hashed ?w t \<Longrightarrow> hashed w t \<or> t = p \<and> pp2sk ?w \<noteq> Some p" for t
        using put_fresh_table(2) [OF ok p(1), of ?w k t] by (simp add: v')
      show "role_ok ?w p k"
        using k(1) by (simp add: role_ok_def)
    qed (simp_all add: v' p(2))
    have "Q (0, ?w)" if e: "epoll w (sk_fd k) = None"
      using p(1) ok' [OF e] by (intro Q) (auto simp: opened_def v')
    then show ?thesis
      by (simp add: register_for_events_def v')
  qed
  show ?thesis
  proof (cases "dial_ptr d")
    case None
    then show ?thesis
      using fail by (cases "pp2sk w") (simp_all add: sk_open_def)
  next
    case (Some p)
    then have p: "heap w p = None"
      using fresh by (simp add: fresh_cell_def)
    have role: "role_ok ((put_sk v p k)\<lparr>pp2sk := Some p\<rparr>) p k"
      if "sk_ops k = null_ops\<lparr>ops_read := Some Sk_read, ops_write := Some Sk_write, ops_recv := Some Pp2_recv, ops_close := Some Pp2_close\<rparr>" for v k
      using that by (simp add: role_ok_def)
    define v where "v = (case dial_connect d of None \<Rightarrow> w | Some e \<Rightarrow> w\<lparr>sys_errno := e\<rparr>)"
    have v: "v = w \<or> v = w\<lparr>sys_errno := the (dial_connect d)\<rparr>"
      by (cases "dial_connect d") (simp_all add: v_def)
    then have v': "Q (-1, v\<lparr>wsd_errno := e\<rparr>)" "sk_list v = sk_list w" for e
      using fail by auto
    let ?k = "zero_sk\<lparr>sk_sendbuf := zero_skb, sk_recvbuf := zero_skb, sk_hashval := - 1, sk_fd := dial_fd d,
      sk_events := EPOLLIN OR EPOLLPRI OR EPOLLRDHUP,
      sk_ops := null_ops\<lparr>ops_read := Some Sk_read, ops_write := Some Sk_write, ops_recv := Some Pp2_recv, ops_close := Some Pp2_close\<rparr>,
      sk_proto := null_proto\<lparr>decode_frame := Some Pp2_decode_frame, encode_frame := Some Pp2_encode_frame, ping := Some Pp2_nop\<rparr>\<rparr>"
    have add: "returns (obind (register_for_events (put_sk v p ?k\<lparr>pp2sk := Some p, sk_list := sk_list w @ [p]\<rparr>) p)
      (\<lambda>(rv, w). obind (guard (rv = 0)) (\<lambda>_. Ret (0, w)))) Q" if "pp2sk w = None"
      by (rule new [OF v p that role]) simp_all
    show ?thesis
      unfolding sk_open_def Let_def Some option.case v_def [symmetric]
      by (rule returns_obind [OF returns_guard] returns_wipe returns_if returns_bind1
        | (simp add: fail v'; fail) | (cases "dial_mem d"; simp add: sk_init_def v' add; fail))+
  qed
qed

lemma keeps_open_loop:
  assumes "child_ok w" "\<And>i. fresh_cell w (dial_ptr (dials i))" "\<And>r. rv = Some r \<Longrightarrow> r < 0"
  shows "returns (open_loop dials rv n w) (\<lambda>(rv, w'). opened w rv w')"
  using assms
proof (induction n arbitrary: rv w)
  case 0
  then show ?case
    by (auto simp: opened_def split: option.split)
next
  case (Suc n)
  have "returns (obind (sk_open (dials n) w h (cfg_fport (wsd_cfg w))) (\<lambda>(rv, w1).
      if 0 > rv \<and> wsd_errno w1 = WSD_EAI then open_loop dials (Some rv) n (next_host w1) else Ret (rv, w1)))
      (\<lambda>(rv, w'). opened w rv w')" for h
  proof (intro returns_obind keeps_sk_open Suc.prems, unfold prod.case, intro returns_if)
    fix r w1 assume o: "opened w r w1" "0 > r \<and> wsd_errno w1 = WSD_EAI"
    then have w1: "child_ok w1" "heap w1 = heap w"
      by (auto simp: opened_def)
    have nh: "child_ok (next_host w1)" "heap (next_host w1) = heap w"
      using child_ok_other [OF w1(1), of "next_host w1"] w1(2) by (simp_all add: next_host_def Let_def)
    have "returns (open_loop dials (Some r) n (next_host w1)) (\<lambda>(rv, w'). opened (next_host w1) rv w')"
      using Suc.prems(2) o(2) nh by (intro Suc.IH) (simp_all add: fresh_cell_def)
    then show "returns (open_loop dials (Some r) n (next_host w1)) (\<lambda>(rv, w'). opened w rv w')"
      by (rule returns_mono) (auto simp: opened_def nh(2))
  qed simp
  then show ?case
    by simp
qed

lemma keeps_ws_recv:
  assumes ok: "child_ok w" and fresh: "\<And>i. fresh_cell w (dial_ptr (dials i))"
    and k: "heap w s = Some k" "ops_recv (sk_ops k) = Some Ws_recv" "s \<in> set (sk_list w)"
    and Q: "\<And>rv w'. child_ok w' \<Longrightarrow> Q (rv, w')"
  shows "returns (ws_recv dials w s) Q"
proof -
  have role: "role_ok w s k"
    by (rule child_ok_role [OF ok k(3,1)])
  then have client: "pp2sk w \<noteq> Some s" "ws_client k" "decode_frame (sk_proto k) = Some Ws_decode_frame"
    using k(2) by (auto simp: role_ok_def split: if_splits)
  have ready: "decodes w1 s" if "child_ok w1" "heap w1 s = Some k" "pp2sk w1 = Some p" "p \<noteq> s" for w1 p
    using that client child_okD(1) by (auto simp: decodes_def client_ready_def)
  have "returns (if pp2sk w = None then open_loop dials None (unat (cfg_fhostname_num (wsd_cfg w))) w else Ret (0, w))
      (\<lambda>(rv, w1). child_ok w1 \<and> (0 \<le> rv \<longrightarrow> decodes w1 s))"
  proof (cases "pp2sk w")
    case None
    have a: "returns (open_loop dials None n w) (\<lambda>(rv, w1). opened w rv w1)" for n
      by (rule keeps_open_loop [OF ok fresh]) simp_all
    have b: "child_ok w1 \<and> (0 \<le> rv \<longrightarrow> decodes w1 s)" if "opened w rv w1" for rv w1
      using that k(1) by (auto simp: opened_def split: if_splits intro!: ready)
    show ?thesis
      unfolding if_P [OF None] by (rule returns_mono [OF a]) (use b in auto)
  next
    case (Some p)
    then show ?thesis
      using ready [OF ok k(1) Some] client(1) ok by simp
  qed
  note start = returns_then [OF this]
  show ?thesis
    unfolding ws_recv_def
    by (rule returns_obind [OF returns_deref], rule returns_obind [OF returns_guard], rule start) (auto intro!: wlp Q)
qed

lemma keeps_pp2_recv:
  assumes ok: "child_ok w" and s: "pp2sk w = Some s" and Q: "\<And>rv w'. child_ok w' \<Longrightarrow> Q (rv, w')"
  shows "returns (pp2_recv w s) Q"
proof -
  have "decodes w s"
    using ok s by (simp add: decodes_def)
  then show ?thesis
    unfolding pp2_recv_def by (auto intro!: wlp Q)
qed

definition fresh_env :: "world \<Rightarrow> env \<Rightarrow> bool" where
  "fresh_env w env \<longleftrightarrow> (\<forall>s i. fresh_cell w (dial_ptr (env_dials env s i)))"

lemma keeps_call_recv [wlp]:
  assumes ok: "child_ok w" and fresh: "fresh_env w env" and Q: "\<And>rv w'. child_ok w' \<Longrightarrow> Q (rv, w')"
  shows "returns (call_recv env w s) Q"
proof (cases "heap w s")
  case (Some k)
  show ?thesis
  proof (cases "s \<in> set (sk_list w)")
    case True
    from child_ok_role [OF ok this Some] consider
        "pp2sk w = Some s" "ops_recv (sk_ops k) = Some Pp2_recv"
      | "pp2sk w \<noteq> Some s" "ops_recv (sk_ops k) = Some Http_recv"
      | "ops_recv (sk_ops k) = Some Ws_recv"
      by (auto simp: role_ok_def split: if_splits)
    then show ?thesis
    proof cases
      case 1
      then show ?thesis
        using keeps_pp2_recv [OF ok 1(1), where Q = Q] Q 1 by (simp add: call_recv_def Some)
    next
      case 2
      then show ?thesis
        using keeps_http_recv [OF ok 2(1), where Q = Q] Q 2 Some by (simp add: call_recv_def)
    next
      case 3
      have "fresh_cell w (dial_ptr (env_dials env s i))" for i
        using fresh by (simp add: fresh_env_def)
      from keeps_ws_recv [OF ok this Some 3 True, where Q = Q] show ?thesis
        using 3 Q by (simp add: call_recv_def Some)
    qed
  next
    case False
    then have "ops_recv (sk_ops k) = None"
      using ok Some unfolding child_ok_def by blast
    then show ?thesis
      by (simp add: call_recv_def Some)
  qed
qed (simp add: call_recv_def deref_def)

text \<open>Accepting a client.\<close>

lemma keeps_sk_accept:
  assumes ok: "child_ok w" and fresh: "fresh_cell w (in_ptr i)" and Q: "\<And>rv w'. child_ok w' \<Longrightarrow> Q (rv, w')"
  shows "returns (sk_accept i w) Q"
proof -
  have failed: "Q (-1, w\<lparr>wsd_errno := e\<rparr>)" for e
    using ok by (simp add: Q)
  have add: "Q (0, w2\<lparr>sk_list := sk_list w2 @ [p]\<rparr>)"
    if p: "heap w p = None" and e: "epoll w (sk_fd k) = None"
      and h: "hash_add ((put_sk w p k)\<lparr>epoll := (epoll w)(sk_fd k \<mapsto> sk_events k)\<rparr>) p (sk_hashval k) = Ret w2"
      and k: "skb_wf (sk_sendbuf k)" "skb_wf (sk_recvbuf k)" "role_ok w p k" for p k w2
  proof (rule Q)
    let ?v = "(put_sk w p k)\<lparr>epoll := (epoll w)(sk_fd k \<mapsto> sk_events k)\<rparr>" and ?w = "w2\<lparr>sk_list := sk_list w2 @ [p]\<rparr>"
    have v: "table_ok ?v" "\<And>t. hashed ?v t = hashed w t"
      using put_fresh_table [OF ok p, of ?v k] by simp_all
    have "hash_min (sk_hashval k) < HASH_SIZE"
      using h v(1) by (auto simp: hash_add_def hash_bucket_def table_ok_def outcome_simps split: if_splits)
    from table_ok_add [OF v(1) this _ refl, of p] have t: "table_ok w2" "\<And>t. hashed w2 t \<longleftrightarrow> t = p \<or> hashed w t"
      using h v(2) by simp_all
    have w2: "heap w2 = (heap w)(p \<mapsto> k)" "epoll w2 = (epoll w)(sk_fd k \<mapsto> sk_events k)" "pp2sk w2 = pp2sk w"
      "sk_list w2 = sk_list w" "work_list w2 = work_list w"
      using h by (auto simp: hash_add_def outcome_simps)
    show "child_ok ?w"
    proof (rule child_ok_add [OF ok p])
      show "wsd_ok ?w"
        by (rule wsd_ok_add [OF child_okD(1) [OF ok] p e k(1,2)]) (simp_all add: w2)
      show "table_ok ?w"
        using t(1) by (rule table_ok_cong) simp_all
      show "hashed ?w t \<Longrightarrow> hashed w t \<or> t = p \<and> pp2sk ?w \<noteq> Some p" for t
        using t(2) [of t] child_ok_fresh(3) [OF ok p] by (auto simp: hashed_def w2(3))
      show "role_ok ?w p k"
        using k(3) by (simp add: role_ok_def w2(3))
    qed (simp_all add: w2)
  qed
  have enter: "returns (obind (register_for_events (put_sk w p k) p) (\<lambda>(rv, w'). if 0 > rv then Ret (-1, w\<lparr>wsd_errno := WSD_CHECKERRNO\<rparr>)
      else obind (hash_add w' p (sk_hashval k)) (\<lambda>w. Ret (0, w\<lparr>sk_list := sk_list w @ [p]\<rparr>)))) Q"
    if p: "heap w p = None" and k: "skb_wf (sk_sendbuf k)" "skb_wf (sk_recvbuf k)" "role_ok w p k" for p k
    using add [OF p _ _ k] failed by (auto simp: register_for_events_def returns_def outcome_simps)
  show ?thesis
  proof (cases "in_ptr i")
    case (Some p)
    have p: "heap w p = None"
      using fresh Some by (simp add: fresh_cell_def)
    show ?thesis
    proof (cases "in_dst i")
      case dst: (Some dst)
      let ?k0 = "zero_sk\<lparr>sk_src_addr := in_src i, sk_dst_addr := dst\<rparr>"
      show ?thesis
      proof (cases "in_fd i < 0 \<or> \<not> in_mem i")
        case True
        then show ?thesis
          using failed by (auto simp: sk_accept_def Let_def Some dst sk_init_def intro!: returns_wipe)
      next
        case False
        then obtain k where k: "sk_init (in_mem i) ?k0 (in_fd i) (conn_hash (in_src i) (in_nsec i)) = Inr k"
          "sk_ops k = null_ops\<lparr>ops_read := Some Sk_read, ops_write := Some Sk_write\<rparr>" "sk_proto k = null_proto"
          "sk_sendbuf k = zero_skb" "sk_recvbuf k = zero_skb"
          by (simp add: sk_init_def)
        have "role_ok w p (k\<lparr>sk_ops := (sk_ops k)\<lparr>ops_recv := Some Http_recv, ops_close := Some Sk_close\<rparr>,
               sk_proto := (sk_proto k)\<lparr>decode_handshake := Some Ws_decode_handshake\<rparr>\<rparr>)"
          using k(2,3) child_ok_fresh(3) [OF ok p] by (simp add: role_ok_def)
        then show ?thesis
          unfolding sk_accept_def Let_def Some dst option.case k(1) sum.case
          using False by (simp only: not_le if_False de_Morgan_disj not_not) (intro returns_wipe enter p; simp add: k(4,5))
      qed
    qed (simp add: sk_accept_def Let_def Some failed returns_wipe)
  qed (simp add: sk_accept_def Let_def failed)
qed

subsection \<open>Reading, writing and timers\<close>

lemma skb_put_mem_wf: "skb_wf b \<Longrightarrow> returns (skb_put_mem b bs) skb_wf"
  by (auto simp: returns_def intro: skb_put_wf)

lemma keeps_sk_read:
  assumes ok: "child_ok w" and Q: "\<And>rv w'. child_ok w' \<Longrightarrow> Q (rv, w')"
  shows "returns (sk_read io w s) Q"
proof -
  have sys: "Q (-1, w\<lparr>wsd_errno := e, sys_errno := e'\<rparr>)" for e e'
    by (rule Q, rule child_ok_other [of "w\<lparr>wsd_errno := e\<rparr>"]) (simp_all add: ok)
  have put: "child_ok (put_sk w s (k\<lparr>sk_recvbuf := b\<rparr>))" if "heap w s = Some k" "skb_wf b" for k b
    using that child_ok_live [OF ok that(1)] by (intro child_ok_put [OF ok that(1)]) (simp_all add: ident_def)
  show ?thesis
    unfolding sk_read_def Let_def
    by (cases io) (auto simp: ok sys intro!: returns_obind [OF returns_deref] returns_obind [OF returns_guard]
        returns_obind [OF keeps_turn_off] Q put returns_then [OF skb_put_mem_wf] child_ok_live(2) [OF ok])
qed

lemma keeps_sk_write:
  assumes ok: "child_ok w" and Q: "\<And>rv sent w'. child_ok w' \<Longrightarrow> Q (rv, sent, w')"
  shows "returns (sk_write io w s) Q"
proof -
  have sys: "Q (-1, [], w\<lparr>wsd_errno := e, sys_errno := e'\<rparr>)" for e e'
    by (rule Q, rule child_ok_other [of "w\<lparr>wsd_errno := e\<rparr>"]) (simp_all add: ok)
  have put: "Q (0, sent, put_sk w s (k\<lparr>sk_sendbuf := b'\<rparr>))"
    if k: "heap w s = Some k" and b: "skb_get_mem (sk_sendbuf k) n = Ret (sent, b)" "skb_compact b = Ret b'"
      and n: "n \<le> unat (skb_rdsz (sk_sendbuf k))" for k sent b b' n
  proof -
    note wf = child_ok_live [OF ok k]
    have "n \<le> length (pending (sk_sendbuf k))"
      using n length_pending [OF wf(1)] by simp
    then have "skb_wf b"
      using skbq.pull_ok [OF wf(1)] b(1) by fastforce
    then have "skb_wf b'"
      using skbq.compact_RetD b(2) by blast
    then show ?thesis
      using wf by (intro Q child_ok_put [OF ok k]) (simp_all add: ident_def)
  qed
  have off: "Q (-1, [], v\<lparr>wsd_errno := e\<rparr>)" if "turn_off_events w s ev = Ret v" for v ev e
    using returnsD [OF keeps_turn_off [OF ok, where Q = child_ok] that] by (intro Q) simp
  show ?thesis
    unfolding sk_write_def
    by (cases io) (auto simp: sys returns_def outcome_simps intro!: put off split: if_splits)
qed

lemma keeps_call_read: "child_ok w \<Longrightarrow> (\<And>rv w'. child_ok w' \<Longrightarrow> Q (rv, w')) \<Longrightarrow> returns (call_read io w s) Q"
  unfolding call_read_def by (intro wlp) (auto intro: keeps_sk_read split: option.split read_fn.split)

lemma keeps_call_write:
  "child_ok w \<Longrightarrow> (\<And>rv sent w'. child_ok w' \<Longrightarrow> Q (rv, sent, w')) \<Longrightarrow> returns (call_write io w s) Q"
  unfolding call_write_def by (intro wlp) (auto intro: keeps_sk_write split: option.split write_fn.split)

lemma child_ok_work: "child_ok w \<Longrightarrow> distinct ts \<Longrightarrow> child_ok (w\<lparr>work_list := ts\<rparr>)"
  unfolding child_ok_def table_ok_def hashed_def wsd_ok_def live_def registered_def role_ok_def by simp

lemma in_work_found: "in_work w fd ts = Ret b \<Longrightarrow> heap w s = Some k \<Longrightarrow> sk_fd k = fd \<Longrightarrow> s \<in> set ts \<Longrightarrow> b"
  by (induction ts) (auto simp: outcome_simps split: if_splits)

lemma keeps_post_read [wlp]:
  assumes ok: "child_ok w" and Q: "\<And>w'. child_ok w' \<Longrightarrow> Q (0, w')"
  shows "returns (post_read w s) Q"
proof -
  have "child_ok (w\<lparr>work_list := work_list w @ [s]\<rparr>)"
    if "heap w s = Some k" "in_work w (sk_fd k) (work_list w) = Ret False" for k
    using in_work_found [OF that(2,1) refl] child_okD(4) [OF ok] by (intro child_ok_work [OF ok]) auto
  then show ?thesis
    using ok by (auto simp: post_read_def returns_def outcome_simps intro!: Q)
qed

lemma child_ok_work_del: "child_ok w \<Longrightarrow> child_ok (work_del w s)"
  unfolding work_del_def using child_okD(4) by (intro child_ok_work) (auto simp: distinct_removeAll)

lemma keeps_try_recv_one:
  assumes "child_ok w" "fresh_env w env" and Q: "\<And>w'. child_ok w' \<Longrightarrow> Q w'"
  shows "returns (try_recv_one env w s) Q"
  unfolding try_recv_one_def using assms(1,2) by (intro wlp) (auto intro!: wlp Q child_ok_work_del)

lemma keeps_upd_time: "child_ok w \<Longrightarrow> (\<And>w'. child_ok w' \<Longrightarrow> Q w') \<Longrightarrow> returns (ts_last_io_set w s now) Q"
  unfolding ts_last_io_set_def by (rule keeps_upd) (simp_all add: ident_def)

lemma keeps_call_ctl:
  assumes ok: "child_ok w" and Q: "\<And>rv w'. child_ok w' \<Longrightarrow> Q (rv, w')"
  shows "returns (call_ctl f w s m) Q"
proof -
  have send: "returns (ws_send_control op w s m) Q" for op
  proof (cases "heap w s")
    case (Some k)
    show ?thesis
      by (rule returns_mono [OF returns_post [OF ws_send_control_post [OF child_okD(1) [OF ok] Some]]])
        (use child_ok_evolves [OF ok] in \<open>auto simp: output_only_def intro!: Q\<close>)
  qed (simp add: ws_send_control_def deref_def)
  show ?thesis
    using send ok by (auto simp: call_ctl_def ws_ping_def ws_pong_def pp2_nop_def stdin_nop_def intro!: Q
        split: option.split ctl_fn.split)
qed

lemma keeps_call_closing:
  assumes ok: "child_ok w" and Q: "\<And>rv w'. child_ok w' \<Longrightarrow> Q (rv, w')"
  shows "returns (call_closing f w s status m) Q"
proof (cases "heap w s")
  case (Some k)
  have "returns (ws_start_closing_handshake w s status m) Q"
    by (rule returns_mono [OF returns_post [OF ws_start_closing_handshake_post [OF child_okD(1) [OF ok] Some]]])
      (use child_ok_evolves [OF ok] in \<open>auto simp: output_only_def intro!: Q\<close>)
  then show ?thesis
    by (simp add: call_closing_def split: option.split closing_fn.split)
qed (simp add: call_closing_def ws_start_closing_handshake_def deref_def split: option.split closing_fn.split)

lemma keeps_check_timeouts:
  assumes ok: "child_ok w" and Q: "\<And>w'. child_ok w' \<Longrightarrow> Q w'"
  shows "returns (check_timeouts now w s) Q"
proof -
  have ts: "child_ok (put_sk v s (k\<lparr>sk_ts_closing_handshake_start := now\<rparr>))" if "child_ok v" "heap v s = Some k" for v k
    using child_ok_live [OF that] by (intro child_ok_put [OF that]) (simp_all add: ident_def)
  have start: "returns (obind (case f of None \<Rightarrow> Ret (-1, w) | Some f \<Rightarrow> call_closing (Some f) w s WS_1000 False) (\<lambda>(rv, w).
      if 0 > rv then obind (must_close call_close w s) (\<lambda>w. Ret (True, w))
      else obind (upd_sk w s (\<lambda>k. k\<lparr>sk_ts_closing_handshake_start := now\<rparr>)) (\<lambda>w. Ret (False, w)))) (\<lambda>(c, w'). child_ok w')" for f
    by (cases f) (auto intro!: wlp keeps_call_closing ts simp: ok)
  have first: "returns (if b then obind (case f of None \<Rightarrow> Ret (-1, w) | Some f \<Rightarrow> call_closing (Some f) w s WS_1000 False) (\<lambda>(rv, w).
      if 0 > rv then obind (must_close call_close w s) (\<lambda>w. Ret (True, w))
      else obind (upd_sk w s (\<lambda>k. k\<lparr>sk_ts_closing_handshake_start := now\<rparr>)) (\<lambda>w. Ret (False, w)))
      else Ret (False, w)) (\<lambda>(c, w'). child_ok w')" for f b
    using start ok by simp
  have pinged: "returns (obind (call_ctl f v s m) (\<lambda>(rv, w). Ret w)) Q" if "child_ok v" for f v m
    by (rule returns_obind, rule keeps_call_ctl [OF that]) (simp add: Q)
  have late: "returns (obind (check_closing_handshake_timeout k now t) f) Q" if "\<And>b. returns (f b) Q" for k t f
    using that by (rule returns_bind1)
  show ?thesis
    unfolding check_timeouts_def
    by (rule returns_obind [OF returns_deref], rule returns_then [OF first])
      (auto intro!: pinged late returns_obind [OF returns_deref] keeps_must_close Q)
qed

subsection \<open>Events\<close>

lemma keeps_check_errno: "child_ok w \<Longrightarrow> check_errno w = (c, w') \<Longrightarrow> child_ok w'"
  by (auto simp: check_errno_def next_host_def Let_def split: if_splits intro!: child_ok_other [of w])

lemma keeps_on_write:
  assumes ok: "child_ok w" and Q: "\<And>rv sent w'. child_ok w' \<Longrightarrow> Q (rv, sent, w')"
  shows "returns (on_write call_write call_close io now w s) Q"
proof -
  have close: "returns (obind (must_close call_close v s) (\<lambda>w. Ret (rv, sent, w))) Q" if "child_ok v" for v sent and rv :: int
    using that by (auto intro!: returns_obind [OF keeps_must_close] Q)
  show ?thesis
    unfolding on_write_def
    by (rule returns_obind, rule keeps_call_write [OF ok])
      (auto intro!: returns_obind [OF keeps_upd_time] returns_obind [OF returns_deref] close Q)
qed

lemma keeps_on_read:
  assumes ok: "child_ok w" and Q: "\<And>rv w'. child_ok w' \<Longrightarrow> Q (rv, w')"
  shows "returns (on_read call_read call_close post_read io now w s) Q"
proof -
  have close: "returns (obind (must_close call_close v s) (\<lambda>w. Ret (rv, w))) Q" if "child_ok v" for v and rv :: int
    using that by (auto intro!: returns_obind [OF keeps_must_close] Q)
  have retry: "returns (let (c, w) = (if wsd_errno v = WSD_CHECKERRNO then check_errno v else (-1, v)) in
       if c = 0 then
         obind (upd_sk w s (\<lambda>k. k\<lparr>sk_retries := sk_retries k + 1\<rparr>)) (\<lambda>w.
         obind (deref w s) (\<lambda>k.
         if sk_retries k < cfg_fhostname_num (wsd_cfg w) then Ret (0, w)
         else obind (must_close call_close w s) (\<lambda>w. Ret (rv, w))))
       else obind (must_close call_close w s) (\<lambda>w. Ret (rv, w))) Q" if v: "child_ok v" for v and rv :: int
  proof -
    obtain c v' where c: "(if wsd_errno v = WSD_CHECKERRNO then check_errno v else (-1, v)) = (c, v')"
      by fastforce
    then have v': "child_ok v'"
      using v keeps_check_errno by (auto split: if_splits)
    have "returns (obind (upd_sk v' s (\<lambda>k. k\<lparr>sk_retries := sk_retries k + 1\<rparr>)) (\<lambda>w.
         obind (deref w s) (\<lambda>k. if sk_retries k < cfg_fhostname_num (wsd_cfg w) then Ret (0, w)
         else obind (must_close call_close w s) (\<lambda>w. Ret (rv, w))))) Q"
      by (rule returns_obind, rule keeps_upd [OF v']) (auto simp: ident_def intro!: returns_obind [OF returns_deref] close Q)
    then show ?thesis
      unfolding c Let_def prod.case using close [OF v'] by simp
  qed
  have rest: "returns (obind (post_read v s) (\<lambda>(rv, w).
       if 0 > rv \<and> wsd_errno w \<noteq> WSD_EAGAIN \<and> wsd_errno w \<noteq> WSD_EINPUT
       then obind (must_close call_close w s) (\<lambda>w. Ret (rv, w))
       else obind (deref w s) (\<lambda>k.
         if sk_close_flag k then obind (must_close call_close w s) (\<lambda>w. Ret (rv, w)) else Ret (rv, w)))) Q"
    if v: "child_ok v" for v
    by (rule returns_obind, rule keeps_post_read [OF v]) (auto intro!: returns_obind [OF returns_deref] close Q)
  show ?thesis
    unfolding on_read_def
    by (rule returns_obind [OF returns_deref], rule returns_obind [OF returns_guard], rule returns_obind [OF returns_guard],
        rule returns_obind, rule keeps_call_read [OF ok])
      (simp only: prod.case, rule returns_obind, erule keeps_upd_time, intro returns_if retry rest)
qed

lemma keeps_child_event:
  assumes ok: "child_ok w" and Q: "\<And>rv sent w'. child_ok w' \<Longrightarrow> Q (rv, sent, w')"
  shows "returns (child_event now ev w) Q"
  unfolding child_event_def on_epoll_event_def Let_def
  by (rule returns_obind [OF returns_deref], rule returns_obind [OF returns_guard])
    (auto intro!: returns_obind [OF keeps_on_read [OF ok]] keeps_on_write [OF ok] returns_obind [OF keeps_must_close [OF ok]] Q ok)

subsection \<open>The state machine\<close>

text \<open>
  One step of the child: a connection is accepted, an event is handled, a socket of the work
  list is served, the timers of a socket are looked at, or SIGTERM arrives. What a step gets
  from outside is arbitrary, except that \<open>malloc\<close> does not return a cell that is in use. It may
  return one that was freed; if that is still on the work list, accepting and opening are faults
  (\<open>wipe_cell\<close>) and there is no such step.
\<close>

inductive child_step :: "world \<Rightarrow> world \<Rightarrow> bool" where
  accept: "fresh_cell w (in_ptr (ev_incoming ev)) \<Longrightarrow> call_accept ev w = Ret (rv, w') \<Longrightarrow> child_step w w'"
| event: "child_event now ev w = Ret (rv, sent, w') \<Longrightarrow> child_step w w'"
| serve: "s \<in> set (work_list w) \<Longrightarrow> fresh_env w env \<Longrightarrow> try_recv_one env w s = Ret w' \<Longrightarrow> child_step w w'"
| timer: "s \<in> set (sk_list w) \<Longrightarrow> check_timeouts now w s = Ret w' \<Longrightarrow> child_step w w'"
| sigterm: "child_step w (w\<lparr>wsd_done := True\<rparr>)"

inductive child_reachable :: "wsd_config \<Rightarrow> world \<Rightarrow> bool" for cfg where
  init: "child_init lsk mem_ok cfg = Ret (0, w) \<Longrightarrow> child_reachable cfg w"
| step: "child_reachable cfg w \<Longrightarrow> child_step w w' \<Longrightarrow> child_reachable cfg w'"

lemma child_step_ok: "child_step w w' \<Longrightarrow> child_ok w \<Longrightarrow> child_ok w'"
proof (induction rule: child_step.induct)
  case (accept w ev rv w')
  have "sk_accept (ev_incoming ev) w = Ret (rv, w')"
    using accept.hyps(2) by (auto simp: call_accept_def outcome_simps split: option.splits) (metis (full_types) accept_fn.exhaust accept_fn.case)
  from returnsD [OF keeps_sk_accept [OF accept.prems accept.hyps(1), of "\<lambda>(rv, w'). child_ok w'"] this] show ?case
    by simp
next
  case (event now ev w rv sent w')
  from returnsD [OF keeps_child_event [OF event.prems, of "\<lambda>(rv, sent, w'). child_ok w'"] event.hyps] show ?case
    by simp
next
  case (serve s w env w')
  from returnsD [OF keeps_try_recv_one [OF serve.prems serve.hyps(2), of child_ok] serve.hyps(3)] show ?case .
next
  case (timer s w now w')
  from returnsD [OF keeps_check_timeouts [OF timer.prems, of child_ok] timer.hyps(2)] show ?case .
next
  case (sigterm w)
  then show ?case
    by (rule child_ok_other) simp_all
qed

lemma child_init_ok: "child_init lsk mem_ok cfg = Ret (0, w) \<Longrightarrow> child_ok w"
  by (auto simp: child_init_def sk_init_def register_for_events_def outcome_simps hash_init_def init_world_def Let_def
      child_ok_def wsd_ok_def live_def registered_def table_ok_def hashed_def HASH_SIZE_def put_sk_def zero_sk_def null_ops_def
      split: option.splits if_splits)

lemma child_reachable_inv: "child_reachable cfg w \<Longrightarrow> child_ok w"
  by (induction rule: child_reachable.induct) (auto intro: child_init_ok child_step_ok)

text \<open>
  C1: In every state the child can reach, by accepting, reading, writing, serving, closing and
  timing out in any order and on any input, the data structures agree: every allocated socket
  has two well-formed buffers and is registered with the events it records, no two sockets
  share a descriptor, the socket list has no duplicates and lists exactly the sockets that are
  served, the hash table holds only listed clients, each in the bucket of its hash, the
  backend connection is listed and not in the table, and no socket is twice in the work list.
\<close>

theorem child_reachable_ok:
  assumes "child_reachable cfg w"
  shows "wsd_ok w \<and> table_ok w \<and> distinct (sk_list w) \<and> distinct (work_list w)
    \<and> (\<forall>s. s \<in> set (sk_list w) \<longrightarrow> heap w s \<noteq> None)
    \<and> (\<forall>s k. heap w s = Some k \<longrightarrow> s \<notin> set (sk_list w) \<longrightarrow> ops_recv (sk_ops k) = None)
    \<and> (\<forall>s. hashed w s \<longrightarrow> s \<in> set (sk_list w) \<and> pp2sk w \<noteq> Some s)
    \<and> (\<forall>p. pp2sk w = Some p \<longrightarrow> p \<in> set (sk_list w))"
  using child_reachable_inv [OF assms] unfolding child_ok_def by blast

definition demo_incoming :: incoming where
  "demo_incoming = \<lparr>in_ptr = Some 1, in_fd = 7, in_src = \<lparr>sin_addr = 0x0100007f, sin_port = 0x901f\<rparr>,
     in_dst = Some \<lparr>sin_addr = 0x0100007f, sin_port = 0x5000\<rparr>, in_mem = True, in_nsec = 5\<rparr>"

definition demo_listening :: world where
  "demo_listening = (init_world default_cfg)\<lparr>sk_hash := replicate HASH_SIZE [],
     heap := [9 \<mapsto> zero_sk\<lparr>sk_fd := 3, sk_events := EPOLLIN,
       sk_ops := null_ops\<lparr>ops_read := Some Sk_read, ops_write := Some Sk_write, ops_accept := Some Sk_accept,
         ops_close := Some Sk_close\<rparr>\<rparr>], epoll := [3 \<mapsto> EPOLLIN]\<rparr>"

lemma demo_init: "child_init (Some 9) True default_cfg = Ret (0, demo_listening)"
  by (simp add: child_init_def sk_init_def register_for_events_def hash_init_def init_world_def demo_listening_def put_sk_def
      zero_sk_def null_ops_def default_cfg_def Let_def)

lemma demo_hash: "hash_min (conn_hash (in_src demo_incoming) 5) < HASH_SIZE"
  by code_simp

text \<open>What else holds of the state in which the demo client has just been accepted.\<close>

definition demo_fresh :: "world \<Rightarrow> sk \<Rightarrow> bool" where
  "demo_fresh w k \<longleftrightarrow> sk_fd k = 7 \<and> \<not> sk_close_on_write k \<and> \<not> sk_close_flag k \<and> sk_recvbuf k = zero_skb \<and> sk_sendbuf k = zero_skb
     \<and> work_list w = [] \<and> wsd_cfg w = default_cfg \<and> heap w 2 = None \<and> epoll w 8 = None \<and> host_num w = 0"

lemma demo_accept:
  "\<exists>w k. sk_accept demo_incoming demo_listening = Ret (0, w) \<and> sk_list w = [1] \<and> heap w 1 = Some k
    \<and> ops_recv (sk_ops k) = Some Http_recv \<and> pp2sk w = None \<and> demo_fresh w k"
proof -
  have i: "in_ptr demo_incoming = Some 1" "in_fd demo_incoming = 7" "in_mem demo_incoming" "in_nsec demo_incoming = 5"
    "in_dst demo_incoming = Some \<lparr>sin_addr = 0x0100007f, sin_port = 0x5000\<rparr>"
    by (simp_all add: demo_incoming_def)
  have l: "epoll demo_listening 7 = None" "sk_hash demo_listening = replicate HASH_SIZE []"
    "sk_list demo_listening = []" "pp2sk demo_listening = None" "work_list demo_listening = []"
    "wsd_cfg demo_listening = default_cfg" "heap demo_listening 2 = None" "epoll demo_listening 8 = None" "host_num demo_listening = 0"
    by (simp_all add: demo_listening_def init_world_def)
  show ?thesis
    using demo_hash by (simp add: sk_accept_def wipe_cell_def i sk_init_def register_for_events_def l hash_add_def hash_bucket_def demo_fresh_def zero_sk_def)
qed

lemma demo_reachable:
  "\<exists>w k. child_reachable default_cfg w \<and> sk_list w = [1] \<and> heap w 1 = Some k \<and> ops_recv (sk_ops k) = Some Http_recv \<and> pp2sk w = None
    \<and> demo_fresh w k"
proof -
  let ?ev = "\<lparr>ev_events = EPOLLIN, ev_sk = 9, ev_read = Rd_bytes [], ev_write = Wr_accept 0, ev_incoming = demo_incoming\<rparr>"
  obtain w k where w: "sk_accept demo_incoming demo_listening = Ret (0, w)" "sk_list w = [1]" "heap w 1 = Some k"
    "ops_recv (sk_ops k) = Some Http_recv" "pp2sk w = None" "demo_fresh w k"
    using demo_accept by blast
  have "call_accept ?ev demo_listening = Ret (0, w)"
    using w(1) by (simp add: call_accept_def demo_listening_def)
  moreover have "fresh_cell demo_listening (in_ptr (ev_incoming ?ev))"
    by (simp add: fresh_cell_def demo_incoming_def demo_listening_def)
  ultimately have "child_step demo_listening w"
    by (intro child_step.accept)
  then show ?thesis
    using child_reachable.step [OF child_reachable.init [OF demo_init]] w(2-6) by blast
qed

theorem child_reachable_ok_witness:
  "\<exists>w. child_reachable default_cfg w \<and> sk_list w = [1] \<and> table_ok w \<and> heap w 1 \<noteq> None"
proof -
  obtain w where w: "child_reachable default_cfg w" "sk_list w = [1]"
    using demo_reachable by blast
  from child_reachable_ok [OF w(1)] w show ?thesis by auto
qed

subsection \<open>Well-typed handler tables\<close>

text \<open>
  C13: The handlers of every socket in the socket list fit its role, in every reachable state:
  reading and writing go to \<open>sk_read\<close> and \<open>sk_write\<close>, the backend connection is received by
  \<open>pp2_recv\<close>, decoded by \<open>pp2_decode_frame\<close> and closed by \<open>pp2_close\<close>, a client is received by
  \<open>http_recv\<close> before and \<open>ws_recv\<close> and \<open>ws_decode_frame\<close> after its upgrade and closed by
  \<open>sk_close\<close>; a client in websocket mode has its protocol table filled, one that is still in
  HTTP mode has a decoder for its handshake and nothing else. So the calls of these five
  handlers for a socket of the list are never calls through a null or a wrong pointer. Two calls
  are outside of this: the timer pings a client in HTTP mode through the null pointer in
  its table (\<open>ping_before_upgrade_faults\<close>), and the work list may name a freed backend connection
  that is in no socket list any more (theory Session).
\<close>

theorem handler_tables_fit:
  assumes "child_reachable cfg w" "s \<in> set (sk_list w)"
  shows "\<exists>k. heap w s = Some k \<and> call_read rd w s = sk_read rd w s \<and> call_write wr w s = sk_write wr w s
    \<and> (if pp2sk w = Some s
       then call_recv env w s = pp2_recv w s \<and> call_close w s = pp2_close w s
         \<and> call_decode_frame w s = pp2_decode_frame w s
       else call_close w s = sk_close w s
         \<and> (call_recv env w s = http_recv (env_digest env) w s \<and> sk_proto k = null_proto\<lparr>decode_handshake := Some Ws_decode_handshake\<rparr>
            \<or> call_recv env w s = ws_recv (env_dials env s) w s \<and> call_decode_frame w s = ws_decode_frame w s
              \<and> ws_client k \<and> encode_frame (sk_proto k) = Some Ws_encode_frame \<and> ping (sk_proto k) = Some Ws_ping))"
proof -
  note ok = child_reachable_inv [OF assms(1)]
  obtain k where k: "heap w s = Some k" "role_ok w s k"
    using ok assms(2) unfolding child_ok_def by blast
  have "decode_frame (sk_proto k) = Some Pp2_decode_frame" if "pp2sk w = Some s"
    using wsd_ok_pp2sk [OF child_okD(1) [OF ok] that] k(1) by auto
  then show ?thesis
    using k by (intro exI [of _ k])
      (auto simp: role_ok_def call_read_def call_write_def call_recv_def call_close_def call_decode_frame_def)
qed

lemma ping_before_upgrade_faults:
  assumes "child_reachable cfg w" "s \<in> set (sk_list w)" and k: "heap w s = Some k" "ops_recv (sk_ops k) = Some Http_recv"
    and timer: "cfg_idle_timeout (wsd_cfg w) = -1" "0 < cfg_closing_handshake_timeout (wsd_cfg w)" "\<not> sk_closing k"
      "check_timeout k now (cfg_ping_interval (wsd_cfg w))"
  shows "check_timeouts now w s = Fault Null_call"
proof -
  have "role_ok w s k"
    by (rule child_ok_role [OF child_reachable_inv [OF assms(1)] assms(2) k(1)])
  then have "ping (sk_proto k) = None"
    using k(2) by (auto simp: role_ok_def null_proto_def split: if_splits)
  then show ?thesis
    using k(1) timer by (simp add: check_timeouts_def check_closing_handshake_timeout_def call_ctl_def)
qed

theorem handler_tables_fit_witness:
  "\<exists>w. child_reachable default_cfg w \<and> call_close w 1 = sk_close w 1"
proof -
  obtain w where w: "child_reachable default_cfg w" "sk_list w = [1]" "pp2sk w = None"
    using demo_reachable by blast
  from handler_tables_fit [OF w(1), of 1] w show ?thesis by auto
qed

subsection \<open>Receiving from a client is safe\<close>

text \<open>A client in websocket mode next to an open backend connection.\<close>

definition serving :: "world \<Rightarrow> ptr \<Rightarrow> bool" where
  "serving w s \<longleftrightarrow> decodes w s \<and> pp2sk w \<noteq> Some s"

lemma serving_evolves: "serving w s \<Longrightarrow> evolves w w' \<Longrightarrow> serving w' s"
  using decodes_evolves evolvesD(2) by (auto simp: serving_def)

lemma serving_cells:
  assumes "serving w s"
  obtains k p pk where "heap w s = Some k" "decode_frame (sk_proto k) = Some Ws_decode_frame" "client_ready w s"
    "pp2sk w = Some p" "heap w p = Some pk" "wsd_ok w"
proof -
  have ready: "client_ready w s"
    using assms by (auto simp: serving_def decodes_def)
  then obtain p where p: "pp2sk w = Some p" "wsd_ok w"
    by (auto simp: client_ready_def)
  obtain pk where "heap w p = Some pk"
    using wsd_ok_pp2sk [OF p(2,1)] .
  then show thesis
    using that ready p assms by (auto simp: serving_def decodes_def)
qed

lemma serving_frame:
  assumes "serving w s"
  shows "post (call_decode_frame w s) (\<lambda>(rv, w'). serving w' s \<and> (rv = 0 \<longrightarrow> length (inbuf w' s) < length (inbuf w s)))"
proof -
  obtain k where k: "heap w s = Some k" "decode_frame (sk_proto k) = Some Ws_decode_frame" "client_ready w s"
    using serving_cells [OF assms] .
  have "post (ws_decode_frame w s) (\<lambda>(rv, w'). serving w' s \<and> (rv = 0 \<longrightarrow> length (inbuf w' s) < length (inbuf w s)))"
    by (rule post_mono [OF ws_decode_frame_post [OF k(3)]]) (use serving_evolves [OF assms] in auto)
  then show ?thesis
    using k by (simp add: call_decode_frame_def)
qed

interpretation serving_decoder: frame_decoder call_decode_frame serving
  using serving_frame post_RetD by unfold_locales fastforce+

lemma serving_run_frames:
  assumes "serving w s"
  shows "post (run_frames w s) (\<lambda>(rv, m, w'). serving w' s)"
proof -
  obtain r where r: "decode_frames call_decode_frame 0 w s = Some r"
    "\<forall>rv m w'. r = Ret (rv, m, w') \<longrightarrow> serving w' s \<and> rv \<noteq> 0 \<and> 0 \<le> m \<and> m - 0 \<le> length (inbuf w s)"
    using serving_decoder.loop_ends [OF assms, of 0] by blast
  have "r \<noteq> Fault e" for e
    using serving_decoder.loop_safe [OF assms post_no_fault [OF serving_frame], of 0 e] r(1) by auto
  then show ?thesis
    using r by (cases r) (auto simp: run_frames_def)
qed

lemma serving_events:
  assumes "serving w s" "heap w t \<noteq> None" "\<And>w'. serving w' s \<Longrightarrow> Q w'"
  shows "post (ensure_events w t ev) Q" "post (turn_on_events w t ev) Q" "post (turn_off_events w t ev) Q"
proof -
  obtain k where k: "heap w t = Some k" using assms(2) by blast
  have ok: "wsd_ok w"
    using serving_cells [OF assms(1)] by blast
  have Q: "Q w'" if "output_only w w'" for w'
    using that serving_evolves [OF assms(1)] by (auto simp: output_only_def intro: assms(3))
  show "post (ensure_events w t ev) Q" "post (turn_on_events w t ev) Q" "post (turn_off_events w t ev) Q"
    by (rule post_mono [OF post_ensure [OF ok k] Q] post_mono [OF post_turn_on [OF ok k] Q]
        post_mono [OF post_turn_off [OF ok k] Q]; assumption)+
qed

lemma serving_deref: "serving w s \<Longrightarrow> (\<And>k. heap w s = Some k \<Longrightarrow> Q k) \<Longrightarrow> post (deref w s) Q"
  by (elim serving_cells) simp

lemma ws_recv_serving:
  assumes "serving w s"
  shows "post (ws_recv dials w s) (\<lambda>(rv, w'). serving w' s)"
proof -
  obtain p where p: "pp2sk w = Some p" using serving_cells [OF assms] by blast
  have alloc: "heap v s \<noteq> None" if "serving v s" for v
    using serving_cells [OF that] by blast
  have finish: "post (obind (deref v s) (\<lambda>k.
      obind (if sk_close_flag k \<or> sk_close_on_write k then turn_off_events v s EPOLLIN else Ret v) (\<lambda>w.
      obind (deref w s) (\<lambda>k. obind (if sk_close_on_write k then ensure_events w s EPOLLOUT else Ret w) (\<lambda>w.
      Ret (rv, w)))))) (\<lambda>(rv, w'). serving w' s)" if "serving v s" for v and rv :: int
    using that by (auto intro!: vcg(1) serving_deref serving_events post_if alloc)
  have middle: "post (obind (deref_global (pp2sk v)) (\<lambda>p. obind (deref v p) (\<lambda>pk.
      obind (if 0 < skb_rdsz (sk_sendbuf pk) then ensure_events v p EPOLLOUT else Ret v) (\<lambda>w.
      obind (deref w s) (\<lambda>k. if sk_events k AND EPOLLIN = 0 \<and> sk_close_on_write k then turn_on_events w s EPOLLIN else Ret w)))))
      (\<lambda>w'. serving w' s)" if v: "serving v s" for v
  proof -
    obtain q qk where "pp2sk v = Some q" "heap v q = Some qk" using serving_cells [OF v] by blast
    then show ?thesis
      using v by (auto intro!: vcg(1) serving_deref serving_events post_if alloc)
  qed
  show ?thesis
    unfolding ws_recv_def
    by (rule post_obind, rule serving_deref [OF assms], rule post_obind, rule post_guard,
        simp only: p option.distinct if_False obind.simps prod.case, simp only: less_irrefl if_False,
        rule post_obind, rule post_mono [OF serving_run_frames [OF assms]], clarify,
        rule post_obind, rule post_mono [of _ "\<lambda>w. serving w s"], rule post_if, simp, erule middle, erule finish)
qed

text \<open>
  C12: In every reachable state with an open backend connection, receiving from a client in
  websocket mode is safe on every input: \<open>ws_recv\<close> reads and writes inside the buffers, calls no
  missing handler, ends, and leaves a state in which it can be called again.
\<close>

theorem ws_recv_safe:
  assumes "child_reachable cfg w" "heap w s = Some k" "ops_recv (sk_ops k) = Some Ws_recv" "pp2sk w \<noteq> None"
  shows "ws_recv dials w s \<noteq> Fault e
    \<and> (\<forall>rv w'. ws_recv dials w s = Ret (rv, w') \<longrightarrow> child_ok w' \<and> (\<exists>k'. heap w' s = Some k') \<and> pp2sk w' \<noteq> None)"
proof -
  note ok = child_reachable_inv [OF assms(1)]
  have mem: "s \<in> set (sk_list w)"
    using ok assms(2,3) unfolding child_ok_def by fastforce
  have "role_ok w s k"
    by (rule child_ok_role [OF ok mem assms(2)])
  then have "serving w s"
    using ok assms child_okD(1) [OF ok]
    by (auto simp: serving_def decodes_def client_ready_def role_ok_def split: if_splits)
  note p = ws_recv_serving [OF this, of dials]
  have "child_ok w' \<and> (\<exists>k'. heap w' s = Some k') \<and> pp2sk w' \<noteq> None" if "serving w' s" for w'
    using that serving_cells [OF that] by (auto simp: serving_def decodes_def)
  then show ?thesis
    using post_no_fault [OF p] post_RetD [OF p] by fastforce
qed

text \<open>
  C14: The receive loop on the backend connection ends in every reachable state, after at most as
  many frames as there are bytes, whatever the backend sends.
\<close>

theorem backend_loop_terminates:
  assumes "child_reachable cfg w" "pp2sk w = Some p"
  shows "\<exists>r. decode_frames call_decode_frame 0 w p = Some r
    \<and> (\<forall>rv frames w'. r = Ret (rv, frames, w') \<longrightarrow> rv \<noteq> 0 \<and> frames \<le> length (inbuf w p) \<and> child_ok w')"
proof -
  have "decodes w p"
    using child_reachable_inv [OF assms(1)] assms(2) by (simp add: decodes_def)
  from child_decoder.loop_ends [OF this, of 0] show ?thesis
    by (auto simp: decodes_def)
qed

end
