(* ===== verification/Session.thy ===== *)
theory Session
  imports Steps
begin

text \<open>
  Sessions: what the child does with one client over several rounds of its event loop, from the
  bytes that arrive to the bytes that leave, composed from the components' lemmas.
\<close>

subsection \<open>Bytes arrive\<close>

definition read_event :: "ptr \<Rightarrow> u8 list \<Rightarrow> event" where
  "read_event s bs = \<lparr>ev_events = EPOLLIN, ev_sk = s, ev_read = Rd_bytes bs, ev_write = Wr_accept 0,
     ev_incoming = \<lparr>in_ptr = None, in_fd = -1, in_src = \<lparr>sin_addr = 0, sin_port = 0\<rparr>, in_dst = None, in_mem = False, in_nsec = 0\<rparr>\<rparr>"

lemma read_event_arrives:
  assumes ok: "child_ok w" and k: "heap w s = Some k" "s \<in> set (sk_list w)" "0 \<le> sk_fd k"
      "\<not> sk_close_on_write k" "\<not> sk_close_flag k"
    and bs: "bs \<noteq> []" "length bs \<le> room (sk_recvbuf k)" and work: "work_list w = []"
  shows "\<exists>w' b. child_event now (read_event s bs) w = Ret (0, [], w')
    \<and> heap w' = (heap w)(s \<mapsto> k\<lparr>sk_recvbuf := b, sk_ts_last_io := now\<rparr>) \<and> skb_wf b
    \<and> pending b = pending (sk_recvbuf k) @ bs \<and> work_list w' = [s]
    \<and> sk_list w' = sk_list w \<and> pp2sk w' = pp2sk w \<and> wsd_cfg w' = wsd_cfg w \<and> epoll w' = epoll w \<and> host_num w' = host_num w"
proof -
  have room: "0 < room (sk_recvbuf k)"
    using bs by (cases bs) auto
  obtain b where b: "sk_read (Rd_bytes bs) w s = Ret (0, put_sk w s (k\<lparr>sk_recvbuf := b\<rparr>))" "skb_wf b"
    "pending b = pending (sk_recvbuf k) @ bs"
    using sk_read_takes [OF k(1,3) child_ok_live(2) [OF ok k(1)] room bs(1)] bs(2) by auto
  have "ops_read (sk_ops k) = Some Sk_read"
    using child_ok_role [OF ok k(2,1)] by (simp add: role_ok_def)
  then have read: "call_read (Rd_bytes bs) w s = Ret (0, put_sk w s (k\<lparr>sk_recvbuf := b\<rparr>))"
    using k(1) b(1) by (simp add: call_read_def)
  have in_mask: "EPOLLIN AND EPOLLIN \<noteq> 0"
    by (simp add: EPOLLIN_def)
  show ?thesis
    using b(2,3) k work in_mask
    by (simp add: child_event_def on_epoll_event_def read_event_def on_read_def read ts_last_io_set_def post_read_def)
      (intro exI [of _ b] conjI; (rule refl | assumption | simp))
qed

subsection \<open>The upgrade\<close>

lemma try_recv_single:
  "work_list w = [s] \<Longrightarrow> try_recv env w = try_recv_one env w s"
  by (cases "try_recv_one env w s") (simp_all add: try_recv_def)

lemma upgrade_session_run:
  assumes ok: "child_ok w" and k: "heap w s = Some k" "s \<in> set (sk_list w)" "ops_recv (sk_ops k) = Some Http_recv" "0 \<le> sk_fd k"
      "\<not> sk_close_on_write k" "\<not> sk_close_flag k" "pending (sk_recvbuf k) = []" "work_list w = []"
    and req: "length (request_text targ fs) \<le> room (sk_recvbuf k)" "legal_target targ" "\<forall>nv \<in> set fs. legal_field nv"
    and h: "upgrade_header (add_fields fs Map.empty) key proto"
    and accepted: "\<forall>p. cfg_sec_ws_proto (wsd_cfg w) = Some p \<longrightarrow> proto = bytes p"
    and digest: "length (env_digest env (key @ WS_GUID)) = 28"
    and room: "length (handshake_answer (env_digest env) key proto) < room (sk_sendbuf k)"
  shows "\<exists>w1 w2 k2. child_event now (read_event s (request_text targ fs)) w = Ret (0, [], w1) \<and> try_recv env w1 = Ret w2
    \<and> heap w2 s = Some k2 \<and> call_recv env w2 s = ws_recv (env_dials env s) w2 s
    \<and> pending (sk_sendbuf k2) = pending (sk_sendbuf k) @ handshake_answer (env_digest env) key proto
    \<and> sk_events k2 = sk_events k OR EPOLLOUT \<and> pending (sk_recvbuf k2) = []
    \<and> work_list w2 = [] \<and> sk_list w2 = sk_list w \<and> pp2sk w2 = pp2sk w \<and> wsd_cfg w2 = wsd_cfg w
    \<and> ops_recv (sk_ops k2) = Some Ws_recv \<and> sk_fd k2 = sk_fd k \<and> \<not> sk_close_on_write k2 \<and> \<not> sk_close_flag k2
    \<and> work_list w1 = [s] \<and> heap w2 = (heap w)(s \<mapsto> k2) \<and> epoll w2 = (epoll w)(sk_fd k \<mapsto> sk_events k2)
    \<and> room (sk_recvbuf k2) = 1048576 \<and> host_num w2 = host_num w"
proof -
  have ne: "request_text targ fs \<noteq> []"
    by (simp add: request_text_def)
  obtain w1 b where w1: "child_event now (read_event s (request_text targ fs)) w = Ret (0, [], w1)"
    "heap w1 = (heap w)(s \<mapsto> k\<lparr>sk_recvbuf := b, sk_ts_last_io := now\<rparr>)" "skb_wf b" "pending b = request_text targ fs"
    "work_list w1 = [s]" "sk_list w1 = sk_list w" "pp2sk w1 = pp2sk w" "wsd_cfg w1 = wsd_cfg w"
    "epoll w1 = epoll w" "host_num w1 = host_num w"
    using read_event_arrives [OF ok k(1,2,4-6) ne req(1) k(8), of now] k(7) by auto
  have ok1: "child_ok w1"
    using returnsD [OF keeps_child_event [OF ok, where Q = "\<lambda>(rv, sent, w'). child_ok w'"] w1(1)] by simp
  let ?k1 = "k\<lparr>sk_recvbuf := b, sk_ts_last_io := now\<rparr>"
  have k1: "heap w1 s = Some ?k1"
    by (simp add: w1(2))
  note live = child_ok_live [OF ok1 k1]
  have "role_ok w s k"
    by (rule child_ok_role [OF ok k(2,1)])
  then have "sk_proto k = null_proto\<lparr>decode_handshake := Some Ws_decode_handshake\<rparr>"
    using k(3) by (auto simp: role_ok_def split: if_splits)
  then have dh: "decode_handshake (sk_proto ?k1) = Some Ws_decode_handshake"
    by simp
  have p: "pending (sk_recvbuf ?k1) = request_text targ fs @ []"
    using w1(4) by simp
  have acc: "\<forall>p. cfg_sec_ws_proto (wsd_cfg w1) = Some p \<longrightarrow> proto = bytes p"
    using accepted by (simp add: w1(8))
  have rm: "length (handshake_answer (env_digest env) key proto) < room (sk_sendbuf ?k1)"
    using room by simp
  obtain w' k' sb rb where r: "http_recv (env_digest env) w1 s = Ret (0, w')" "heap w' = (heap w1)(s \<mapsto> k')"
    "k' = (ws_mode ?k1)\<lparr>sk_sendbuf := sb, sk_recvbuf := rb, sk_events := sk_events ?k1 OR EPOLLOUT\<rparr>"
    "pending sb = pending (sk_sendbuf ?k1) @ handshake_answer (env_digest env) key proto" "pending rb = []"
    "room rb = 1048576" "same_globals w1 w'" "epoll w' = (epoll w1)(sk_fd ?k1 \<mapsto> sk_events k')"
    using http_recv_run [OF k1 live(3,1,2) dh p req(2,3) h acc digest rm] by blast
  have recv: "call_recv env w1 s = Ret (0, w')"
    using r(1) k(3) by (simp add: call_recv_def k1)
  have fin: "try_recv env w1 = Ret (work_del w' s)"
    unfolding try_recv_single [OF w1(5)] by (simp add: try_recv_one_def recv)
  have k': "ops_recv (sk_ops k') = Some Ws_recv" "sk_fd k' = sk_fd k" "\<not> sk_close_on_write k'" "\<not> sk_close_flag k'"
    "sk_events k' = sk_events k OR EPOLLOUT" "room (sk_recvbuf k') = 1048576"
    using k(5,6) r(6) unfolding r(3) by (simp_all add: ws_mode_def)
  show ?thesis
    using w1 fin r k' by (intro exI [of _ w1] exI [of _ "work_del w' s"] exI [of _ k'])
      (simp add: work_del_def same_globals_def call_recv_def)
qed

text \<open>
  C2: The upgrade through the whole event loop: the request of a client arrives with a read event
  of any state of the machine, the next iteration serves it, and the client is then received by
  \<open>ws_recv\<close> with exactly the 101 answer queued behind what it had to be sent, EPOLLOUT asked for
  and the work list empty again.
\<close>

theorem upgrade_session:
  assumes "child_reachable cfg w" and k: "heap w s = Some k" "s \<in> set (sk_list w)" "ops_recv (sk_ops k) = Some Http_recv" "0 \<le> sk_fd k"
      "\<not> sk_close_on_write k" "\<not> sk_close_flag k" "pending (sk_recvbuf k) = []" "work_list w = []"
    and req: "length (request_text targ fs) \<le> room (sk_recvbuf k)" "legal_target targ" "\<forall>nv \<in> set fs. legal_field nv"
    and h: "upgrade_header (add_fields fs Map.empty) key proto"
    and accepted: "\<forall>p. cfg_sec_ws_proto (wsd_cfg w) = Some p \<longrightarrow> proto = bytes p"
    and digest: "length (env_digest env (key @ WS_GUID)) = 28"
    and room: "length (handshake_answer (env_digest env) key proto) < room (sk_sendbuf k)"
  shows "\<exists>w1 w2 k2. child_event now (read_event s (request_text targ fs)) w = Ret (0, [], w1) \<and> try_recv env w1 = Ret w2
    \<and> heap w2 s = Some k2 \<and> call_recv env w2 s = ws_recv (env_dials env s) w2 s
    \<and> pending (sk_sendbuf k2) = pending (sk_sendbuf k) @ handshake_answer (env_digest env) key proto
    \<and> sk_events k2 = sk_events k OR EPOLLOUT \<and> pending (sk_recvbuf k2) = [] \<and> work_list w2 = []"
  using upgrade_session_run [OF child_reachable_inv [OF assms(1)] k req h accepted digest room] by blast

subsection \<open>A session of the demo client\<close>

definition no_dial :: dial where
  "no_dial = \<lparr>dial_ptr = None, dial_fd = -1, dial_gai = \<lambda>_ _. 0, dial_inet = [], dial_connect = None, dial_mem = False\<rparr>"

definition demo_dial :: dial where
  "demo_dial = \<lparr>dial_ptr = Some 2, dial_fd = 8, dial_gai = \<lambda>_ _. 0, dial_inet = [True],
     dial_connect = Some EINPROGRESS, dial_mem = True\<rparr>"

definition demo_env :: "dial \<Rightarrow> env" where
  "demo_env d = \<lparr>env_digest = \<lambda>_. replicate 28 0x41, env_dials = \<lambda>_ _. d\<rparr>"

lemma demo_target: "legal_target (bytes ''/chat'')"
proof -
  have "list_all (\<lambda>c. is_rfc7230_start_line c \<and> c \<noteq> SP) (bytes ''/chat'')" "hd (bytes ''/chat'') \<noteq> 0x2a" "bytes ''/chat'' \<noteq> []"
    by code_simp+
  then show ?thesis
    by (auto simp: legal_target_def list_all_iff)
qed

lemma demo_room:
  "length (request_text (bytes ''/chat'') demo_header) \<le> 1048576"
  "length (handshake_answer (\<lambda>_. replicate 28 0x41) (bytes ''QQ=='') []) < 1048576"
  using demo_header_ok(3) by (simp_all add: request_text_def request_line_def length_answer)

definition demo_idle :: "world \<Rightarrow> sk \<Rightarrow> bool" where
  "demo_idle w k \<longleftrightarrow> child_reachable default_cfg w \<and> heap w 1 = Some k \<and> sk_list w = [1] \<and> work_list w = [] \<and> pp2sk w = None
     \<and> wsd_cfg w = default_cfg \<and> heap w 2 = None \<and> epoll w 8 = None \<and> sk_fd k = 7 \<and> \<not> sk_close_on_write k \<and> \<not> sk_close_flag k
     \<and> pending (sk_recvbuf k) = [] \<and> room (sk_recvbuf k) = 1048576 \<and> host_num w = 0"

lemma demo_upgrades:
  "\<exists>w w1 w2 k k2. demo_idle w k \<and> child_event now (read_event 1 (request_text (bytes ''/chat'') demo_header)) w = Ret (0, [], w1)
    \<and> try_recv (demo_env no_dial) w1 = Ret w2 \<and> demo_idle w2 k2 \<and> ops_recv (sk_ops k2) = Some Ws_recv
    \<and> pending (sk_sendbuf k2) = handshake_answer (\<lambda>_. replicate 28 0x41) (bytes ''QQ=='') []"
proof -
  obtain w k where w: "child_reachable default_cfg w" "sk_list w = [1]" "heap w 1 = Some k"
    "ops_recv (sk_ops k) = Some Http_recv" "pp2sk w = None" and f: "demo_fresh w k"
    using demo_reachable by blast
  note fs = f [unfolded demo_fresh_def]
  have k: "1 \<in> set (sk_list w)" "0 \<le> sk_fd k" "\<not> sk_close_on_write k" "\<not> sk_close_flag k" "pending (sk_recvbuf k) = []" "work_list w = []"
    "length (request_text (bytes ''/chat'') demo_header) \<le> room (sk_recvbuf k)"
    "\<forall>p. cfg_sec_ws_proto (wsd_cfg w) = Some p \<longrightarrow> [] = bytes p"
    "length (env_digest (demo_env no_dial) (bytes ''QQ=='' @ WS_GUID)) = 28"
    "length (handshake_answer (env_digest (demo_env no_dial)) (bytes ''QQ=='') []) < room (sk_sendbuf k)"
    using fs w(2) demo_room by (simp_all add: demo_env_def default_cfg_def)
  obtain w1 w2 k2 where r: "child_event now (read_event 1 (request_text (bytes ''/chat'') demo_header)) w = Ret (0, [], w1)"
    "try_recv (demo_env no_dial) w1 = Ret w2" "heap w2 1 = Some k2" "pending (sk_recvbuf k2) = []"
    "work_list w2 = []" "sk_list w2 = sk_list w" "pp2sk w2 = pp2sk w" "wsd_cfg w2 = wsd_cfg w"
    "ops_recv (sk_ops k2) = Some Ws_recv" "sk_fd k2 = sk_fd k" "\<not> sk_close_on_write k2" "\<not> sk_close_flag k2" "work_list w1 = [1]"
    "heap w2 = (heap w)(1 \<mapsto> k2)" "epoll w2 = (epoll w)(sk_fd k \<mapsto> sk_events k2)"
    "room (sk_recvbuf k2) = 1048576" "host_num w2 = host_num w"
    "pending (sk_sendbuf k2) = pending (sk_sendbuf k) @ handshake_answer (env_digest (demo_env no_dial)) (bytes ''QQ=='') []"
    using upgrade_session_run [OF child_reachable_inv [OF w(1)] w(3) k(1) w(4) k(2-7) demo_target demo_header_ok(1,2) k(8-10), of now]
    by blast
  have "child_reachable default_cfg w1"
    using child_reachable.step [OF w(1) child_step.event [OF r(1)]] .
  moreover have "child_step w1 w2"
    using r(2,13) by (intro child_step.serve [of 1 w1 "demo_env no_dial"]) (simp_all add: try_recv_single fresh_env_def demo_env_def no_dial_def fresh_cell_def)
  ultimately have "child_reachable default_cfg w2"
    by (rule child_reachable.step)
  then have "demo_idle w2 k2"
    using r fs w by (simp add: demo_idle_def)
  moreover have "demo_idle w k"
    using w fs by (simp add: demo_idle_def)
  moreover have "pending (sk_sendbuf k2) = handshake_answer (\<lambda>_. replicate 28 0x41) (bytes ''QQ=='') []"
    using r(18) fs by (simp add: demo_env_def)
  ultimately show ?thesis
    using r(1,2,9) by blast
qed

lemma run_frames_short:
  assumes "heap v s = Some k" "skb_wf (sk_recvbuf k)" "length (pending (sk_recvbuf k)) < 2" "decode_frame (sk_proto k) = Some Ws_decode_frame"
  shows "run_frames v s = Ret (-1, 0, v\<lparr>wsd_errno := WSD_EINPUT\<rparr>)"
proof -
  have "ws_decode_frame v s = Ret (-1, v\<lparr>wsd_errno := WSD_EINPUT\<rparr>)"
    using assms rdsz_less_iff [OF assms(2)] by (simp add: ws_decode_frame_def ws_len_defs)
  then have "call_decode_frame v s = Ret (-1, v\<lparr>wsd_errno := WSD_EINPUT\<rparr>)"
    using assms by (simp add: call_decode_frame_def)
  then show ?thesis
    using decode_frames_stop [where decode = call_decode_frame] by (simp add: run_frames_def)
qed

text \<open>The first byte of a frame makes the server connect to its backend.\<close>

definition demo_linked :: "world \<Rightarrow> bool" where
  "demo_linked w \<longleftrightarrow> pp2sk w = Some 2 \<and> (\<exists>k. heap w 2 = Some k \<and> sk_fd k = 8 \<and> \<not> sk_close_on_write k \<and> \<not> sk_close_flag k
     \<and> sk_recvbuf k = zero_skb)"

lemma demo_opens:
  assumes "pp2sk w = None" "heap w 2 = None" "epoll w 8 = None" "wsd_cfg w = default_cfg" "host_num w = 0"
    and "2 \<notin> set (work_list w)"
  shows "\<exists>v. open_loop (\<lambda>_. demo_dial) None (unat (cfg_fhostname_num default_cfg)) w = Ret (0, v)
    \<and> demo_linked v \<and> work_list v = work_list w \<and> (\<forall>t. t \<noteq> 2 \<longrightarrow> heap v t = heap w t)"
  using assms by (simp add: demo_linked_def default_cfg_def zero_sk_def sk_open_def wipe_cell_def demo_dial_def sk_init_def register_for_events_def Let_def)


lemma demo_serves:
  assumes w: "child_ok w" "heap w 1 = Some k" "1 \<in> set (sk_list w)" "ops_recv (sk_ops k) = Some Ws_recv" "pp2sk w = None"
    and p: "length (pending (sk_recvbuf k)) = 1" "\<not> sk_close_on_write k" "\<not> sk_close_flag k"
    and e: "heap w 2 = None" "epoll w 8 = None" "wsd_cfg w = default_cfg" "host_num w = 0" "2 \<notin> set (work_list w)"
  shows "\<exists>v. try_recv_one (demo_env demo_dial) w 1 = Ret v \<and> heap v 1 = Some k \<and> demo_linked v
    \<and> work_list v = removeAll 1 (work_list w)"
proof -
  obtain v where v: "open_loop (\<lambda>_. demo_dial) None (unat (cfg_fhostname_num default_cfg)) w = Ret (0, v)" "demo_linked v"
    "work_list v = work_list w" "\<forall>t. t \<noteq> 2 \<longrightarrow> heap v t = heap w t"
    using demo_opens [OF w(5) e] by blast
  have k: "heap v 1 = Some k"
    using v(4) w(2) by simp
  have "role_ok w 1 k"
    by (rule child_ok_role [OF w(1,3,2)])
  then have d: "decode_frame (sk_proto k) = Some Ws_decode_frame"
    using w(4,5) by (simp add: role_ok_def)
  note wf = child_ok_live(2) [OF w(1,2)]
  have "pending (sk_recvbuf k) \<noteq> []"
    using p(1) by auto
  then have "skb_rdsz (sk_recvbuf k) \<noteq> 0"
    using rdsz_0_iff [OF wf] by simp
  then have "ws_recv (\<lambda>_. demo_dial) w 1 = Ret (-1, v\<lparr>wsd_errno := WSD_EINPUT\<rparr>)"
    using run_frames_short [OF k wf _ d] p v(1) w(2,5) e(3) k by (simp add: ws_recv_def)
  then show ?thesis
    using w(2,4) v(2,3) k
    by (intro exI [of _ "work_del (v\<lparr>wsd_errno := WSD_EINPUT\<rparr>) 1"])
      (simp add: try_recv_one_def call_recv_def demo_env_def work_del_def demo_linked_def)
qed

lemma demo_connects:
  "\<exists>w k. child_reachable default_cfg w \<and> heap w 1 = Some k \<and> ops_recv (sk_ops k) = Some Ws_recv \<and> pp2sk w = Some 2
    \<and> demo_linked w \<and> work_list w = []"
proof -
  obtain w k where w: "demo_idle w k" "ops_recv (sk_ops k) = Some Ws_recv"
    using demo_upgrades by blast
  note I = w(1) [unfolded demo_idle_def]
  have reach: "child_reachable default_cfg w" and l: "sk_list w = [1]"
    using I by blast+
  note ok = child_reachable_inv [OF reach]
  have k: "heap w 1 = Some k" "1 \<in> set (sk_list w)" "0 \<le> sk_fd k" "\<not> sk_close_on_write k" "\<not> sk_close_flag k" "work_list w = []"
    "[0x81] \<noteq> []" "length [0x81 :: u8] \<le> room (sk_recvbuf k)"
    using I by simp_all
  obtain w1 b where w1: "child_event now (read_event 1 [0x81]) w = Ret (0, [], w1)"
    "heap w1 = (heap w)(1 \<mapsto> k\<lparr>sk_recvbuf := b, sk_ts_last_io := now\<rparr>)" "skb_wf b" "pending b = pending (sk_recvbuf k) @ [0x81]"
    "work_list w1 = [1]" "sk_list w1 = sk_list w" "pp2sk w1 = pp2sk w" "wsd_cfg w1 = wsd_cfg w"
    "epoll w1 = epoll w" "host_num w1 = host_num w"
    using read_event_arrives [OF ok k(1-5,7,8,6), of now] by auto
  let ?k = "k\<lparr>sk_recvbuf := b, sk_ts_last_io := now\<rparr>"
  have reach1: "child_reachable default_cfg w1"
    by (rule child_reachable.step [OF reach child_step.event [OF w1(1)]])
  have "\<exists>v. try_recv_one (demo_env demo_dial) w1 1 = Ret v \<and> heap v 1 = Some ?k \<and> demo_linked v
      \<and> work_list v = removeAll 1 (work_list w1)"
    using I w(2) w1 by (intro demo_serves child_reachable_inv [OF reach1]) simp_all
  then obtain v where v: "try_recv_one (demo_env demo_dial) w1 1 = Ret v" "heap v 1 = Some ?k" "demo_linked v"
    "work_list v = []"
    using w1(5) by auto
  have "fresh_env w1 (demo_env demo_dial)"
    using I w1 by (simp add: fresh_env_def demo_env_def demo_dial_def fresh_cell_def)
  then have "child_step w1 v"
    using v(1) w1(5) by (intro child_step.serve) simp_all
  then have "child_reachable default_cfg v"
    by (rule child_reachable.step [OF reach1])
  then show ?thesis
    using v w(2) by (intro exI [of _ v] exI [of _ ?k]) (simp add: demo_linked_def)
qed

theorem ws_recv_safe_witness:
  "\<exists>w. child_reachable default_cfg w \<and> (\<forall>rv w'. ws_recv (\<lambda>_. no_dial) w 1 = Ret (rv, w') \<longrightarrow> pp2sk w' \<noteq> None)"
proof -
  obtain w k where w: "child_reachable default_cfg w" "heap w 1 = Some k" "ops_recv (sk_ops k) = Some Ws_recv" "pp2sk w = Some 2"
    using demo_connects by blast
  have "pp2sk w \<noteq> None"
    using w(4) by simp
  from ws_recv_safe [OF w(1-3) this] w(1) show ?thesis by blast
qed

theorem backend_loop_terminates_witness:
  "\<exists>w. child_reachable default_cfg w \<and> decode_frames call_decode_frame 0 w 2 \<noteq> None"
proof -
  obtain w k where w: "child_reachable default_cfg w" "pp2sk w = Some 2"
    using demo_connects by blast
  from backend_loop_terminates [OF w] w(1) show ?thesis by auto
qed

theorem upgrade_session_witness:
  "\<exists>w w1 w2. child_reachable default_cfg w
     \<and> child_event zero_timespec (read_event 1 (request_text (bytes ''/chat'') demo_header)) w = Ret (0, [], w1)
     \<and> try_recv (demo_env no_dial) w1 = Ret w2 \<and> work_list w2 = []"
proof -
  obtain w k where w: "child_reachable default_cfg w" "sk_list w = [1]" "heap w 1 = Some k"
    "ops_recv (sk_ops k) = Some Http_recv" and f: "demo_fresh w k"
    using demo_reachable by blast
  note fs = f [unfolded demo_fresh_def]
  have k: "1 \<in> set (sk_list w)" "0 \<le> sk_fd k" "\<not> sk_close_on_write k" "\<not> sk_close_flag k" "pending (sk_recvbuf k) = []" "work_list w = []"
    "length (request_text (bytes ''/chat'') demo_header) \<le> room (sk_recvbuf k)"
    "\<forall>p. cfg_sec_ws_proto (wsd_cfg w) = Some p \<longrightarrow> [] = bytes p"
    "length (env_digest (demo_env no_dial) (bytes ''QQ=='' @ WS_GUID)) = 28"
    "length (handshake_answer (env_digest (demo_env no_dial)) (bytes ''QQ=='') []) < room (sk_sendbuf k)"
    using fs w(2) demo_room by (simp_all add: demo_env_def default_cfg_def)
  from upgrade_session [OF w(1,3) k(1) w(4) k(2-7) demo_target demo_header_ok(1,2) k(8-10), of zero_timespec] w(1)
  show ?thesis by blast
qed

subsection \<open>Bytes leave\<close>

definition write_event :: "ptr \<Rightarrow> nat \<Rightarrow> event" where
  "write_event s n = \<lparr>ev_events = EPOLLOUT, ev_sk = s, ev_read = Rd_bytes [], ev_write = Wr_accept n,
     ev_incoming = \<lparr>in_ptr = None, in_fd = -1, in_src = \<lparr>sin_addr = 0, sin_port = 0\<rparr>, in_dst = None, in_mem = False, in_nsec = 0\<rparr>\<rparr>"

lemma out_mask: "EPOLLOUT AND EPOLLIN = 0" "EPOLLOUT AND EPOLLPRI = 0" "EPOLLOUT \<noteq> 0"
  by (simp_all add: EPOLLIN_def EPOLLOUT_def EPOLLPRI_def)

lemma write_event_run:
  assumes ok: "child_ok w" and k: "heap w s = Some k" "s \<in> set (sk_list w)" "0 \<le> sk_fd k" "pending (sk_sendbuf k) \<noteq> []"
  shows "\<exists>b. skb_wf b \<and> pending b = drop n (pending (sk_sendbuf k))
    \<and> child_event now (write_event s n) w
      = obind (let w' = put_sk w s (k\<lparr>sk_sendbuf := b, sk_ts_last_io := now\<rparr>) in
               if sk_close_on_write k \<and> pending b = [] \<or> sk_close_flag k then must_close call_close w' s else Ret w')
          (\<lambda>w'. Ret (0, take n (pending (sk_sendbuf k)), w'))"
proof -
  obtain b where b: "sk_write (Wr_accept n) w s = Ret (0, take n (pending (sk_sendbuf k)), put_sk w s (k\<lparr>sk_sendbuf := b\<rparr>))"
    "skb_wf b" "pending b = drop n (pending (sk_sendbuf k))"
    using sk_write_sends [OF k(1) child_ok_live(1) [OF ok k(1)] k(4), of n] by blast
  have "ops_write (sk_ops k) = Some Sk_write"
    using child_ok_role [OF ok k(2,1)] by (simp add: role_ok_def)
  then have "call_write (Wr_accept n) w s = Ret (0, take n (pending (sk_sendbuf k)), put_sk w s (k\<lparr>sk_sendbuf := b\<rparr>))"
    using k(1) b(1) by (simp add: call_write_def)
  then have "child_event now (write_event s n) w
      = obind (let w' = put_sk w s (k\<lparr>sk_sendbuf := b, sk_ts_last_io := now\<rparr>) in
               if sk_close_on_write k \<and> pending b = [] \<or> sk_close_flag k then must_close call_close w' s else Ret w')
          (\<lambda>w'. Ret (0, take n (pending (sk_sendbuf k)), w'))"
    using k rdsz_0_iff [OF b(2)]
    by (cases "sk_close_on_write k"; cases "sk_close_flag k"; cases "pending b = []")
      (simp_all add: child_event_def on_epoll_event_def write_event_def out_mask on_write_def ts_last_io_set_def Let_def)
  then show ?thesis
    using b(2,3) by blast
qed

lemma write_event_sends:
  assumes ok: "child_ok w" and k: "heap w s = Some k" "s \<in> set (sk_list w)" "0 \<le> sk_fd k" "pending (sk_sendbuf k) \<noteq> []"
    and stay: "\<not> sk_close_flag k" "sk_close_on_write k \<Longrightarrow> n < length (pending (sk_sendbuf k))"
  shows "\<exists>b. child_event now (write_event s n) w
      = Ret (0, take n (pending (sk_sendbuf k)), put_sk w s (k\<lparr>sk_sendbuf := b, sk_ts_last_io := now\<rparr>))
    \<and> skb_wf b \<and> pending b = drop n (pending (sk_sendbuf k))"
proof -
  obtain b where b: "skb_wf b" "pending b = drop n (pending (sk_sendbuf k))"
    "child_event now (write_event s n) w
      = obind (let w' = put_sk w s (k\<lparr>sk_sendbuf := b, sk_ts_last_io := now\<rparr>) in
               if sk_close_on_write k \<and> pending b = [] \<or> sk_close_flag k then must_close call_close w' s else Ret w')
          (\<lambda>w'. Ret (0, take n (pending (sk_sendbuf k)), w'))"
    using write_event_run [OF ok k] by blast
  then show ?thesis
    using stay by (intro exI [of _ b]) (auto simp: Let_def)
qed

text \<open>Closing a client when every socket of the work list exists.\<close>

definition works :: "world \<Rightarrow> bool" where
  "works w \<longleftrightarrow> (\<forall>t \<in> set (work_list w). heap w t \<noteq> None)"

lemma other_work_run:
  assumes "wsd_ok w" "heap w s = Some k" "\<forall>t \<in> set ts. heap v t = heap w t \<and> heap w t \<noteq> None"
  shows "other_work v (sk_fd k) ts = Ret (removeAll s ts)"
  using assms(3)
proof (induction ts)
  case (Cons t ts)
  then obtain l where l: "heap w t = Some l" "heap v t = Some l" by auto
  have "sk_fd k = sk_fd l \<longleftrightarrow> s = t"
    using wsd_ok_fd [OF assms(1,2) l(1)] assms(2) l(1) by auto
  then show ?case
    using Cons l by auto
qed simp

definition freed :: "world \<Rightarrow> ptr \<Rightarrow> sk \<Rightarrow> world \<Rightarrow> bool" where
  "freed w s k w' \<longleftrightarrow> heap w' = (heap w)(s := None) \<and> epoll w' = (epoll w)(sk_fd k := None)
     \<and> sk_list w' = removeAll s (sk_list w) \<and> work_list w' = removeAll s (work_list w) \<and> pp2sk w' = pp2sk w
     \<and> (\<forall>t. hashed w' t \<longleftrightarrow> t \<noteq> s \<and> hashed w t)"

lemma sk_close_run:
  assumes ok: "child_ok w" and k: "heap w s = Some k" "s \<in> set (sk_list w)" "pp2sk w \<noteq> Some s" and work: "works w"
  shows "\<exists>w'. call_close w s = Ret (0, w') \<and> freed w s k w'"
proof -
  let ?v = "(hash_del w s)\<lparr>sk_list := removeAll s (sk_list w)\<rparr>"
  have v: "sk_list_del (hash_del w s) s = Ret ?v" "work_list ?v = work_list w" "heap ?v = heap w"
    using k(2) by (simp_all add: sk_list_del_def hash_del_def)
  have "other_work ?v (sk_fd k) (work_list ?v) = Ret (removeAll s (work_list w))"
    unfolding v(2) using work by (intro other_work_run [OF child_okD(1) [OF ok] k(1)]) (simp add: works_def v(3))
  then have r: "sk_close w s = Ret (0, sk_destroy (close_fd (?v\<lparr>work_list := removeAll s (work_list w)\<rparr>) (sk_fd k)) s)"
    using k(1) v(1) by (simp add: sk_close_def)
  have "ops_close (sk_ops k) = Some Sk_close"
    using child_ok_role [OF ok k(2,1)] k(3) by (simp add: role_ok_def)
  moreover have "hashed (sk_destroy (close_fd (?v\<lparr>work_list := removeAll s (work_list w)\<rparr>) (sk_fd k)) s) t \<longleftrightarrow> t \<noteq> s \<and> hashed w t" for t
    using table_ok_del(2) [of w s t] by (simp add: sk_destroy_def close_fd_def hashed_def)
  ultimately show ?thesis
    using k(1) r unfolding call_close_def freed_def
    by (intro exI [of _ "sk_destroy (close_fd (?v\<lparr>work_list := removeAll s (work_list w)\<rparr>) (sk_fd k)) s"] conjI)
      (simp_all add: sk_destroy_def close_fd_def hash_del_def)
qed

lemma write_event_closes:
  assumes ok: "child_ok w" and k: "heap w s = Some k" "s \<in> set (sk_list w)" "0 \<le> sk_fd k" "pending (sk_sendbuf k) \<noteq> []"
    and n: "sk_close_on_write k" "length (pending (sk_sendbuf k)) \<le> n" and client: "pp2sk w \<noteq> Some s" "works w"
  shows "\<exists>w'. child_event now (write_event s n) w = Ret (0, pending (sk_sendbuf k), w') \<and> freed w s k w'"
proof -
  obtain b where b: "skb_wf b" "pending b = drop n (pending (sk_sendbuf k))"
    "child_event now (write_event s n) w
      = obind (let w' = put_sk w s (k\<lparr>sk_sendbuf := b, sk_ts_last_io := now\<rparr>) in
               if sk_close_on_write k \<and> pending b = [] \<or> sk_close_flag k then must_close call_close w' s else Ret w')
          (\<lambda>w'. Ret (0, take n (pending (sk_sendbuf k)), w'))"
    using write_event_run [OF ok k] by blast
  let ?k = "k\<lparr>sk_sendbuf := b, sk_ts_last_io := now\<rparr>"
  have "child_ok (put_sk w s ?k)"
    using child_ok_live [OF ok k(1)] b(1) by (intro child_ok_put [OF ok k(1)]) (simp_all add: ident_def)
  moreover have "works (put_sk w s ?k)"
    using client(2) by (simp add: works_def)
  ultimately obtain w' where w': "call_close (put_sk w s ?k) s = Ret (0, w')" "freed (put_sk w s ?k) s ?k w'"
    using sk_close_run [of "put_sk w s ?k" s ?k] k client(1) by auto
  moreover have "freed w s k w'"
    using w'(2) by (simp add: freed_def hashed_def)
  ultimately show ?thesis
    using b n by (intro exI [of _ w']) (simp add: must_close_def)
qed

text \<open>A sequence of write events on a socket, and all that the kernel took.\<close>

fun write_events :: "timespec \<Rightarrow> ptr \<Rightarrow> nat list \<Rightarrow> world \<Rightarrow> (u8 list \<times> world) outcome" where
  "write_events now s [] w = Ret ([], w)"
| "write_events now s (n # ns) w =
     obind (child_event now (write_event s n) w) (\<lambda>(rv, sent, w).
     obind (write_events now s ns w) (\<lambda>(out, w). Ret (sent @ out, w)))"

definition sent_off :: "timespec \<Rightarrow> world \<Rightarrow> ptr \<Rightarrow> sk \<Rightarrow> world \<Rightarrow> bool" where
  "sent_off now w s k w' \<longleftrightarrow>
     (if sk_close_on_write k then freed w s k w'
      else \<exists>b. w' = put_sk w s (k\<lparr>sk_sendbuf := b, sk_ts_last_io := now\<rparr>) \<and> skb_wf b \<and> pending b = [])"

lemma write_events_drain:
  assumes "child_ok w" "heap w s = Some k" "s \<in> set (sk_list w)" "0 \<le> sk_fd k" "pending (sk_sendbuf k) \<noteq> []"
    and "\<not> sk_close_flag k" "sk_close_on_write k \<Longrightarrow> pp2sk w \<noteq> Some s \<and> works w"
    and "\<forall>n \<in> set ns. 0 < n" "length (pending (sk_sendbuf k)) \<le> length ns"
  shows "\<exists>m w'. m \<le> length (pending (sk_sendbuf k)) \<and> write_events now s (take m ns) w = Ret (pending (sk_sendbuf k), w')
    \<and> sent_off now w s k w'"
  using assms
proof (induction ns arbitrary: w k)
  case (Cons n ns)
  let ?p = "pending (sk_sendbuf k)"
  note k = Cons.prems(1-5)
  show ?case
  proof (cases "n < length ?p")
    case True
    obtain b where b: "child_event now (write_event s n) w = Ret (0, take n ?p, put_sk w s (k\<lparr>sk_sendbuf := b, sk_ts_last_io := now\<rparr>))"
      "skb_wf b" "pending b = drop n ?p"
      using write_event_sends [OF k Cons.prems(6) True] by blast
    let ?k = "k\<lparr>sk_sendbuf := b, sk_ts_last_io := now\<rparr>"
    let ?w = "put_sk w s ?k"
    have ok: "child_ok ?w"
      using child_ok_live [OF k(1,2)] b(2) by (intro child_ok_put [OF k(1,2)]) (simp_all add: ident_def)
    have "\<exists>m w'. m \<le> length (pending (sk_sendbuf ?k)) \<and> write_events now s (take m ns) ?w = Ret (pending (sk_sendbuf ?k), w')
      \<and> sent_off now ?w s ?k w'"
      using Cons.prems True b(3) by (intro Cons.IH [OF ok]) (auto simp: works_def)
    then obtain m w' where m: "m \<le> length ?p - n" "write_events now s (take m ns) ?w = Ret (drop n ?p, w')" "sent_off now ?w s ?k w'"
      using b(3) by auto
    have "Suc m \<le> length ?p"
      using m(1) True Cons.prems(8) by auto
    moreover have "sent_off now w s k w'"
      using m(3) by (auto simp: sent_off_def freed_def hashed_def split: if_splits)
    ultimately show ?thesis
      using b(1) m(2) by (intro exI [of _ "Suc m"] exI [of _ w']) simp
  next
    case False
    have "\<exists>w'. child_event now (write_event s n) w = Ret (0, ?p, w') \<and> sent_off now w s k w'"
    proof (cases "sk_close_on_write k")
      case True
      then show ?thesis
        using write_event_closes [OF k True, of n now] False Cons.prems(7) by (auto simp: sent_off_def)
    next
      case stay: False
      then show ?thesis
        using write_event_sends [OF k Cons.prems(6), of n now] False by (auto simp: sent_off_def)
    qed
    then obtain w' where w': "child_event now (write_event s n) w = Ret (0, ?p, w')" "sent_off now w s k w'"
      by blast
    have "Suc 0 \<le> length ?p"
      using k(5) by (cases ?p) simp_all
    then show ?thesis
      using w' by (intro exI [of _ "Suc 0"] exI [of _ w']) simp
  qed
qed simp

lemma write_event_idle:
  assumes ok: "child_ok w" and k: "heap w s = Some k" "s \<in> set (sk_list w)" "0 \<le> sk_fd k" "pending (sk_sendbuf k) = []"
    "\<not> sk_close_flag k" "\<not> sk_close_on_write k"
  shows "\<exists>w' k'. child_event now (write_event s n) w = Ret (-1, [], w') \<and> heap w' = (heap w)(s \<mapsto> k')
    \<and> sk_events k' = sk_events k AND NOT EPOLLOUT \<and> epoll w' = (epoll w)(sk_fd k \<mapsto> sk_events k')"
proof -
  note live = child_ok_live [OF ok k(1)]
  have "sk_write (Wr_accept n) w s = Ret (-1, [], (set_events w s k (sk_events k AND NOT EPOLLOUT))\<lparr>wsd_errno := WSD_EAGAIN\<rparr>)"
    using k(1,4) rdsz_0_iff [OF live(1)] turn_off_events_ok [OF k(1) live(3)] by (simp add: sk_write_def)
  moreover have "ops_write (sk_ops k) = Some Sk_write"
    using child_ok_role [OF ok k(2,1)] by (simp add: role_ok_def)
  ultimately show ?thesis
    using k by (simp add: child_event_def on_epoll_event_def write_event_def out_mask on_write_def ts_last_io_set_def
        call_write_def Let_def)
      (rule exI [of _ "k\<lparr>sk_events := sk_events k AND NOT EPOLLOUT, sk_ts_last_io := now\<rparr>"]; simp)
qed

text \<open>
  C4: What is queued for a socket is sent, in every reachable state: however few bytes the kernel
  takes each time the socket becomes writable, after at most as many writable events as there
  are bytes exactly the queued bytes have left, in order, and the next writable event takes
  EPOLLOUT out of the interest set again.
\<close>

theorem output_drains:
  assumes "child_reachable cfg w" "heap w s = Some k" "s \<in> set (sk_list w)" "0 \<le> sk_fd k" "pending (sk_sendbuf k) \<noteq> []"
    and "\<not> sk_close_flag k" "\<not> sk_close_on_write k"
    and "\<forall>n \<in> set ns. 0 < n" "length (pending (sk_sendbuf k)) \<le> length ns"
  shows "\<exists>m w' k' w'' k''. m \<le> length (pending (sk_sendbuf k))
    \<and> write_events now s (take m ns) w = Ret (pending (sk_sendbuf k), w') \<and> heap w' s = Some k' \<and> pending (sk_sendbuf k') = []
    \<and> child_event now (write_event s n) w' = Ret (-1, [], w'') \<and> heap w'' s = Some k'' \<and> sk_events k'' AND EPOLLOUT = 0"
proof -
  note ok = child_reachable_inv [OF assms(1)]
  obtain m w' b where m: "m \<le> length (pending (sk_sendbuf k))" "write_events now s (take m ns) w = Ret (pending (sk_sendbuf k), w')"
    "w' = put_sk w s (k\<lparr>sk_sendbuf := b, sk_ts_last_io := now\<rparr>)" "skb_wf b" "pending b = []"
    using write_events_drain [OF ok assms(2-6) _ assms(8,9), of now] assms(7) unfolding sent_off_def by auto
  let ?k = "k\<lparr>sk_sendbuf := b, sk_ts_last_io := now\<rparr>"
  have "child_ok w'"
    using child_ok_live [OF ok assms(2)] m(4) unfolding m(3) by (intro child_ok_put [OF ok assms(2)]) (simp_all add: ident_def)
  from write_event_idle [OF this, of s ?k now n] obtain w'' k'' where
    "child_event now (write_event s n) w' = Ret (-1, [], w'')" "heap w'' s = Some k''" "sk_events k'' = sk_events k AND NOT EPOLLOUT"
    using assms m by auto
  moreover have "sk_events k'' AND EPOLLOUT = 0"
    using calculation by (simp add: and.assoc)
  moreover have "heap w' s = Some ?k" "pending (sk_sendbuf ?k) = []"
    using m(3,5) by simp_all
  ultimately show ?thesis
    using m(1,2) by blast
qed

text \<open>
  A request that is turned away: one iteration of the loop takes it in, and afterwards either
  the 400 answer is queued on a socket that will close, or the socket is gone.
\<close>

lemma turned_away_round:
  assumes ok: "child_ok w" and k: "heap w s = Some k" "s \<in> set (sk_list w)" "ops_recv (sk_ops k) = Some Http_recv" "0 \<le> sk_fd k"
      "\<not> sk_close_on_write k" "\<not> sk_close_flag k" "pending (sk_recvbuf k) = []" "work_list w = []"
    and req: "length (line @ [CR, LF] @ header_text fs) \<le> room (sk_recvbuf k)"
      "\<nexists>xs ys. line = xs @ [CR, LF] @ ys" "length line < 2 ^ 31"
    and bad: "\<not> (\<forall>c \<in> set line. is_rfc7230_start_line c) \<or> refusable line fs"
  obtains w1 b w' where "child_event now (read_event s (line @ [CR, LF] @ header_text fs)) w = Ret (0, [], w1)"
    "child_ok w1" "heap w1 = (heap w)(s \<mapsto> k\<lparr>sk_recvbuf := b, sk_ts_last_io := now\<rparr>)" "work_list w1 = [s]"
    "sk_list w1 = sk_list w" "pp2sk w1 = pp2sk w" "epoll w1 = epoll w" "pp2sk w \<noteq> Some s"
    "call_recv env w1 s = Ret (-1, w')" "child_ok w'"
    "turned_away (\<forall>c \<in> set line. is_rfc7230_start_line c) w1 s (k\<lparr>sk_recvbuf := b, sk_ts_last_io := now\<rparr>) w'"
proof -
  let ?req = "line @ [CR, LF] @ header_text fs"
  have ne: "?req \<noteq> []"
    by simp
  obtain w1 b where w1: "child_event now (read_event s ?req) w = Ret (0, [], w1)"
    "heap w1 = (heap w)(s \<mapsto> k\<lparr>sk_recvbuf := b, sk_ts_last_io := now\<rparr>)" "skb_wf b" "pending b = ?req"
    "work_list w1 = [s]" "sk_list w1 = sk_list w" "pp2sk w1 = pp2sk w" "epoll w1 = epoll w"
    using read_event_arrives [OF ok k(1,2,4-6) ne req(1) k(8), of now] k(7) by auto
  have ok1: "child_ok w1"
    using returnsD [OF keeps_child_event [OF ok, where Q = "\<lambda>(rv, sent, w'). child_ok w'"] w1(1)] by simp
  let ?k1 = "k\<lparr>sk_recvbuf := b, sk_ts_last_io := now\<rparr>"
  have k1: "heap w1 s = Some ?k1"
    by (simp add: w1(2))
  note live = child_ok_live [OF ok1 k1]
  have p: "pending (sk_recvbuf ?k1) = line @ [CR, LF] @ header_text fs @ []"
    using w1(4) by simp
  obtain w' where r: "http_recv (env_digest env) w1 s = Ret (-1, w')"
    "turned_away (\<forall>c \<in> set line. is_rfc7230_start_line c) w1 s ?k1 w'"
    using http_recv_refuses [OF k1 live(3,1,2) p req(2,3) bad] by blast
  have recv: "call_recv env w1 s = Ret (-1, w')"
    using r(1) k(3) by (simp add: call_recv_def k1)
  have client: "pp2sk w \<noteq> Some s"
    using child_ok_role [OF ok k(2,1)] k(3) by (auto simp: role_ok_def)
  then have "child_ok w'"
    using returnsD [OF keeps_http_recv [OF ok1, where s = s and Q = "\<lambda>(rv, w'). child_ok w'"] r(1)] k(3) k1 w1(7) by auto
  then show thesis
    using that w1 ok1 client recv r(2) by blast
qed

lemma refused_serve:
  assumes w1: "heap w1 s = Some k1" "work_list w1 = [s]" "\<not> sk_close_flag k1"
    and recv: "call_recv env w1 s = Ret (-1, w')" "child_ok w'" and r: "refused w1 s k1 HTTP_400 w'"
  shows "\<exists>w2 k2. try_recv env w1 = Ret w2 \<and> child_ok w2 \<and> sk_close_on_write k2 \<and> \<not> sk_close_flag k2 \<and> sk_fd k2 = sk_fd k1
    \<and> pending (sk_sendbuf k2) = pending (sk_sendbuf k1) @ HTTP_400 \<and> heap w2 = (heap w1)(s \<mapsto> k2)
    \<and> epoll w2 = (epoll w1)(sk_fd k1 \<mapsto> sk_events k2) \<and> sk_list w2 = sk_list w1 \<and> work_list w2 = [] \<and> pp2sk w2 = pp2sk w1"
proof -
  obtain k2 where k2: "heap w' = (heap w1)(s \<mapsto> k2)" "sk_close_on_write k2" "pending (sk_sendbuf k2) = pending (sk_sendbuf k1) @ HTTP_400"
    "sk_fd k2 = sk_fd k1" "\<not> sk_close_flag k2" "wsd_errno w' = WSD_EBADREQ" "same_globals w1 w'"
    "epoll w' = (epoll w1)(sk_fd k1 \<mapsto> sk_events k2)"
    using r w1(3) unfolding refused_def by auto
  let ?w2 = "work_del w' s"
  have "try_recv env w1 = Ret ?w2"
    using k2(1,2,6) unfolding try_recv_single [OF w1(2)] by (simp add: try_recv_one_def recv(1) work_del_def)
  moreover have "child_ok ?w2"
    using recv(2) by (rule child_ok_work_del)
  moreover have "heap ?w2 = (heap w1)(s \<mapsto> k2)" "epoll ?w2 = (epoll w1)(sk_fd k1 \<mapsto> sk_events k2)" "sk_list ?w2 = sk_list w1"
    "work_list ?w2 = []" "pp2sk ?w2 = pp2sk w1"
    using k2(1,7,8) w1(2) by (simp_all add: work_del_def same_globals_def)
  ultimately show ?thesis
    using k2 by (intro exI [of _ ?w2] exI [of _ k2]) (simp only: simp_thms)
qed

lemma dropped_serve:
  assumes w1: "heap w1 s = Some k1" "s \<in> set (sk_list w1)" "work_list w1 = [s]" "pp2sk w1 \<noteq> Some s" "\<not> sk_close_on_write k1"
    and recv: "call_recv env w1 s = Ret (-1, w')" "child_ok w'" and r: "dropped w1 s k1 w'"
  shows "\<exists>w2. try_recv env w1 = Ret w2 \<and> freed w1 s k1 w2"
proof -
  let ?k = "k1\<lparr>sk_recvbuf := skb_reset (sk_recvbuf k1)\<rparr>" and ?v = "work_del w' s"
  have v: "heap ?v = (heap w1)(s \<mapsto> ?k)" "epoll ?v = epoll w1" "sk_list ?v = sk_list w1" "work_list ?v = []"
    "pp2sk ?v = pp2sk w1" "sk_hash ?v = sk_hash w1" "wsd_errno w' = WSD_EBADREQ"
    using r w1(3) by (simp_all add: dropped_def work_del_def)
  have ok: "child_ok ?v"
    using recv(2) by (rule child_ok_work_del)
  have "\<exists>w2. call_close ?v s = Ret (0, w2) \<and> freed ?v s ?k w2"
    using w1(2,4) v by (intro sk_close_run [OF ok]) (simp_all add: works_def)
  then obtain w2 where w2: "call_close ?v s = Ret (0, w2)" "freed ?v s ?k w2"
    by blast
  have "try_recv env w1 = Ret w2"
    using v w1(5) w2(1) unfolding try_recv_single [OF w1(3)] by (simp add: try_recv_one_def recv(1) must_close_def)
  moreover have "freed w1 s k1 w2"
    using w2(2) v w1(3) by (simp add: freed_def hashed_def)
  ultimately show ?thesis by blast
qed

text \<open>The socket is closed and freed, and nothing else has changed.\<close>

definition gone :: "world \<Rightarrow> ptr \<Rightarrow> sk \<Rightarrow> world \<Rightarrow> bool" where
  "gone w s k w' \<longleftrightarrow> heap w' = (heap w)(s := None) \<and> epoll w' = (epoll w)(sk_fd k := None)
     \<and> sk_list w' = removeAll s (sk_list w) \<and> work_list w' = [] \<and> \<not> hashed w' s"

text \<open>
  C3: A session that is refused, through the whole event loop. The bytes that arrive for a client
  are no request the program accepts: a first line that is not accepted or not valid, or a
  legal request without Host, Upgrade or Connection. If its first line has only bytes of the
  class the tokeniser knows, the next iteration queues the 400 answer, and once the writable
  events have sent it, in however many pieces, the socket is closed and freed. If the first
  line has any other byte, the socket is closed and freed in that iteration, without an answer.
  A freed socket is in no list and no table any more, the kernel does not watch its
  descriptor, and every other socket is as before.
\<close>

theorem refused_session:
  assumes "child_reachable cfg w" and k: "heap w s = Some k" "s \<in> set (sk_list w)" "ops_recv (sk_ops k) = Some Http_recv" "0 \<le> sk_fd k"
      "\<not> sk_close_on_write k" "\<not> sk_close_flag k" "pending (sk_recvbuf k) = []" "work_list w = []"
    and req: "length (line @ [CR, LF] @ header_text fs) \<le> room (sk_recvbuf k)"
      "\<nexists>xs ys. line = xs @ [CR, LF] @ ys" "length line < 2 ^ 31"
    and bad: "\<not> (\<forall>c \<in> set line. is_rfc7230_start_line c) \<or> refusable line fs"
    and room: "length HTTP_400 \<le> room (sk_sendbuf k)"
    and kernel: "\<forall>n \<in> set ns. 0 < n" "length (pending (sk_sendbuf k)) + length HTTP_400 \<le> length ns"
  shows "\<exists>w1 w2. child_event now (read_event s (line @ [CR, LF] @ header_text fs)) w = Ret (0, [], w1)
    \<and> try_recv env w1 = Ret w2
    \<and> (if \<forall>c \<in> set line. is_rfc7230_start_line c
       then \<exists>w3 m. write_events now s (take m ns) w2 = Ret (pending (sk_sendbuf k) @ HTTP_400, w3) \<and> gone w s k w3
       else gone w s k w2)"
proof -
  obtain w1 b w' where r: "child_event now (read_event s (line @ [CR, LF] @ header_text fs)) w = Ret (0, [], w1)"
    "child_ok w1" "heap w1 = (heap w)(s \<mapsto> k\<lparr>sk_recvbuf := b, sk_ts_last_io := now\<rparr>)" "work_list w1 = [s]"
    "sk_list w1 = sk_list w" "pp2sk w1 = pp2sk w" "epoll w1 = epoll w" "pp2sk w \<noteq> Some s"
    "call_recv env w1 s = Ret (-1, w')" "child_ok w'"
    "turned_away (\<forall>c \<in> set line. is_rfc7230_start_line c) w1 s (k\<lparr>sk_recvbuf := b, sk_ts_last_io := now\<rparr>) w'"
    using turned_away_round [OF child_reachable_inv [OF assms(1)] k req bad] .
  let ?k1 = "k\<lparr>sk_recvbuf := b, sk_ts_last_io := now\<rparr>"
  have k1: "heap w1 s = Some ?k1" "\<not> sk_close_flag ?k1" "\<not> sk_close_on_write ?k1"
    using k(5,6) r(3) by simp_all
  show ?thesis
  proof (cases "\<forall>c \<in> set line. is_rfc7230_start_line c")
    case False
    then have "dropped w1 s ?k1 w'"
      using r(11) k1(3) by (simp only: turned_away_def simp_thms if_False)
    moreover have "s \<in> set (sk_list w1)" "pp2sk w1 \<noteq> Some s"
      using r(5,6,8) k(2) by simp_all
    ultimately obtain w2 where "try_recv env w1 = Ret w2" "freed w1 s ?k1 w2"
      using dropped_serve [OF k1(1) _ r(4) _ k1(3) r(9,10)] by blast
    moreover from this have "gone w s k w2"
      using r(3-5,7) by (simp add: freed_def gone_def)
    ultimately show ?thesis
      using r(1) unfolding if_not_P [OF False] by blast
  next
    case True
    then have "refused w1 s ?k1 HTTP_400 w'"
      using r(11) room by (simp add: turned_away_def)
    from refused_serve [OF k1(1) r(4) k1(2) r(9,10) this] obtain w2 k2 where
      w2: "try_recv env w1 = Ret w2" "child_ok w2" "sk_close_on_write k2" "\<not> sk_close_flag k2" "sk_fd k2 = sk_fd k"
      "pending (sk_sendbuf k2) = pending (sk_sendbuf k) @ HTTP_400" "heap w2 = (heap w1)(s \<mapsto> k2)"
      "epoll w2 = (epoll w1)(sk_fd k \<mapsto> sk_events k2)" "sk_list w2 = sk_list w1" "work_list w2 = []" "pp2sk w2 = pp2sk w1"
      by auto
    have "\<exists>m w3. m \<le> length (pending (sk_sendbuf k2)) \<and> write_events now s (take m ns) w2 = Ret (pending (sk_sendbuf k2), w3)
      \<and> sent_off now w2 s k2 w3"
      using k r w2 kernel length_HTTP_400 by (intro write_events_drain [OF w2(2)]) (auto simp: works_def)
    then obtain m w3 where "write_events now s (take m ns) w2 = Ret (pending (sk_sendbuf k) @ HTTP_400, w3)" "freed w2 s k2 w3"
      using w2(3,6) by (auto simp: sent_off_def)
    moreover from this have "gone w s k w3"
      using r(3-5,7) w2(5,7-10) by (simp add: freed_def gone_def)
    ultimately show ?thesis
      using r(1) w2(1) unfolding if_P [OF True] by blast
  qed
qed

theorem output_drains_witness:
  "\<exists>w m w'. child_reachable default_cfg w
     \<and> write_events zero_timespec 1 (take m (replicate 1000 1)) w = Ret (handshake_answer (\<lambda>_. replicate 28 0x41) (bytes ''QQ=='') [], w')"
proof -
  obtain w k where w: "demo_idle w k" "pending (sk_sendbuf k) = handshake_answer (\<lambda>_. replicate 28 0x41) (bytes ''QQ=='') []"
    using demo_upgrades by blast
  have l: "length (pending (sk_sendbuf k)) = 182"
    by (simp add: w(2) length_answer)
  then have "pending (sk_sendbuf k) \<noteq> []"
    by auto
  then have k: "child_reachable default_cfg w" "heap w 1 = Some k" "1 \<in> set (sk_list w)" "0 \<le> sk_fd k" "pending (sk_sendbuf k) \<noteq> []"
    "\<not> sk_close_flag k" "\<not> sk_close_on_write k" "\<forall>n \<in> set (replicate 1000 (1 :: nat)). 0 < n"
    "length (pending (sk_sendbuf k)) \<le> length (replicate 1000 (1 :: nat))"
    using w(1) l by (simp_all add: demo_idle_def del: length_pending)
  from output_drains [OF k, of zero_timespec] k(1) w(2) show ?thesis by metis
qed

theorem refused_session_witness:
  "\<exists>w w1 w2 w3 m. child_reachable default_cfg w
     \<and> child_event zero_timespec (read_event 1 (bytes ''PUT / HTTP/1.1'' @ [CR, LF] @ header_text [])) w = Ret (0, [], w1)
     \<and> try_recv (demo_env no_dial) w1 = Ret w2
     \<and> write_events zero_timespec 1 (take m (replicate 1000 1)) w2 = Ret (HTTP_400, w3) \<and> heap w3 1 = None"
proof -
  obtain w k where w: "child_reachable default_cfg w" "sk_list w = [1]" "heap w 1 = Some k"
    "ops_recv (sk_ops k) = Some Http_recv" and f: "demo_fresh w k"
    using demo_reachable by blast
  note fs = f [unfolded demo_fresh_def]
  have k: "1 \<in> set (sk_list w)" "0 \<le> sk_fd k" "\<not> sk_close_on_write k" "\<not> sk_close_flag k" "pending (sk_recvbuf k) = []" "work_list w = []"
    "length (bytes ''PUT / HTTP/1.1'' @ [CR, LF] @ header_text []) \<le> room (sk_recvbuf k)"
    "length (bytes ''PUT / HTTP/1.1'') < 2 ^ 31"
    "length HTTP_400 \<le> room (sk_sendbuf k)" "\<forall>n \<in> set (replicate 1000 (1 :: nat)). 0 < n"
    "length (pending (sk_sendbuf k)) + length HTTP_400 \<le> length (replicate 1000 (1 :: nat))"
    using fs w(2) by (simp_all add: header_text_def bytes_def length_HTTP_400)
  have p: "pending (sk_sendbuf k) = []"
    using fs by simp
  note r = refused_session [OF w(1,3) k(1) w(4) k(2-7) demo_bad_line(2) k(8) disjI2 [OF demo_bad_line(3)] k(9-11),
      of zero_timespec "demo_env no_dial", unfolded p append_Nil if_P [OF demo_bad_line(1)] gone_def]
  then show ?thesis
    using w(1) by (metis fun_upd_same)
qed

subsection \<open>The backend goes away\<close>

definition hangup_event :: "ptr \<Rightarrow> event" where
  "hangup_event s = (write_event s 0)\<lparr>ev_events := EPOLLHUP\<rparr>"

text \<open>
  C15: Closing the connection to the backend does not take it off the work list: when the backend
  hangs up while it still waits there (its last frames had found a full client), its cell is
  freed, the list still names it, and the next iteration of the loop reads freed memory.
\<close>

theorem backend_close_dangles:
  assumes "child_reachable cfg w" "pp2sk w = Some p" "heap w p = Some k" "0 \<le> sk_fd k" "work_list w = p # ws"
  shows "\<exists>w'. child_event now (hangup_event p) w = Ret (0, [], w') \<and> heap w' p = None \<and> work_list w' = p # ws
    \<and> try_recv env w' = Fault Use_after_free"
proof -
  note ok = child_reachable_inv [OF assms(1)]
  have mem: "p \<in> set (sk_list w)"
    using ok assms(2) by (simp add: child_ok_def)
  have "ops_close (sk_ops k) = Some Pp2_close"
    using child_ok_role [OF ok mem assms(3)] assms(2) by (simp add: role_ok_def)
  moreover have hup: "EPOLLHUP AND EPOLLIN = 0" "EPOLLHUP AND EPOLLPRI = 0" "EPOLLHUP AND EPOLLOUT = 0" "EPOLLHUP AND EPOLLERR = 0"
    "EPOLLHUP \<noteq> 0"
    by (simp_all add: EPOLLIN_def EPOLLOUT_def EPOLLPRI_def EPOLLHUP_def EPOLLERR_def)
  let ?w = "(sk_destroy ((close_fd w (sk_fd k))\<lparr>sk_list := removeAll p (sk_list w)\<rparr>) p)\<lparr>pp2sk := None\<rparr>"
  have "pp2_close w p = Ret (0, ?w)"
    using assms(3) mem by (simp add: pp2_close_def sk_list_del_def close_fd_def)
  ultimately have "child_event now (hangup_event p) w = Ret (0, [], ?w)"
    using assms(3,4) hup by (simp add: child_event_def on_epoll_event_def hangup_event_def write_event_def must_close_def call_close_def Let_def)
  moreover have "heap ?w p = None" "work_list ?w = p # ws"
    using assms(5) by (simp_all add: sk_destroy_def close_fd_def)
  ultimately show ?thesis
    by (intro exI [of _ ?w]) (simp add: try_recv_def try_recv_one_def call_recv_def deref_def)
qed

theorem backend_close_dangles_witness:
  "\<exists>w w'. child_reachable default_cfg w \<and> child_event zero_timespec (hangup_event 2) w = Ret (0, [], w')
     \<and> try_recv (demo_env no_dial) w' = Fault Use_after_free"
proof -
  obtain w where w: "child_reachable default_cfg w" "pp2sk w = Some 2" "demo_linked w" "work_list w = []"
    using demo_connects by blast
  then obtain k where k: "heap w 2 = Some k" "sk_fd k = 8" "\<not> sk_close_on_write k" "\<not> sk_close_flag k" "sk_recvbuf k = zero_skb"
    by (auto simp: demo_linked_def)
  note ok = child_reachable_inv [OF w(1)]
  have mem: "2 \<in> set (sk_list w)"
    using ok w(2) by (simp add: child_ok_def)
  obtain w1 b where w1: "child_event zero_timespec (read_event 2 [0]) w = Ret (0, [], w1)"
    "heap w1 = (heap w)(2 \<mapsto> k\<lparr>sk_recvbuf := b, sk_ts_last_io := zero_timespec\<rparr>)" "work_list w1 = [2]" "pp2sk w1 = pp2sk w"
    using read_event_arrives [OF ok k(1) mem _ k(3,4) _ _ w(4), of "[0]" zero_timespec] k(2,5) by auto
  have "child_reachable default_cfg w1"
    by (rule child_reachable.step [OF w(1) child_step.event [OF w1(1)]])
  moreover from this have "\<exists>w'. child_event zero_timespec (hangup_event 2) w1 = Ret (0, [], w') \<and> heap w' 2 = None \<and> work_list w' = 2 # []
    \<and> try_recv (demo_env no_dial) w' = Fault Use_after_free"
    using w(2) w1 k(2) by (intro backend_close_dangles [of default_cfg w1 2 "k\<lparr>sk_recvbuf := b, sk_ts_last_io := zero_timespec\<rparr>"]) simp_all
  ultimately show ?thesis
    by blast
qed

end
