(* ===== verification/Together.thy ===== *)
theory Together
  imports Client Session
begin

text \<open>
  Both programs together: the request of wscat as bytes on the wire, the answer of wsd, and the
  round trip in which each accepts what the other has written.
\<close>

subsection \<open>The request on the wire\<close>

lemma put_texts_grew:
  "skb_wf b \<Longrightarrow> \<forall>t \<in> set ts. NUL \<notin> set t \<Longrightarrow> length (concat ts) \<le> room b
    \<Longrightarrow> \<exists>b'. put_texts b ts = Ret b' \<and> grew b b' (concat ts)"
proof (induction ts arbitrary: b)
  case Nil
  then show ?case
    by (simp add: grew_refl)
next
  case (Cons t ts)
  have le: "room b \<le> 1048576"
    using skb_wfD(5) [OF Cons.prems(1)] by simp
  obtain b1 where b1: "skb_put_strn b (t @ [NUL]) 0 (of_nat (length t)) = Ret (0, b1)" "grew b b1 t"
    using skb_put_strn_text [OF Cons.prems(1), of t] Cons.prems(2,3) le by auto
  obtain b2 where "put_texts b1 ts = Ret b2" "grew b1 b2 (concat ts)"
    using Cons.IH [OF grew_wf [OF b1(2)]] Cons.prems(2,3) grew_room [OF b1(2)] by auto
  then show ?case
    using b1 grew_trans [OF b1(2)] by (simp add: put_text_def)
qed

lemma put_text_grew: "skb_wf b \<Longrightarrow> NUL \<notin> set t \<Longrightarrow> length t \<le> room b \<Longrightarrow> \<exists>b'. put_text b t = Ret b' \<and> grew b b' t"
  using put_texts_grew [of b "[t]"] by (cases "put_text b t") auto

text \<open>The header fields of a configuration's request.\<close>

definition client_fields :: "wsd_config \<Rightarrow> (u8 list \<times> u8 list) list" where
  "client_fields cfg =
     (let host = bytes (hd (cfg_fhostname cfg)) in
      [(bytes ''Upgrade'', bytes '' websocket''), (bytes ''Connection'', bytes '' Upgrade''), (bytes ''Host'', SP # host),
       (bytes ''Origin'', SP # bytes (if cfg_tls cfg then ''https://'' else ''http://'') @ host)]
      @ (case cfg_sec_ws_proto cfg of None \<Rightarrow> [] | Some p \<Rightarrow> [(bytes ''Sec-WebSocket-Protocol'', SP # bytes p)])
      @ [(bytes ''Pragma'', bytes '' no-cache''), (bytes ''Cache-Control'', bytes '' no-cache''),
         (bytes ''Sec-WebSocket-Key'', SP # bytes (cfg_sec_ws_key cfg)),
         (bytes ''Sec-WebSocket-Version'', SP # bytes (cfg_sec_ws_ver cfg)),
         (bytes ''User-Agent'', SP # bytes (cfg_user_agent cfg))])"

definition field_chars :: "string \<Rightarrow> bool" where
  "field_chars s \<longleftrightarrow> (\<forall>c \<in> set (bytes s). is_rfc7230_field_value c \<and> c \<noteq> NUL) \<and> length s < 2 ^ 30"

definition token_chars :: "string \<Rightarrow> bool" where
  "token_chars s \<longleftrightarrow> field_chars s \<and> s \<noteq> [] \<and> (\<forall>c \<in> set (bytes s). \<not> is_blank c)"

definition legal_client :: "wsd_config \<Rightarrow> bool" where
  "legal_client cfg \<longleftrightarrow> cfg_fhostname cfg \<noteq> [] \<and> field_chars (hd (cfg_fhostname cfg)) \<and> legal_target (bytes (cfg_request_target cfg))
     \<and> (\<forall>p. cfg_sec_ws_proto cfg = Some p \<longrightarrow> token_chars p) \<and> token_chars (cfg_sec_ws_key cfg) \<and> length (cfg_sec_ws_key cfg) \<le> 27
     \<and> cfg_sec_ws_ver cfg = ''13'' \<and> field_chars (cfg_user_agent cfg)"

definition request_of :: "wsd_config \<Rightarrow> u8 list" where
  "request_of cfg = request_text (bytes (cfg_request_target cfg)) (client_fields cfg)"

definition proto_of :: "wsd_config \<Rightarrow> u8 list" where
  "proto_of cfg = (case cfg_sec_ws_proto cfg of None \<Rightarrow> [] | Some p \<Rightarrow> bytes p)"

lemma bytes_append [simp]: "bytes (s @ t) = bytes s @ bytes t"
  by (simp add: bytes_def)

lemma NUL_lits:
  "list_all (\<lambda>s. NUL \<notin> set (bytes s)) [''GET'', ''HTTP/1.1'', ''Upgrade: websocket'', ''Connection: Upgrade'', ''Host: '',
     ''Origin: https://'', ''Origin: http://'', ''Sec-WebSocket-Protocol: '', ''Pragma: no-cache'', ''Cache-Control: no-cache'',
     ''Sec-WebSocket-Key: '', ''Sec-WebSocket-Version: '', ''User-Agent: '', ''13'']"
  by code_simp

lemma start_line_not_NUL: "is_rfc7230_start_line c \<Longrightarrow> c \<noteq> NUL"
  by (auto simp: is_rfc7230_start_line_def is_alnum_def)

definition request_rest :: "wsd_config \<Rightarrow> u8 list list" where
  "request_rest cfg = (let req = http_request cfg in
       [rt_http_ver req, [CR, LF],
         bytes ''Upgrade: websocket'' @ [CR, LF],
         bytes ''Connection: Upgrade'' @ [CR, LF],
         bytes ''Host: '', rt_host req, [CR, LF],
         if cfg_tls cfg then bytes ''Origin: https://'' else bytes ''Origin: http://'',
         rt_origin req, [CR, LF]]
        @ (if rt_sec_ws_proto req = [] then []
           else [bytes ''Sec-WebSocket-Protocol: '', rt_sec_ws_proto req, [CR, LF]])
        @ [bytes ''Pragma: no-cache'' @ [CR, LF],
           bytes ''Cache-Control: no-cache'' @ [CR, LF],
           bytes ''Sec-WebSocket-Key: '', rt_sec_ws_key req, [CR, LF],
           bytes ''Sec-WebSocket-Version: '', rt_sec_ws_ver req, [CR, LF],
           bytes ''User-Agent: '', rt_user_agent req, [CR, LF, CR, LF]])"

lemma bytes_split:
  "bytes ''Upgrade: websocket'' = bytes ''Upgrade'' @ COLON # bytes '' websocket''"
  "bytes ''Connection: Upgrade'' = bytes ''Connection'' @ COLON # bytes '' Upgrade''"
  "bytes ''Host: '' = bytes ''Host'' @ [COLON, SP]"
  "bytes ''Origin: https://'' = bytes ''Origin'' @ COLON # SP # bytes ''https://''"
  "bytes ''Origin: http://'' = bytes ''Origin'' @ COLON # SP # bytes ''http://''"
  "bytes ''Sec-WebSocket-Protocol: '' = bytes ''Sec-WebSocket-Protocol'' @ [COLON, SP]"
  "bytes ''Pragma: no-cache'' = bytes ''Pragma'' @ COLON # bytes '' no-cache''"
  "bytes ''Cache-Control: no-cache'' = bytes ''Cache-Control'' @ COLON # bytes '' no-cache''"
  "bytes ''Sec-WebSocket-Key: '' = bytes ''Sec-WebSocket-Key'' @ [COLON, SP]"
  "bytes ''Sec-WebSocket-Version: '' = bytes ''Sec-WebSocket-Version'' @ [COLON, SP]"
  "bytes ''User-Agent: '' = bytes ''User-Agent'' @ [COLON, SP]"
  "bytes ''GET '' = bytes ''GET'' @ [SP]" "bytes '' HTTP/1.1'' = SP # bytes ''HTTP/1.1''"
  by code_simp+

lemma token_charsD: "token_chars p \<Longrightarrow> bytes p \<noteq> []"
  by (simp add: token_chars_def bytes_def)

lemma request_of_texts:
  assumes "legal_client cfg"
  shows "request_of cfg = bytes ''GET'' @ [SP] @ bytes (cfg_request_target cfg) @ [SP] @ concat (request_rest cfg)"
proof (cases "cfg_sec_ws_proto cfg")
  case None
  then show ?thesis
    unfolding request_of_def request_rest_def request_text_def request_line_def bytes_split
    by (simp add: client_fields_def http_request_def header_text_def field_line_def Let_def)
next
  case (Some p)
  then have "bytes p \<noteq> []"
    using assms token_charsD by (simp add: legal_client_def)
  then show ?thesis
    unfolding request_of_def request_rest_def request_text_def request_line_def bytes_split
    by (simp add: client_fields_def http_request_def header_text_def field_line_def Let_def Some)
qed

lemma legal_texts:
  assumes "legal_client cfg"
  shows "\<forall>t \<in> set (request_rest cfg). NUL \<notin> set t" "NUL \<notin> set (bytes (cfg_request_target cfg))"
proof -
  note L = assms [unfolded legal_client_def]
  have f: "NUL \<notin> set (bytes s)" if "field_chars s" for s
    using that by (auto simp: field_chars_def)
  have lits: "NUL \<notin> set (bytes s)" if "s \<in> set [''GET'', ''HTTP/1.1'', ''Upgrade: websocket'', ''Connection: Upgrade'', ''Host: '',
     ''Origin: https://'', ''Origin: http://'', ''Sec-WebSocket-Protocol: '', ''Pragma: no-cache'', ''Cache-Control: no-cache'',
     ''Sec-WebSocket-Key: '', ''Sec-WebSocket-Version: '', ''User-Agent: '', ''13'']" for s
    using NUL_lits that unfolding list_all_iff by blast
  show "\<forall>t \<in> set (request_rest cfg). NUL \<notin> set t"
    using L f [of "hd (cfg_fhostname cfg)"] f [of "cfg_sec_ws_key cfg"] f [of "cfg_user_agent cfg"] f
    by (simp add: request_rest_def http_request_def Let_def token_chars_def lits split: option.split)
  show "NUL \<notin> set (bytes (cfg_request_target cfg))"
    using L start_line_not_NUL by (auto simp: legal_target_def)
qed

lemma put_request:
  assumes "legal_client cfg" "skb_wf b" "length (request_of cfg) \<le> room b"
  shows "\<exists>b'. skb_put_http_req (cfg_tls cfg) b (http_request cfg) = Ret (0, b') \<and> grew b b' (request_of cfg)"
proof -
  note t = request_of_texts [OF assms(1)] and n = legal_texts [OF assms(1)]
  have r: "3 + 1 + length (bytes (cfg_request_target cfg)) + 1 + length (concat (request_rest cfg)) \<le> room b"
    using assms(3) unfolding t by simp
  have nul: "NUL \<notin> set (bytes ''GET'')"
    using NUL_lits by simp
  obtain b1 where b1: "put_text b (bytes ''GET'') = Ret b1" "grew b b1 (bytes ''GET'')"
    using put_text_grew [OF assms(2) nul] r by auto
  obtain b2 where b2: "skb_put8 b1 SP = Ret b2" "grew b1 b2 [SP]"
    using skb_put8_grew [OF grew_wf [OF b1(2)], of SP] grew_room [OF b1(2)] r by auto
  obtain b3 where b3: "put_text b2 (bytes (cfg_request_target cfg)) = Ret b3" "grew b2 b3 (bytes (cfg_request_target cfg))"
    using put_text_grew [OF grew_wf [OF b2(2)] n(2)] grew_room [OF b1(2)] grew_room [OF b2(2)] r by auto
  obtain b4 where b4: "skb_put8 b3 SP = Ret b4" "grew b3 b4 [SP]"
    using skb_put8_grew [OF grew_wf [OF b3(2)], of SP] grew_room [OF b1(2)] grew_room [OF b2(2)] grew_room [OF b3(2)] r by auto
  obtain b5 where b5: "put_texts b4 (request_rest cfg) = Ret b5" "grew b4 b5 (concat (request_rest cfg))"
    using put_texts_grew [OF grew_wf [OF b4(2)] n(1)] grew_room [OF b1(2)] grew_room [OF b2(2)] grew_room [OF b3(2)]
      grew_room [OF b4(2)] r by auto
  have "grew b b5 (request_of cfg)"
    unfolding t by (intro grew_trans [OF b1(2)] grew_trans [OF b2(2)] grew_trans [OF b3(2)] grew_trans [OF b4(2)] b5(2))
  moreover have "skb_put_http_req (cfg_tls cfg) b (http_request cfg) = Ret (0, b5)"
    using b1(1) b2(1) b3(1) b4(1) b5(1) by (simp add: skb_put_http_req_def request_rest_def http_request_def Let_def)
  ultimately show ?thesis
    by blast
qed

lemma field_names:
  "fld_of (bytes ''Upgrade'') = Some F_upgrade" "fld_of (bytes ''Connection'') = Some F_conn" "fld_of (bytes ''Host'') = Some F_host"
  "fld_of (bytes ''Origin'') = Some F_origin" "fld_of (bytes ''Sec-WebSocket-Protocol'') = Some F_proto"
  "fld_of (bytes ''Pragma'') = None" "fld_of (bytes ''Cache-Control'') = None" "fld_of (bytes ''Sec-WebSocket-Key'') = Some F_key"
  "fld_of (bytes ''Sec-WebSocket-Version'') = Some F_ver" "fld_of (bytes ''User-Agent'') = Some F_agent"
  by code_simp+

definition header_names :: "string list" where
  "header_names = [''Upgrade'', ''Connection'', ''Host'', ''Origin'',
     ''Sec-WebSocket-Protocol'', ''Pragma'', ''Cache-Control'', ''Sec-WebSocket-Key'', ''Sec-WebSocket-Version'', ''User-Agent'',
     ''Sec-WebSocket-Accept'']"

definition value_literals :: "string list" where
  "value_literals = ['' websocket'', '' Upgrade'', ''http://'', ''https://'',
     '' no-cache'', ''13'']"

lemma legal_literals:
  "list_all (\<lambda>n. list_all is_rfc7230_header_field (bytes n) \<and> length n < 30) header_names"
  "list_all (\<lambda>v. list_all is_rfc7230_field_value (bytes v) \<and> length v < 30) value_literals"
  "is_rfc7230_field_value SP"
  by code_simp+

lemma legal_fieldI:
  assumes "n \<in> set header_names"
    and "\<forall>c \<in> set v. is_rfc7230_field_value c" "length v \<le> 2 ^ 30 + 20"
  shows "legal_field (bytes n, v)"
proof -
  have "list_all is_rfc7230_header_field (bytes n) \<and> length n < 30"
    using legal_literals(1) assms(1) unfolding list_all_iff by blast
  then show ?thesis
    using assms(2,3) by (simp add: legal_field_def field_line_def list_all_iff)
qed

lemma names_mem:
  "''Upgrade'' \<in> set header_names" "''Connection'' \<in> set header_names" "''Host'' \<in> set header_names" "''Origin'' \<in> set header_names"
  "''Sec-WebSocket-Protocol'' \<in> set header_names" "''Pragma'' \<in> set header_names" "''Cache-Control'' \<in> set header_names"
  "''Sec-WebSocket-Key'' \<in> set header_names" "''Sec-WebSocket-Version'' \<in> set header_names" "''User-Agent'' \<in> set header_names"
  "''Sec-WebSocket-Accept'' \<in> set header_names" "'' websocket'' \<in> set value_literals" "'' Upgrade'' \<in> set value_literals"
  "''http://'' \<in> set value_literals" "''https://'' \<in> set value_literals" "'' no-cache'' \<in> set value_literals" "''13'' \<in> set value_literals"
  by (simp_all add: header_names_def value_literals_def)

lemma literal_value:
  "v \<in> set value_literals \<Longrightarrow>
   (\<forall>c \<in> set (bytes v). is_rfc7230_field_value c) \<and> length v < 30"
  using legal_literals(2) unfolding list_all_iff by blast

lemma client_fields_legal:
  assumes "legal_client cfg"
  shows "\<forall>nv \<in> set (client_fields cfg). legal_field nv"
proof -
  note L = assms [unfolded legal_client_def]
  have f: "(\<forall>c \<in> set (bytes s). is_rfc7230_field_value c) \<and> length s < 2 ^ 30" if "field_chars s" for s
    using that by (auto simp: field_chars_def)
  have fld: "legal_field (bytes n, SP # bytes s)" if "n \<in> set header_names" "field_chars s" for n s
    using f [OF that(2)] legal_literals(3) by (intro legal_fieldI [OF that(1)]) auto
  have lit: "legal_field (bytes n, bytes v)" if "n \<in> set header_names" "v \<in> set value_literals" for n v
    using literal_value [OF that(2)] by (intro legal_fieldI [OF that(1)]) auto
  have origin: "legal_field (bytes ''Origin'', SP # bytes (if cfg_tls cfg then ''https://'' else ''http://'') @ bytes (hd (cfg_fhostname cfg)))"
    using f [of "hd (cfg_fhostname cfg)"] L literal_value [OF names_mem(14)] literal_value [OF names_mem(15)] legal_literals(3)
    by (intro legal_fieldI [OF names_mem(4)]) (auto split: if_splits)
  have ver: "field_chars ''13''"
    using literal_value [OF names_mem(17)] by (simp add: field_chars_def) (simp add: bytes_def)
  show ?thesis
    using L fld [of "''Host''" "hd (cfg_fhostname cfg)"] fld [of "''Sec-WebSocket-Protocol''"] fld [of "''Sec-WebSocket-Key''" "cfg_sec_ws_key cfg"]
      fld [of "''Sec-WebSocket-Version''" "''13''"] fld [of "''User-Agent''" "cfg_user_agent cfg"] ver
      lit [of "''Upgrade''" "'' websocket''"] lit [of "''Connection''" "'' Upgrade''"] lit [of "''Pragma''" "'' no-cache''"]
      lit [of "''Cache-Control''" "'' no-cache''"] origin
    unfolding client_fields_def Let_def token_chars_def set_append set_simps ball_Un
    by (auto simp: names_mem split: option.split)
qed

lemma token_values:
  "token_value ''websocket'' (bytes '' websocket'')" "token_value ''Upgrade'' (bytes '' Upgrade'')"
proof -
  have c: "take (length ''websocket'') (map to_lower (bytes ''websocket'')) = map to_lower (bytes ''websocket'')"
    "take (length ''Upgrade'') (map to_lower (bytes ''Upgrade'')) = map to_lower (bytes ''Upgrade'')"
    "COMMA \<notin> set (bytes '' websocket'')" "COMMA \<notin> set (bytes '' Upgrade'')"
    by code_simp+
  have t: "tidy (bytes '' websocket'') (bytes ''websocket'')" "tidy (bytes '' Upgrade'') (bytes ''Upgrade'')"
    using tidy_blank [of "bytes ''websocket''"] tidy_blank [of "bytes ''Upgrade''"] by (simp_all add: bytes_def is_blank_def)
  have ne: "bytes '' websocket'' \<noteq> []" "bytes '' Upgrade'' \<noteq> []"
    by (simp_all add: bytes_def)
  have "has_token ''websocket'' [(bytes '' websocket'', bytes ''websocket'')]"
    using c(1,3) t(1) ne by (simp del: length_0_conv list.size)
  then show "token_value ''websocket'' (bytes '' websocket'')"
    unfolding token_value_def by (intro exI [of _ "[(bytes '' websocket'', bytes ''websocket'')]"]) simp
  have "has_token ''Upgrade'' [(bytes '' Upgrade'', bytes ''Upgrade'')]"
    using c(2,4) t(2) ne by (simp del: length_0_conv list.size)
  then show "token_value ''Upgrade'' (bytes '' Upgrade'')"
    unfolding token_value_def by (intro exI [of _ "[(bytes '' Upgrade'', bytes ''Upgrade'')]"]) simp
qed

lemma client_fields_upgrade:
  assumes "legal_client cfg"
  shows "upgrade_header (add_fields (client_fields cfg) Map.empty) (bytes (cfg_sec_ws_key cfg)) (proto_of cfg)"
proof -
  note L = assms [unfolded legal_client_def]
  have tidy: "tidy (SP # bytes s) (bytes s) \<and> NUL \<notin> set (bytes s)" if "token_chars s" for s
    using that tidy_blank [of "bytes s"] token_charsD [OF that] by (auto simp: token_chars_def field_chars_def)
  have "tidy (SP # bytes ''13'') (bytes ''13'')"
    using tidy_blank [of "bytes ''13''"] by (simp add: bytes_def is_blank_def)
  then show ?thesis
    using L tidy [of "cfg_sec_ws_key cfg"] tidy token_values
    by (auto simp: upgrade_header_def client_fields_def Let_def add_field_def field_names header_says_def proto_of_def
        split: option.split)
qed

subsection \<open>The answer on the wire\<close>

definition answer_line :: "u8 list" where
  "answer_line = bytes ''HTTP/1.1 101 Switching Protocols''"

definition answer_fields :: "u8 list \<Rightarrow> u8 list \<Rightarrow> (u8 list \<times> u8 list) list" where
  "answer_fields d proto =
     [(bytes ''Upgrade'', bytes '' websocket''), (bytes ''Connection'', bytes '' Upgrade''), (bytes ''Sec-WebSocket-Accept'', SP # d),
      (bytes ''Sec-WebSocket-Version'', SP # bytes ''13''), (bytes ''Sec-WebSocket-Protocol'', SP # proto)]"

lemma answer_text: "handshake_answer digest k proto = answer_line @ [CR, LF] @ header_text (answer_fields (digest (k @ WS_GUID)) proto)"
proof -
  have "bytes ''Sec-WebSocket-Accept: '' = bytes ''Sec-WebSocket-Accept'' @ [COLON, SP]"
    by code_simp
  then show ?thesis
    unfolding handshake_answer_def HTTP_101_def WS_VER_def WS_PROTO_def FLD_SEC_WS_VER_VAL_def bytes_split answer_line_def
    by (simp add: answer_fields_def header_text_def field_line_def)
qed

lemma answer_line_legal: "\<forall>c \<in> set answer_line. is_rfc7230_start_line c" "length answer_line < 2 ^ 31"
proof -
  have "list_all is_rfc7230_start_line answer_line"
    by code_simp
  then show "\<forall>c \<in> set answer_line. is_rfc7230_start_line c"
    by (simp add: list_all_iff)
  show "length answer_line < 2 ^ 31"
    by (simp add: answer_line_def bytes_def)
qed

definition value_bytes :: "u8 list \<Rightarrow> bool" where
  "value_bytes v \<longleftrightarrow> (\<forall>c \<in> set v. is_rfc7230_field_value c) \<and> length v \<le> 2 ^ 30"

lemma answer_fields_legal:
  assumes "value_bytes d" "value_bytes proto"
  shows "\<forall>nv \<in> set (answer_fields d proto). legal_field nv"
proof -
  have v: "legal_field (bytes n, SP # x)" if "n \<in> set header_names" "value_bytes x" for n x
    using that(2) legal_literals(3) by (intro legal_fieldI [OF that(1)]) (auto simp: value_bytes_def)
  have l: "legal_field (bytes n, bytes x)" if "n \<in> set header_names" "x \<in> set value_literals" for n x
    using literal_value [OF that(2)] by (intro legal_fieldI [OF that(1)]) auto
  have "value_bytes (bytes ''13'')"
    using literal_value [OF names_mem(17)] by (simp add: value_bytes_def)
  then show ?thesis
    using assms by (simp add: answer_fields_def v l names_mem)
qed

lemma answer_accepted:
  assumes k: "heap w c = Some k" "skb_wf (sk_recvbuf k)" "pending (sk_recvbuf k) = handshake_answer digest key proto"
    and legal: "value_bytes (digest (key @ WS_GUID))" "value_bytes proto"
    and fresh: "heap w f = None" "epoll w 0 = None"
  shows "\<exists>w' k'. wssk_http_recv (Some f) True w c = Ret (0, w') \<and> heap w' c = Some k' \<and> ops_recv (sk_ops k') = Some Wssk_ws_recv
    \<and> pending (sk_recvbuf k') = [] \<and> fdin w' = Some f"
proof -
  let ?fs = "answer_fields (digest (key @ WS_GUID)) proto"
  let ?m = "skb_data (sk_recvbuf k)" and ?p = "unat (rdpos (sk_recvbuf k))"
  have "pending (sk_recvbuf k) = answer_line @ [CR, LF] @ header_text ?fs @ []"
    using k(3) by (simp add: answer_text)
  note F = http_recv_first_line [OF k(1,2) this answer_line_legal]
  obtain ys where d: "drop ?p ?m = answer_line @ [CR, LF] @ header_text ?fs @ ys"
    using F(4) by blast
  let ?q = "?p + length answer_line + 2"
  have q: "drop ?q ?m = header_text ?fs @ ys"
    using arg_cong [OF d, of "drop (length answer_line + 2)"] by (simp add: ac_simps)
  have le: "?q \<le> length ?m"
    using drop_len [OF d F(5)] by simp
  obtain req r where h: "header_loop ?m (Some ?q) null_http_req = Ret (0, req, r, WSD_CHECKERRNO)"
    using header_loop_start [OF q le answer_fields_legal [OF legal] shows_header_null] by blast
  have cf: "c \<noteq> f"
    using k(1) fresh(1) by auto
  have "pending (skb_reset (sk_recvbuf k)) = []"
    using skb_reset_ok [of "sk_recvbuf k"] skb_wfD(1) [OF k(2)] by simp
  then show ?thesis
    using k(1) F(2,3) h fresh cf
    by (simp add: wssk_http_recv_def Let_def sk_init_def register_for_events_def zero_sk_def)
qed

subsection \<open>Both ends\<close>

text \<open>
  C5: The two programs understand each other. The request wscat builds from any legal
  configuration, once it has crossed the network, is accepted by the server, whose answer, once
  it has crossed, is accepted by wscat: then both ends are in websocket mode. The server's
  subprotocol has to be the client's if it demands one, and the digest is 28 printable bytes.
\<close>

theorem upgrade_roundtrip:
  assumes client: "heap wc c = Some kc" "skb_wf (sk_sendbuf kc)" "pending (sk_sendbuf kc) = []"
      "legal_client (wsd_cfg wc)" "length (request_of (wsd_cfg wc)) \<le> room (sk_sendbuf kc)"
    and server: "heap w s = Some k" "registered w k" "skb_wf (sk_sendbuf k)" "skb_wf (sk_recvbuf k)"
      "decode_handshake (sk_proto k) = Some Ws_decode_handshake"
    and demanded: "\<forall>p. cfg_sec_ws_proto (wsd_cfg w) = Some p \<longrightarrow> proto_of (wsd_cfg wc) = bytes p"
    and digest: "length (digest (bytes (cfg_sec_ws_key (wsd_cfg wc)) @ WS_GUID)) = 28"
      "value_bytes (digest (bytes (cfg_sec_ws_key (wsd_cfg wc)) @ WS_GUID))"
    and room: "length (handshake_answer digest (bytes (cfg_sec_ws_key (wsd_cfg wc))) (proto_of (wsd_cfg wc))) < room (sk_sendbuf k)"
  shows "\<exists>wc' kc'. create_http_req wc c = Ret (0, wc') \<and> heap wc' c = Some kc'
    \<and> (pending (sk_recvbuf k) = pending (sk_sendbuf kc') \<longrightarrow>
       (\<exists>w' k' answer. http_recv digest w s = Ret (0, w') \<and> heap w' s = Some k' \<and> ops_recv (sk_ops k') = Some Ws_recv
          \<and> pending (sk_sendbuf k') = pending (sk_sendbuf k) @ answer
          \<and> (\<forall>v kv. heap v c = Some kv \<and> skb_wf (sk_recvbuf kv) \<and> pending (sk_recvbuf kv) = answer \<and> heap v f = None \<and> epoll v 0 = None \<longrightarrow>
               (\<exists>v' kv'. wssk_http_recv (Some f) True v c = Ret (0, v') \<and> heap v' c = Some kv' \<and> ops_recv (sk_ops kv') = Some Wssk_ws_recv))))"
proof -
  let ?cfg = "wsd_cfg wc" and ?key = "bytes (cfg_sec_ws_key (wsd_cfg wc))" and ?proto = "proto_of (wsd_cfg wc)"
  note L = client(4) [unfolded legal_client_def]
  obtain b where b: "skb_put_http_req (cfg_tls ?cfg) (sk_sendbuf kc) (http_request ?cfg) = Ret (0, b)" "grew (sk_sendbuf kc) b (request_of ?cfg)"
    using put_request [OF client(4,2,5)] by blast
  let ?kc = "kc\<lparr>sk_sendbuf := b\<rparr>"
  have create: "create_http_req wc c = Ret (0, put_sk wc c ?kc)"
    using client(1) b(1) L by (simp add: create_http_req_def)
  have sent: "pending (sk_sendbuf ?kc) = request_text (bytes (cfg_request_target ?cfg)) (client_fields ?cfg) @ []"
    using b(2) client(3) by (simp add: grew_def request_of_def)
  have target: "legal_target (bytes (cfg_request_target ?cfg))"
    using L by blast
  have proto: "value_bytes ?proto"
    using L by (auto simp: proto_of_def value_bytes_def token_chars_def field_chars_def split: option.split)
  have serve: "\<exists>w' k' answer. http_recv digest w s = Ret (0, w') \<and> heap w' s = Some k' \<and> ops_recv (sk_ops k') = Some Ws_recv
      \<and> pending (sk_sendbuf k') = pending (sk_sendbuf k) @ answer \<and> answer = handshake_answer digest ?key ?proto"
    if crossed: "pending (sk_recvbuf k) = pending (sk_sendbuf ?kc)"
  proof -
    obtain w' k' sb rb where "http_recv digest w s = Ret (0, w')" "heap w' = (heap w)(s \<mapsto> k')"
      "k' = (ws_mode k)\<lparr>sk_sendbuf := sb, sk_recvbuf := rb, sk_events := sk_events k OR EPOLLOUT\<rparr>"
      "pending sb = pending (sk_sendbuf k) @ handshake_answer digest ?key ?proto"
      using http_recv_run [OF server crossed [unfolded sent] target client_fields_legal [OF client(4)]
          client_fields_upgrade [OF client(4)] demanded digest(1) room] by blast
    then show ?thesis
      by (simp add: ws_mode_def)
  qed
  have accept: "\<exists>v' kv'. wssk_http_recv (Some f) True v c = Ret (0, v') \<and> heap v' c = Some kv' \<and> ops_recv (sk_ops kv') = Some Wssk_ws_recv"
    if "heap v c = Some kv" "skb_wf (sk_recvbuf kv)" "pending (sk_recvbuf kv) = handshake_answer digest ?key ?proto"
      "heap v f = None" "epoll v 0 = None" for v kv
    using answer_accepted [OF that(1-3) digest(2) proto that(4,5)] by blast
  have "heap (put_sk wc c ?kc) c = Some ?kc"
    by simp
  then show ?thesis
    using create serve accept by blast
qed

definition demo_cfg :: wsd_config where
  "demo_cfg = default_cfg\<lparr>cfg_fhostname := [''localhost''], cfg_request_target := ''/chat'', cfg_sec_ws_ver := ''13'',
     cfg_sec_ws_key := ''QQ=='', cfg_user_agent := ''wscat'', cfg_sec_ws_proto := Some ''a''\<rparr>"

lemma demo_cfg_legal: "legal_client demo_cfg" "length (request_of demo_cfg) < 1000"
proof -
  have c: "list_all (\<lambda>s. list_all (\<lambda>c. is_rfc7230_field_value c \<and> c \<noteq> NUL) (bytes s)) [''localhost'', ''QQ=='', ''wscat'', ''a'']"
    "list_all (\<lambda>c. is_rfc7230_start_line c \<and> c \<noteq> SP) (bytes ''/chat'')" "hd (bytes ''/chat'') \<noteq> 0x2a" "bytes ''/chat'' \<noteq> []"
    "list_all (\<lambda>c. \<not> is_blank c) (bytes ''QQ=='')" "list_all (\<lambda>c. \<not> is_blank c) (bytes ''a'')"
    by code_simp+
  show "legal_client demo_cfg"
    using c by (simp add: legal_client_def demo_cfg_def field_chars_def token_chars_def legal_target_def list_all_iff)
  show "length (request_of demo_cfg) < 1000"
    by (simp add: request_of_def request_text_def request_line_def client_fields_def demo_cfg_def default_cfg_def header_text_def
        field_line_def Let_def)
qed

theorem upgrade_roundtrip_witness:
  "\<exists>wc' k w' k'. create_http_req ((init_world demo_cfg)\<lparr>heap := [1 \<mapsto> zero_sk]\<rparr>) 1 = Ret (0, wc')
     \<and> http_recv (\<lambda>_. replicate 28 0x41) (demo_http_world\<lparr>heap := [1 \<mapsto> k]\<rparr>) 1 = Ret (0, w')
     \<and> heap w' 1 = Some k' \<and> ops_recv (sk_ops k') = Some Ws_recv"
proof -
  let ?wc = "(init_world demo_cfg)\<lparr>heap := [1 \<mapsto> zero_sk]\<rparr>" and ?k = "demo_http\<lparr>sk_recvbuf := skb_of (request_of demo_cfg)\<rparr>"
  let ?w = "demo_http_world\<lparr>heap := [1 \<mapsto> demo_http\<lparr>sk_recvbuf := skb_of (request_of demo_cfg)\<rparr>]\<rparr>"
  have z: "skb_wf (sk_sendbuf zero_sk)" "pending (sk_sendbuf zero_sk) = []" "room (sk_sendbuf zero_sk) = 1048576"
    by (simp_all add: zero_sk_def)
  have cfg: "wsd_cfg ?wc = demo_cfg" "heap ?wc 1 = Some zero_sk"
    by (simp_all add: init_world_def)
  have rb: "skb_wf (sk_recvbuf ?k)" "pending (sk_recvbuf ?k) = request_of demo_cfg"
    using demo_cfg_legal(2) by (simp_all add: skb_of_simps)
  have k: "heap ?w 1 = Some ?k" "registered ?w ?k" "skb_wf (sk_sendbuf ?k)" "decode_handshake (sk_proto ?k) = Some Ws_decode_handshake"
    "cfg_sec_ws_proto (wsd_cfg ?w) = None" "room (sk_sendbuf ?k) = 1048576" "pending (sk_sendbuf ?k) = []"
    by (simp_all add: demo_http_world_def demo_http_def registered_def init_world_def default_cfg_def zero_sk_def)
  have d: "value_bytes (replicate 28 0x41)"
    by (simp add: value_bytes_def is_rfc7230_field_value_def is_rfc7230_start_line_def is_alnum_def)
  have room: "length (handshake_answer (\<lambda>_. replicate 28 0x41) (bytes (cfg_sec_ws_key (wsd_cfg ?wc))) (proto_of (wsd_cfg ?wc))) < room (sk_sendbuf ?k)"
    unfolding k(6) cfg(1) by (simp add: length_answer proto_of_def demo_cfg_def)
  obtain b where b: "create_http_req ?wc 1 = Ret (0, put_sk ?wc 1 (zero_sk\<lparr>sk_sendbuf := b\<rparr>))" "pending b = request_of demo_cfg"
  proof -
    have "length (request_of demo_cfg) \<le> room (sk_sendbuf zero_sk)"
      using demo_cfg_legal(2) by (simp add: z)
    from put_request [OF demo_cfg_legal(1) z(1) this] show ?thesis
      using that z(2) by (auto simp: create_http_req_def init_world_def grew_def demo_cfg_def)
  qed
  have c: "heap ?wc 1 = Some zero_sk" "legal_client (wsd_cfg ?wc)" "length (request_of (wsd_cfg ?wc)) \<le> room (sk_sendbuf zero_sk)"
    using demo_cfg_legal by (simp_all add: init_world_def z)
  have dem: "\<forall>p. cfg_sec_ws_proto (wsd_cfg ?w) = Some p \<longrightarrow> proto_of (wsd_cfg ?wc) = bytes p"
    by (simp only: k(5)) simp
  have len: "length ((\<lambda>_. replicate 28 0x41) (bytes (cfg_sec_ws_key (wsd_cfg ?wc)) @ WS_GUID)) = 28"
    by simp
  note R = upgrade_roundtrip [OF c(1) z(1,2) c(2,3) k(1-3) rb(1) k(4) dem len d room, of 2]
  have sent: "pending (sk_recvbuf ?k) = pending (sk_sendbuf (zero_sk\<lparr>sk_sendbuf := b\<rparr>))"
    using rb(2) b(2) by simp
  obtain wc' kc' where wc': "create_http_req ?wc 1 = Ret (0, wc')" "heap wc' 1 = Some kc'"
    "pending (sk_recvbuf ?k) = pending (sk_sendbuf kc') \<longrightarrow> (\<exists>w' k'. http_recv (\<lambda>_. replicate 28 0x41) ?w 1 = Ret (0, w')
       \<and> heap w' 1 = Some k' \<and> ops_recv (sk_ops k') = Some Ws_recv)"
    using R by metis
  have "kc' = zero_sk\<lparr>sk_sendbuf := b\<rparr>"
    using wc'(1,2) b(1) by auto
  then have "\<exists>w' k'. http_recv (\<lambda>_. replicate 28 0x41) ?w 1 = Ret (0, w') \<and> heap w' 1 = Some k' \<and> ops_recv (sk_ops k') = Some Ws_recv"
    using wc'(3) sent by blast
  then show ?thesis
    using wc'(1) by blast
qed

end
