(* ===== verification/Secure.thy ===== *)
theory Secure
  imports Together
begin

text \<open>
  The TLS connection of wscat over whole runs: the stream of bytes that is handed to OpenSSL and
  the modes of its handlers, whatever OpenSSL answers.
\<close>

subsection \<open>The stream through OpenSSL\<close>

text \<open>An event on the connection: what the kernel would do, which TLS never asks, and what OpenSSL answers.\<close>

datatype tls_event = Tls_readable io_in tls_answers | Tls_writable io_out tls_answers

fun tls_step :: "tls_event \<Rightarrow> world \<Rightarrow> ptr \<Rightarrow> (int \<times> u8 list \<times> world) outcome" where
  "tls_step (Tls_readable io ta) w s = obind (wscat_call_read ta io w s) (\<lambda>(rv, w). Ret (rv, [], w))"
| "tls_step (Tls_writable io ta) w s = wscat_call_write ta io w s"

text \<open>Whether an event completes a handshake of the socket.\<close>

fun completes :: "tls_event \<Rightarrow> sk \<Rightarrow> bool" where
  "completes (Tls_readable io ta) k \<longleftrightarrow> ops_read (sk_ops k) = Some Wssk_tls_handshake_read \<and> ta_handshake ta = None"
| "completes (Tls_writable io ta) k \<longleftrightarrow> ops_write (sk_ops k) = Some Wssk_tls_handshake_write \<and> ta_handshake ta = None"

text \<open>A run, whatever the calls return: how many handshakes it completes, and what it hands to \<open>SSL_write\<close>.\<close>

fun tls_run :: "tls_event list \<Rightarrow> world \<Rightarrow> ptr \<Rightarrow> (nat \<times> u8 list \<times> world) outcome" where
  "tls_run [] w s = Ret (0, [], w)"
| "tls_run (ev # evs) w s =
     obind (deref w s) (\<lambda>k.
     obind (tls_step ev w s) (\<lambda>(rv, out, w).
     obind (tls_run evs w s) (\<lambda>(n, sent, w).
     Ret (if completes ev k then Suc n else n, out @ sent, w))))"

definition tls_paired :: "sk \<Rightarrow> bool" where
  "tls_paired k \<longleftrightarrow> tls_handshake_mode k = k \<or> tls_data_mode k = k"

text \<open>The socket is in one of the two modes and ready to send.\<close>

definition tls_ok :: "world \<Rightarrow> sk \<Rightarrow> bool" where
  "tls_ok w k \<longleftrightarrow> registered w k \<and> 0 \<le> sk_fd k \<and> skb_wf (sk_sendbuf k) \<and> skb_wf (sk_recvbuf k)
     \<and> rdpos (sk_sendbuf k) = 0 \<and> tls_paired k"

definition tls_sent :: "wsd_config \<Rightarrow> world \<Rightarrow> ptr \<Rightarrow> nat \<Rightarrow> u8 list \<Rightarrow> bool" where
  "tls_sent cfg w s n sent \<longleftrightarrow> (\<exists>k. heap w s = Some k \<and> wsd_cfg w = cfg \<and> tls_ok w k
     \<and> sent @ pending (sk_sendbuf k) = concat (replicate n (request_of cfg)))"

lemma tls_modes:
  "tls_paired (tls_handshake_mode k)" "tls_paired (tls_data_mode k)"
  "sk_fd (tls_handshake_mode k) = sk_fd k" "sk_fd (tls_data_mode k) = sk_fd k"
  "sk_events (tls_handshake_mode k) = sk_events k" "sk_events (tls_data_mode k) = sk_events k"
  "sk_sendbuf (tls_handshake_mode k) = sk_sendbuf k" "sk_sendbuf (tls_data_mode k) = sk_sendbuf k"
  "sk_recvbuf (tls_handshake_mode k) = sk_recvbuf k" "sk_recvbuf (tls_data_mode k) = sk_recvbuf k"
  by (simp_all add: tls_paired_def tls_handshake_mode_def tls_data_mode_def)

lemma tls_mode_ops:
  "tls_handshake_mode k = k \<Longrightarrow> ops_read (sk_ops k) = Some Wssk_tls_handshake_read \<and> ops_write (sk_ops k) = Some Wssk_tls_handshake_write"
  "tls_data_mode k = k \<Longrightarrow> ops_read (sk_ops k) = Some Wssk_tls_read \<and> ops_write (sk_ops k) = Some Wssk_tls_write"
  by (cases k; auto simp: tls_handshake_mode_def tls_data_mode_def; metis ops.select_convs(2,3) ops.update_convs(2,3) ops.surjective)+

lemma tls_mode_keeps:
  "tls_ok w k \<Longrightarrow> tls_ok w (tls_handshake_mode k)" "tls_ok w k \<Longrightarrow> tls_ok w (tls_data_mode k)"
  by (simp_all add: tls_ok_def tls_modes registered_def)

lemma tls_paired_simps [simp]:
  "tls_paired (k\<lparr>sk_events := ev\<rparr>) = tls_paired k" "tls_paired (k\<lparr>sk_sendbuf := b\<rparr>) = tls_paired k"
  "tls_paired (k\<lparr>sk_recvbuf := b\<rparr>) = tls_paired k"
  by (cases k; simp add: tls_paired_def tls_handshake_mode_def tls_data_mode_def)+

lemma room_front:
  assumes "skb_wf b" "rdpos b = 0"
  shows "room b = 1048576 - length (pending b)"
  using skb_wfD(4,5) [OF assms(1)] assms by (simp add: length_pending)


text \<open>What the steps share: the events of the socket may change, its mode may change, a request may be queued.\<close>

lemma tls_sent_events:
  assumes "tls_sent cfg w s n sent" "heap w s = Some k"
  shows "\<exists>w'. turn_on_events w s ev = Ret w' \<and> tls_sent cfg w' s n sent"
    "\<exists>w'. turn_off_events w s ev = Ret w' \<and> tls_sent cfg w' s n sent"
  using assms turn_on_events_ok [of w s k ev] turn_off_events_ok [of w s k ev]
  by (auto simp: tls_sent_def tls_ok_def registered_def)

lemma tls_sent_put:
  assumes "tls_sent cfg w s n sent" "heap w s = Some k" "tls_ok w k'" "sk_sendbuf k' = sk_sendbuf k"
  shows "tls_sent cfg (put_sk w s k') s n sent"
  using assms by (auto simp: tls_sent_def tls_ok_def registered_def put_sk_def)

lemma tls_sent_errno [simp]: "tls_sent cfg (w\<lparr>wsd_errno := e\<rparr>) s n sent = tls_sent cfg w s n sent"
  by (simp add: tls_sent_def tls_ok_def registered_def)

lemma tls_sentD:
  assumes "tls_sent cfg w s n sent"
  obtains k where "heap w s = Some k" "tls_ok w k" "wsd_cfg w = cfg"
    "sent @ pending (sk_sendbuf k) = concat (replicate n (request_of cfg))"
  using assms by (auto simp: tls_sent_def)

lemma tls_request_queued:
  assumes t: "tls_sent cfg w s n sent" and cfg: "legal_client cfg"
    and room: "Suc n * length (request_of cfg) \<le> 1048576"
  shows "\<exists>w'. create_http_req w s = Ret (0, w') \<and> tls_sent cfg w' s (Suc n) sent"
proof -
  obtain k where k: "heap w s = Some k" "tls_ok w k" "wsd_cfg w = cfg"
    "sent @ pending (sk_sendbuf k) = concat (replicate n (request_of cfg))"
    using tls_sentD [OF t] .
  note ok = k(2) [unfolded tls_ok_def]
  have "length (pending (sk_sendbuf k)) \<le> n * length (request_of cfg)"
    using arg_cong [OF k(4), of length] by (simp add: length_concat sum_list_replicate)
  then have "length (request_of cfg) \<le> room (sk_sendbuf k)"
    using room room_front [of "sk_sendbuf k"] ok by simp
  then obtain b where b: "skb_put_http_req (cfg_tls cfg) (sk_sendbuf k) (http_request cfg) = Ret (0, b)"
    "grew (sk_sendbuf k) b (request_of cfg)"
    using put_request [OF cfg, of "sk_sendbuf k"] ok by blast
  have "cfg_fhostname cfg \<noteq> []"
    using cfg by (simp add: legal_client_def)
  then have "create_http_req w s = Ret (0, put_sk w s (k\<lparr>sk_sendbuf := b\<rparr>))"
    using k(1,3) b(1) by (simp add: create_http_req_def)
  moreover have "tls_sent cfg (put_sk w s (k\<lparr>sk_sendbuf := b\<rparr>)) s (Suc n) sent"
    using k b(2) ok by (simp add: tls_sent_def tls_ok_def grew_def registered_def replicate_append_same [symmetric]
        del: replicate_append_same)
  ultimately show ?thesis
    by blast
qed


lemma tls_handshake_step:
  assumes t: "tls_sent cfg w s n sent" and cfg: "legal_client cfg"
    and room: "Suc n * length (request_of cfg) \<le> 1048576"
  shows "\<exists>rv w'. wssk_tls_handshake ret w s = Ret (rv, w')
    \<and> tls_sent cfg w' s (if ret = None then Suc n else n) sent"
proof -
  obtain k where k: "heap w s = Some k" "tls_ok w k"
    using tls_sentD [OF t] by metis
  note ev = tls_sent_events [OF t k(1)]
  show ?thesis
  proof (cases ret)
    case None
    have "tls_sent cfg (put_sk w s (tls_data_mode k)) s n sent"
      using tls_sent_put [OF t k(1) tls_mode_keeps(2) [OF k(2)]] by (simp add: tls_modes)
    from tls_request_queued [OF this cfg room] obtain w1 where
      w1: "create_http_req (put_sk w s (tls_data_mode k)) s = Ret (0, w1)" "tls_sent cfg w1 s (Suc n) sent"
      by blast
    obtain k1 where "heap w1 s = Some k1"
      using tls_sentD [OF w1(2)] by metis
    with tls_sent_events(1) [OF w1(2), of k1 "EPOLLOUT OR EPOLLIN"] show ?thesis
      using None k(1) w1(1) by (auto simp: wssk_tls_handshake_def)
  next
    case (Some e)
    then show ?thesis
      using ev(1) [of EPOLLIN] ev(1) [of EPOLLOUT] k(1) t by (cases e) (auto simp: wssk_tls_handshake_def)
  qed
qed

lemma tls_read_step:
  assumes t: "tls_sent cfg w s n sent"
  shows "\<exists>rv w'. wssk_tls_read io w s = Ret (rv, w') \<and> tls_sent cfg w' s n sent"
proof -
  obtain k where k: "heap w s = Some k" "tls_ok w k"
    using tls_sentD [OF t] by metis
  note ok = k(2) [unfolded tls_ok_def]
  have mode: "tls_sent cfg (put_sk w s (tls_handshake_mode k)) s n sent"
    using tls_sent_put [OF t k(1) tls_mode_keeps(1) [OF k(2)]] by (simp add: tls_modes)
  note ev = tls_sent_events(2) [OF t k(1), of EPOLLIN] tls_sent_events(1) [OF mode, of "tls_handshake_mode k" EPOLLOUT]
  have bytes: "\<exists>b. skb_put_mem (sk_recvbuf k) (take (room (sk_recvbuf k)) bs) = Ret b
      \<and> tls_sent cfg (put_sk w s (k\<lparr>sk_recvbuf := b\<rparr>)) s n sent" for bs
  proof -
    obtain b where b: "skb_put_mem (sk_recvbuf k) (take (room (sk_recvbuf k)) bs) = Ret b" "skb_wf b"
      using skbq.push_ok [of "sk_recvbuf k" "take (room (sk_recvbuf k)) bs"] ok by auto
    have "tls_sent cfg (put_sk w s (k\<lparr>sk_recvbuf := b\<rparr>)) s n sent"
      using b(2) ok by (intro tls_sent_put [OF t k(1)]) (simp_all add: tls_ok_def registered_def)
    with b(1) show ?thesis
      by blast
  qed
  show ?thesis
  proof (cases io)
    case (Tls_bytes c cs)
    then show ?thesis
      using k(1) ok ev(1) bytes [of "c # cs"] by (auto simp: wssk_tls_read_def simp flip: room_def)
  next
    case (Tls_no_read e)
    then show ?thesis
      using k(1) ok ev t by (cases e) (auto simp: wssk_tls_read_def)
  qed
qed

lemma tls_write_step:
  assumes t: "tls_sent cfg w s n sent"
  shows "\<exists>rv out w'. wssk_tls_write io w s = Ret (rv, out, w') \<and> tls_sent cfg w' s n (sent @ out)"
proof -
  obtain k where k: "heap w s = Some k" "tls_ok w k" "wsd_cfg w = cfg"
    "sent @ pending (sk_sendbuf k) = concat (replicate n (request_of cfg))"
    using tls_sentD [OF t] .
  note ok = k(2) [unfolded tls_ok_def]
  have mode: "tls_sent cfg (put_sk w s (tls_handshake_mode k)) s n sent"
    using tls_sent_put [OF t k(1) tls_mode_keeps(1) [OF k(2)]] by (simp add: tls_modes)
  note ev = tls_sent_events(2) [OF t k(1), of EPOLLOUT] tls_sent_events(1) [OF mode, of "tls_handshake_mode k" EPOLLIN]
  have wrote: "\<exists>out b. obind (skb_get_mem (sk_sendbuf k) (min m (unat (skb_rdsz (sk_sendbuf k))))) (\<lambda>(sent, b).
        obind (skb_compact b) (\<lambda>b. Ret (sent, b))) = Ret (out, b)
      \<and> skb_wf b \<and> out @ pending b = pending (sk_sendbuf k) \<and> rdpos b = 0" for m
  proof -
    have len: "length (pending (sk_sendbuf k)) = unat (skb_rdsz (sk_sendbuf k))"
      using ok by (simp add: length_pending)
    obtain b1 where b1: "skb_get_mem (sk_sendbuf k) (min m (unat (skb_rdsz (sk_sendbuf k))))
        = Ret (take (min m (unat (skb_rdsz (sk_sendbuf k)))) (pending (sk_sendbuf k)), b1)" "skb_wf b1"
      "pending b1 = drop (min m (unat (skb_rdsz (sk_sendbuf k)))) (pending (sk_sendbuf k))"
      using skbq.pull_ok [of "sk_sendbuf k" "min m (unat (skb_rdsz (sk_sendbuf k)))"] ok len by auto
    obtain b2 where "skb_compact b1 = Ret b2" "skb_wf b2" "pending b2 = pending b1" "rdpos b2 = 0"
      using skb_compact_ok [OF b1(2)] by auto
    with b1 show ?thesis
      by (auto simp: append_take_drop_id)
  qed
  show ?thesis
  proof (cases "skb_rdsz (sk_sendbuf k) = 0")
    case True
    then show ?thesis
      using k(1) ok ev(1) by (auto simp: wssk_tls_write_def)
  next
    case False
    show ?thesis
    proof (cases io)
      case (Tls_wrote m)
      obtain out b1 b where b: "skb_get_mem (sk_sendbuf k) (min (Suc m) (unat (skb_rdsz (sk_sendbuf k)))) = Ret (out, b1)"
        "skb_compact b1 = Ret b" "skb_wf b" "out @ pending b = pending (sk_sendbuf k)" "rdpos b = 0"
        using wrote [of "Suc m"] by (auto simp: outcome_simps)
      have "wssk_tls_write io w s = Ret (0, out, put_sk w s (k\<lparr>sk_sendbuf := b\<rparr>))"
        using k(1) ok False b(1,2) by (simp add: wssk_tls_write_def Tls_wrote)
      moreover have "tls_sent cfg (put_sk w s (k\<lparr>sk_sendbuf := b\<rparr>)) s n (sent @ out)"
        using k ok b by (simp add: tls_sent_def tls_ok_def registered_def)
      ultimately show ?thesis
        by blast
    next
      case (Tls_no_write e)
      then show ?thesis
        using k(1) ok False ev t by (cases e) (auto simp: wssk_tls_write_def)
    qed
  qed
qed

lemma tls_step_keeps:
  assumes t: "tls_sent cfg w s n sent" and k: "heap w s = Some k" and cfg: "legal_client cfg"
    and room: "Suc n * length (request_of cfg) \<le> 1048576"
  shows "\<exists>rv out w'. tls_step ev w s = Ret (rv, out, w')
    \<and> tls_sent cfg w' s (if completes ev k then Suc n else n) (sent @ out)"
proof -
  have p: "tls_paired k"
    using t k by (auto simp: tls_sent_def tls_ok_def)
  have hs: "\<exists>rv w'. obind (turn_off_events w s e) (\<lambda>w. wssk_tls_handshake ret w s) = Ret (rv, w')
      \<and> tls_sent cfg w' s (if ret = None then Suc n else n) sent" for e ret
    using tls_sent_events(2) [OF t k, of e] tls_handshake_step [OF _ cfg room, of _ s sent ret] by auto
  from p consider "tls_handshake_mode k = k" | "tls_data_mode k = k"
    by (auto simp: tls_paired_def)
  then show ?thesis
  proof cases
    case 1
    show ?thesis
    proof (cases ev)
      case (Tls_readable io ta)
      then show ?thesis
        using tls_mode_ops(1) [OF 1] k hs [of EPOLLIN "ta_handshake ta"]
        by (auto simp: wscat_call_read_def wssk_tls_handshake_read_def)
    next
      case (Tls_writable io ta)
      then show ?thesis
        using tls_mode_ops(1) [OF 1] k hs [of EPOLLOUT "ta_handshake ta"]
        by (auto simp: wscat_call_write_def wssk_tls_handshake_write_def)
    qed
  next
    case 2
    show ?thesis
    proof (cases ev)
      case (Tls_readable io ta)
      then show ?thesis
        using tls_mode_ops(2) [OF 2] k tls_read_step [OF t, of "ta_read ta"] by (auto simp: wscat_call_read_def)
    next
      case (Tls_writable io ta)
      then show ?thesis
        using tls_mode_ops(2) [OF 2] k tls_write_step [OF t, of "ta_write ta"] by (auto simp: wscat_call_write_def)
    qed
  qed
qed


lemma tls_run_keeps:
  assumes "tls_sent cfg w s n sent" "legal_client cfg" "(n + length evs) * length (request_of cfg) \<le> 1048576"
  shows "\<exists>m out w'. tls_run evs w s = Ret (m, out, w') \<and> tls_sent cfg w' s (n + m) (sent @ out)"
  using assms(1,3)
proof (induction evs arbitrary: w n sent)
  case Nil
  then show ?case
    by simp
next
  case (Cons ev evs)
  obtain k where k: "heap w s = Some k"
    using tls_sentD [OF Cons.prems(1)] by metis
  let ?n = "if completes ev k then Suc n else n"
  have "Suc n * length (request_of cfg) \<le> (n + length (ev # evs)) * length (request_of cfg)"
    "(?n + length evs) * length (request_of cfg) \<le> (n + length (ev # evs)) * length (request_of cfg)"
    by (intro mult_le_mono1; simp)+
  then have room: "Suc n * length (request_of cfg) \<le> 1048576" "(?n + length evs) * length (request_of cfg) \<le> 1048576"
    using Cons.prems(2) by linarith+
  obtain rv out w1 where w1: "tls_step ev w s = Ret (rv, out, w1)" "tls_sent cfg w1 s ?n (sent @ out)"
    using tls_step_keeps [OF Cons.prems(1) k assms(2) room(1)] by blast
  from Cons.IH [OF w1(2) room(2)] k w1(1) show ?case
    by auto
qed

text \<open>
  C9: TLS. Whatever OpenSSL answers and in whatever order the socket becomes readable and writable,
  no call of the handlers goes wrong, they stay a pair of one mode, and all that is handed to
  OpenSSL, followed by what is still queued, is the upgrade request once for every completed
  handshake: nothing before the first, and the whole request again after a renegotiation.
\<close>

theorem tls_stream:
  assumes "heap w s = Some k" "tls_ok w k" "pending (sk_sendbuf k) = []" "legal_client (wsd_cfg w)"
    and "length evs * length (request_of (wsd_cfg w)) \<le> 1048576"
  shows "\<exists>n sent w' k'. tls_run evs w s = Ret (n, sent, w') \<and> heap w' s = Some k' \<and> tls_ok w' k'
    \<and> sent @ pending (sk_sendbuf k') = concat (replicate n (request_of (wsd_cfg w)))"
proof -
  have "tls_sent (wsd_cfg w) w s 0 []"
    using assms(1-3) by (simp add: tls_sent_def)
  from tls_run_keeps [OF this assms(4), of evs] assms(5) show ?thesis
    by (auto simp: tls_sent_def)
qed


text \<open>A TLS connection of wscat before its handshake.\<close>

definition demo_tls :: sk where
  "demo_tls = (tls_handshake_mode zero_sk)\<lparr>sk_fd := 5, sk_events := EPOLLIN\<rparr>"

definition demo_tls_world :: world where
  "demo_tls_world = (init_world demo_cfg)\<lparr>heap := [1 \<mapsto> demo_tls], epoll := [5 \<mapsto> EPOLLIN]\<rparr>"

definition tls_all :: "ssl_error option \<Rightarrow> tls_in \<Rightarrow> tls_out \<Rightarrow> tls_answers" where
  "tls_all h i out = \<lparr>ta_handshake = h, ta_read = i, ta_write = out\<rparr>"

text \<open>Handshake, a first write, a renegotiation met while reading, and the next handshake.\<close>

definition demo_tls_events :: "tls_event list" where
  "demo_tls_events = [Tls_writable (Wr_accept 0) (tls_all None (Tls_no_read SSL_ERROR_WANT_READ) (Tls_wrote 0)),
     Tls_writable (Wr_accept 0) (tls_all None (Tls_no_read SSL_ERROR_WANT_READ) (Tls_wrote 99)),
     Tls_readable (Rd_bytes []) (tls_all None (Tls_no_read SSL_ERROR_WANT_WRITE) (Tls_wrote 0)),
     Tls_writable (Wr_accept 0) (tls_all None (Tls_no_read SSL_ERROR_WANT_READ) (Tls_wrote 0))]"

lemma demo_tls_ok: "heap demo_tls_world 1 = Some demo_tls" "tls_ok demo_tls_world demo_tls" "pending (sk_sendbuf demo_tls) = []"
proof -
  have "rdpos zero_skb = 0"
    by (simp add: zero_skb_def)
  then show "tls_ok demo_tls_world demo_tls"
    by (simp add: demo_tls_world_def demo_tls_def tls_ok_def registered_def zero_sk_def tls_paired_def tls_handshake_mode_def)
qed (simp_all add: demo_tls_world_def demo_tls_def zero_sk_def tls_handshake_mode_def)

theorem tls_stream_witness:
  "\<exists>n sent w' k'. tls_run demo_tls_events demo_tls_world 1 = Ret (n, sent, w') \<and> heap w' 1 = Some k'
    \<and> sent @ pending (sk_sendbuf k') = concat (replicate n (request_of demo_cfg))"
proof -
  have cfg: "wsd_cfg demo_tls_world = demo_cfg"
    by (simp add: demo_tls_world_def init_world_def)
  have "length demo_tls_events * length (request_of (wsd_cfg demo_tls_world)) \<le> 1048576"
    using demo_cfg_legal(2) by (simp add: cfg demo_tls_events_def)
  from tls_stream [OF demo_tls_ok _ this] demo_cfg_legal(1) show ?thesis
    unfolding cfg by blast
qed

text \<open>A renegotiation queues the upgrade request again, behind whatever has been queued since.\<close>

lemma tls_renegotiation:
  assumes t: "tls_sent cfg w s n sent" and k: "heap w s = Some k" "tls_data_mode k = k" "0 < room (sk_recvbuf k)"
    and cfg: "legal_client cfg" "(n + 2) * length (request_of cfg) \<le> 1048576"
    and ta: "ta_read ta = Tls_no_read SSL_ERROR_WANT_WRITE" "ta_handshake ta' = None"
  shows "\<exists>out w'. tls_run [Tls_readable io ta, Tls_writable io' ta'] w s = Ret (1, out, w') \<and> tls_sent cfg w' s (Suc n) (sent @ out)"
proof -
  let ?evs = "[Tls_readable io ta, Tls_writable io' ta']"
  obtain m out w' where run: "tls_run ?evs w s = Ret (m, out, w')" "tls_sent cfg w' s (n + m) (sent @ out)"
    using tls_run_keeps [OF t cfg(1), of ?evs] cfg(2) by auto
  have ok: "tls_ok w k"
    using t k(1) by (auto simp: tls_sent_def)
  note ops = tls_mode_ops(2) [OF k(2)]
  let ?k = "(tls_handshake_mode k)\<lparr>sk_events := sk_events k OR EPOLLOUT\<rparr>"
  obtain w1 where w1: "wssk_tls_read (ta_read ta) w s = Ret (0, w1)" "heap w1 s = Some ?k"
    using k ok turn_on_events_ok [of "put_sk w s (tls_handshake_mode k)" s "tls_handshake_mode k" EPOLLOUT]
    by (auto simp: wssk_tls_read_def ta(1) tls_ok_def registered_def tls_modes room_0_iff)
  have "ops_write (sk_ops ?k) = Some Wssk_tls_handshake_write"
    by (simp add: tls_handshake_mode_def)
  then have "m = 1"
    using run(1) w1 k(1) ops ta(2) by (auto simp: wscat_call_read_def outcome_simps)
  with run show ?thesis
    by auto
qed

end
