(* ===== verification/Start.thy ===== *)
theory Start
  imports Secure
begin

text \<open>
  How wscat starts (src/wscat.c, \<open>main\<close>): the options and the URI become a configuration, the
  configuration a connection with the upgrade request queued on it, or a TLS connection that
  checks its peer.
\<close>

subsection \<open>The URI on the command line\<close>

lemma char_of_byte [simp]: "(char_of (unat (of_char c :: u8)) :: char) = c"
proof -
  have "unat (of_char c :: u8) = (of_char c :: nat)"
    by (cases c) (simp add: unat_of_nat)
  then show ?thesis
    by simp
qed

lemma strndup_bytes:
  "drop p m = bytes s @ rest \<Longrightarrow> p \<le> length m \<Longrightarrow> NUL \<notin> set (bytes s) \<Longrightarrow> strndup m p (length s) = Ret s"
proof (induction s arbitrary: p)
  case Nil
  then show ?case by simp
next
  case (Cons c s)
  have len: "p < length m"
    using drop_len [OF Cons.prems(1,2)] by (simp add: bytes_def)
  have "mem_get m p = Ret (of_char c)"
    using nth_drop_eq [OF Cons.prems(1) _ Cons.prems(2), of 0] len by (simp add: bytes_def)
  moreover have "drop (Suc p) m = bytes s @ rest"
    using arg_cong [OF Cons.prems(1), of tl] by (simp add: bytes_def drop_Suc tl_drop)
  ultimately show ?case
    using Cons.IH [of "Suc p"] Cons.prems(3) len by (auto simp: bytes_def)
qed

lemma chunk_strndup_bytes:
  assumes "drop p m = bytes s @ rest" "p \<le> length m" "NUL \<notin> set (bytes s)" "length m < 2 ^ 32"
  shows "chunk_strndup m (uri_chunk p (p + length s)) = Ret s" "chunk_len (uri_chunk p (p + length s)) = 0 \<longleftrightarrow> s = []"
    "unat (chunk_len (uri_chunk p (p + length s))) = length s"
proof -
  have "length s < 2 ^ 32"
    using drop_len [OF assms(1,2)] assms(4) by (simp add: bytes_def)
  then show n: "unat (chunk_len (uri_chunk p (p + length s))) = length s"
    by (simp add: uri_chunk_def unat_of_nat_u32)
  then show z: "chunk_len (uri_chunk p (p + length s)) = 0 \<longleftrightarrow> s = []"
    by (metis length_0_conv unat_0 unat_eq_zero)
  show "chunk_strndup m (uri_chunk p (p + length s)) = Ret s"
    using n z strndup_bytes [OF assms(1-3)] by (auto simp: chunk_strndup_def uri_chunk_def)
qed

definition uri_string :: "bool \<Rightarrow> string \<Rightarrow> string option \<Rightarrow> string \<Rightarrow> string" where
  "uri_string tls host port path =
     (if tls then ''wss'' else ''ws'') @ ''://'' @ host @ (case port of None \<Rightarrow> [] | Some p \<Rightarrow> CHR '':'' # p) @ path"

definition legal_wscat_uri :: "bool \<Rightarrow> string \<Rightarrow> string option \<Rightarrow> string \<Rightarrow> bool" where
  "legal_wscat_uri tls host port path \<longleftrightarrow>
     legal_uri (bytes (if tls then ''wss'' else ''ws'')) (bytes host) (map_option bytes port) (bytes path)
     \<and> length (uri_string tls host port path) < 2 ^ 31"

lemma uri_string_text:
  "bytes (uri_string tls host port path) @ [NUL]
    = uri_text (bytes (if tls then ''wss'' else ''ws'')) (bytes host) (map_option bytes port) (bytes path)"
  by (cases port) (simp_all add: uri_string_def uri_text_def bytes_def)

text \<open>The options with what the URI adds.\<close>

definition with_uri :: "bool \<Rightarrow> string \<Rightarrow> string option \<Rightarrow> string \<Rightarrow> wscat_args \<Rightarrow> wscat_args" where
  "with_uri tls host port path a = a\<lparr>ca_tls := tls \<or> ca_tls a, ca_hostname := Some host,
     ca_port := (case port of None \<Rightarrow> ca_port a | Some p \<Rightarrow> Some p), ca_request_target := (if path = [] then ''/'' else path)\<rparr>"

lemma scheme_matches:
  "name_matches (bytes ''wss'') ''wss''" "name_matches (bytes ''ws'') ''ws''"
  "list_all (\<lambda>c. to_lower c \<noteq> to_lower COLON) (bytes ''wss'')" "list_all (\<lambda>c. to_lower c \<noteq> to_lower COLON) (bytes ''ws'')"
  by code_simp+

lemma path_strndup_rest:
  assumes "drop p m = bytes path @ [NUL]" "p \<le> length m" "length m < 2 ^ 32" "legal_uri scheme host port (bytes path)"
  shows "\<exists>u'. (if bytes path = [] then empty_path u else parse_uri_path m p u) = Ret (0, u')
      \<and> uri_scheme u' = uri_scheme u \<and> uri_host u' = uri_host u \<and> uri_port u' = uri_port u
      \<and> path_strndup m (uri_path u') = Ret (if path = [] then ''/'' else path)"
proof (cases "path = []")
  case False
  then have ne: "bytes path \<noteq> []"
    by (simp add: bytes_def)
  with legal_uriD(6) [OF assms(4)] have hd: "hd (bytes path) = SLASH" "set (bytes path) \<inter> {NUL, HASH} = {}"
    "tl (bytes path) = [] \<or> hd (tl (bytes path)) \<noteq> SLASH"
    by auto
  have "chunk_strndup m (uri_chunk p (p + length (bytes path))) = Ret path"
    using chunk_strndup_bytes(1) [OF assms(1,2) _ assms(3)] hd(2) by auto
  then show ?thesis
    using parse_uri_path_run [OF assms(1,2) ne hd] ne False by (simp add: path_strndup_def)
qed (simp add: empty_path_def path_strndup_def)


lemma parse_uri_string:
  assumes legal: "legal_wscat_uri tls host port path" and m: "m = bytes (uri_string tls host port path) @ [NUL]"
    and sch: "sch = (if tls then ''wss'' else ''ws'')"
  shows "\<exists>u. parse_uri m null_uri = Ret (0, u) \<and> uri_scheme u = uri_chunk 0 (length sch)
    \<and> chunk_strndup m (uri_host u) = Ret host
    \<and> (case port of None \<Rightarrow> uri_port u = null_chunk
       | Some p \<Rightarrow> chunk_strndup m (uri_port u) = Ret p \<and> chunk_len (uri_port u) \<noteq> 0)
    \<and> path_strndup m (uri_path u) = Ret (if path = [] then ''/'' else path)"
proof -
  let ?q = "map_option bytes port" and ?p = "length sch + 3" and ?k = "length sch + 3 + length host"
  have L: "legal_uri (bytes sch) (bytes host) ?q (bytes path)" and size: "length m < 2 ^ 32"
    using legal by (simp_all add: legal_wscat_uri_def m sch bytes_def)
  have mt: "m = uri_text (bytes sch) (bytes host) ?q (bytes path)"
    by (simp add: m sch uri_string_text)
  note D = uri_text_drop [OF mt] and B = legal_uriD [OF L]
  have len: "length (bytes t) = length t" for t
    by (simp add: bytes_def)
  let ?u = "null_uri\<lparr>uri_scheme := uri_chunk 0 (length sch), uri_host := uri_chunk ?p ?k\<rparr>"
  have main: "parse_uri m null_uri = parse_uri_rest m ?k ?q (bytes path) ?u"
    using parse_uri_authority [OF L mt refl, of null_uri] by (simp add: len)
  have host: "chunk_strndup m (uri_chunk ?p ?k) = Ret host"
    using chunk_strndup_bytes(1) [OF D(3) _ _ size] B(4) D(4) by (simp add: len)
  have tail: "drop ?k m = uri_tail ?q (bytes path)"
    using arg_cong [OF D(3), of "drop (length host)"] by (simp add: ac_simps len)
  show ?thesis
  proof (cases port)
    case None
    then have "drop ?k m = bytes path @ [NUL]" "?k \<le> length m"
      using tail D(4) by (simp_all add: uri_tail_def len)
    from path_strndup_rest [OF this size L, of ?u] show ?thesis
      using main host None by (auto simp: parse_uri_rest_def null_uri_def)
  next
    case (Some q)
    have dk: "drop (?k + 1) m = bytes q @ bytes path @ [NUL]" and dp: "drop (?k + 1 + length q) m = bytes path @ [NUL]"
      using arg_cong [OF tail, of "drop 1"] arg_cong [OF tail, of "drop (1 + length q)"]
      by (simp_all add: uri_tail_def Some ac_simps len)
    have le: "?k + 1 + length q \<le> length m"
      using D(4) by (simp add: uri_tail_def Some len)
    have q: "NUL \<notin> set (bytes q)" "q \<noteq> []"
      using B(5) [of "bytes q"] Some by (auto simp: bytes_def)
    have "chunk_strndup m (uri_chunk (?k + 1) (?k + 1 + length q)) = Ret q"
      "chunk_len (uri_chunk (?k + 1) (?k + 1 + length q)) \<noteq> 0"
      using chunk_strndup_bytes(1,2) [OF dk _ q(1) size] le q(2) by simp_all
    then show ?thesis
      using path_strndup_rest [OF dp le size L, of "?u\<lparr>uri_port := uri_chunk (?k + 1) (?k + 1 + length q)\<rparr>"]
        main host Some by (auto simp: parse_uri_rest_def Let_def len)
  qed
qed

lemma wscat_uri_legal:
  assumes legal: "legal_wscat_uri tls host port path"
  shows "wscat_uri (uri_string tls host port path) a = pret (with_uri tls host port path a)"
proof -
  let ?m = "bytes (uri_string tls host port path) @ [NUL]" and ?s = "if tls then ''wss'' else ''ws''"
  obtain u where u: "parse_uri ?m null_uri = Ret (0, u)" "uri_scheme u = uri_chunk 0 (length ?s)"
    "chunk_strndup ?m (uri_host u) = Ret host"
    "case port of None \<Rightarrow> uri_port u = null_chunk | Some p \<Rightarrow> chunk_strndup ?m (uri_port u) = Ret p \<and> chunk_len (uri_port u) \<noteq> 0"
    "path_strndup ?m (uri_path u) = Ret (if path = [] then ''/'' else path)"
    using parse_uri_string [OF legal refl refl] by blast
  have d: "drop 0 ?m = bytes ?s @ COLON # bytes (''//'' @ host @ (case port of None \<Rightarrow> [] | Some p \<Rightarrow> CHR '':'' # p) @ path) @ [NUL]"
    by (simp add: uri_string_def bytes_def)
  have "chunk_strncasecmp ?m (uri_scheme u) ?s (if tls then 3 else 2) = Ret True"
    using chunk_strncasecmp_name [OF d, of "uri_scheme u" ?s "if tls then 3 else 2"] scheme_matches
    by (cases tls) (simp_all add: u(2) uri_chunk_def del: drop_0)
  moreover have "chunk_len (uri_scheme u) = (if tls then 3 else 2)"
    by (simp add: u(2) uri_chunk_def)
  ultimately show ?thesis
    using u(1,3-5) by (cases port; cases tls) (simp_all add: wscat_uri_def with_uri_def Let_def null_chunk_def)
qed


subsection \<open>The connection\<close>

text \<open>A system in which everything that wscat needs to connect succeeds.\<close>

definition connects :: "connection \<Rightarrow> string \<Rightarrow> string \<Rightarrow> ptr \<Rightarrow> bool" where
  "connects cn host port s \<longleftrightarrow> 0 \<le> cn_fd cn \<and> 0 \<le> cn_gai cn host port \<and> cn_inet cn \<and> cn_ptr cn = Some s \<and> cn_mem cn"

definition wssk_ready :: "int \<Rightarrow> sk" where
  "wssk_ready fd = zero_sk\<lparr>sk_proto := null_proto\<lparr>decode_frame := Some Wssk_ws_decode_frame,
       encode_frame := Some Wssk_ws_encode_frame, ping := Some Ws_ping, pong := Some Ws_pong,
       start_closing_handshake := Some Ws_start_closing_handshake\<rparr>,
     sk_fd := fd, sk_events := EPOLLIN OR EPOLLPRI OR EPOLLRDHUP,
     sk_ops := null_ops\<lparr>ops_read := Some Sk_read, ops_write := Some Sk_write, ops_recv := Some Wssk_http_recv,
       ops_close := Some Wssk_close\<rparr>\<rparr>"

lemma wssk_init_connects:
  assumes "connects cn (hd (cfg_fhostname (wsd_cfg w))) (cfg_fport (wsd_cfg w)) s" "cfg_fhostname (wsd_cfg w) \<noteq> []"
    "\<not> cfg_tls (wsd_cfg w)"
  shows "wssk_init cn w = Ret (0, (put_sk (w\<lparr>sys_errno := cn_errno cn\<rparr>) s (wssk_ready (cn_fd cn)))
    \<lparr>wssk := Some s, epoll := [cn_fd cn \<mapsto> EPOLLIN OR EPOLLPRI OR EPOLLRDHUP]\<rparr>)"
  using assms by (simp add: wssk_init_def connects_def sk_init_def register_for_events_def wssk_ready_def zero_sk_def Let_def)

text \<open>The configuration of options, URI and defaults.\<close>

definition client_cfg :: "wscat_args \<Rightarrow> bool \<Rightarrow> string \<Rightarrow> string option \<Rightarrow> string \<Rightarrow> wsd_config" where
  "client_cfg a tls host port path = default_cfg\<lparr>cfg_uid := 0, cfg_lfd := -1, cfg_lport := 0,
     cfg_fport := (case port of None \<Rightarrow> if tls then ''443'' else ''80'' | Some p \<Rightarrow> p),
     cfg_fhostname := [host], cfg_fhostname_num := 0, cfg_pidfilename := None, cfg_verbose := of_int (ca_verbose a),
     cfg_no_fork := False, cfg_idle_timeout := ca_idle_timeout a, cfg_ping_interval := ca_ping_interval a * 1000,
     cfg_closing_handshake_timeout := 0, cfg_sec_ws_proto := ca_sec_ws_proto a, cfg_user_agent := ca_user_agent a,
     cfg_request_target := (if path = [] then ''/'' else path), cfg_sec_ws_ver := ca_sec_ws_ver a,
     cfg_sec_ws_key := ca_sec_ws_key a, cfg_tls := tls, cfg_no_check_cert := ca_no_check_cert a\<rparr>"

lemma wscat_config_client:
  assumes "8 \<le> usable 2" "int_ok (ca_ping_interval a * 1000)" "ca_port a = None" "\<not> ca_tls a"
  shows "wscat_config usable (with_uri tls host port path a) = Ret (client_cfg a tls host port path)"
  using assms by (cases port) (simp_all add: wscat_config_def with_uri_def client_cfg_def default_cfg_def c_int_def Let_def)


lemma prog_cases:
  "pbind m f t = Inr (y, t') \<longleftrightarrow> (\<exists>x u. m t = Inr (x, u) \<and> f x u = Inr (y, t'))"
  "pret x t = Inr (y, t') \<longleftrightarrow> y = x \<and> t' = t" "pend e t = Inr (y, t') \<longleftrightarrow> False"
  "plift o' t = Inr (y, t') \<longleftrightarrow> o' = Ret y \<and> t' = t"
  by (auto simp: pbind_def pret_def pend_def plift_def split: sum.splits outcome.splits)

lemma wscat_option_keeps:
  assumes "wscat_option c x a t = Inr (a', t')"
  shows "ca_port a' = ca_port a \<and> ca_tls a' = ca_tls a \<and> ca_hostname a' = ca_hostname a \<and> t' = t
    \<and> (c \<noteq> CHR ''x'' \<longrightarrow> ca_no_check_cert a' = ca_no_check_cert a)"
  using assms by (auto simp: wscat_option_def prog_cases split: if_splits)

lemma wscat_options_keep:
  "wscat_options os a t = Inr (a', t') \<Longrightarrow> ca_port a' = ca_port a \<and> ca_tls a' = ca_tls a \<and> ca_hostname a' = ca_hostname a \<and> t' = t
    \<and> (CHR ''x'' \<notin> fst ` set os \<longrightarrow> ca_no_check_cert a' = ca_no_check_cert a)"
proof (induction os arbitrary: a)
  case Nil
  then show ?case
    by (simp add: prog_cases)
next
  case (Cons o1 os)
  obtain c x where o1: "o1 = (c, x)" by (cases o1)
  from Cons.prems obtain b u where b: "wscat_option c x a t = Inr (b, u)" "wscat_options os b u = Inr (a', t')"
    by (auto simp: o1 prog_cases)
  show ?case
    using wscat_option_keeps [OF b(1)] Cons.IH [of b] b(2) by (auto simp: o1)
qed

text \<open>
  C10: From a command line with a legal URI of the scheme ws to the first bytes: wscat connects to
  the host and the port of the URI, 80 when it names none, queues exactly the upgrade request
  for its path with the options' key, version, subprotocol and agent, and asks for EPOLLOUT.
\<close>

theorem wscat_setup_requests:
  assumes argv: "getopt wscat_optstring long_opt argv = (os, uri_string False host port path # further)"
    and options: "wscat_options os wscat_no_args t = Inr (a, t)"
    and uri: "legal_wscat_uri False host port path"
    and cfg: "cfg = client_cfg a False host port path" "legal_client cfg" "length (request_of cfg) \<le> 1048576"
    and ints: "8 \<le> usable 2" "int_ok (ca_ping_interval a * 1000)"
    and net: "connects cn host (case port of None \<Rightarrow> ''80'' | Some p \<Rightarrow> p) s"
  shows "\<exists>w k. wscat_setup usable cn ret argv t = Inr (w, t) \<and> wsd_cfg w = cfg \<and> wssk w = Some s \<and> heap w s = Some k
    \<and> pending (sk_sendbuf k) = request_of cfg \<and> skb_wf (sk_sendbuf k) \<and> registered w k
    \<and> k = (wssk_ready (cn_fd cn))\<lparr>sk_sendbuf := sk_sendbuf k, sk_events := sk_events k\<rparr>
    \<and> sk_events k = EPOLLIN OR EPOLLPRI OR EPOLLRDHUP OR EPOLLOUT"
proof -
  let ?w = "wscat_globals cfg (with_uri False host port path a)"
  let ?k = "wssk_ready (cn_fd cn)"
  have keep: "ca_port a = None" "\<not> ca_tls a"
    using wscat_options_keep [OF options] by (simp_all add: wscat_no_args_def)
  note config = wscat_config_client [of usable a False host port path, OF ints keep, folded cfg(1)]
  have c: "cfg_fhostname cfg = [host]" "cfg_fport cfg = (case port of None \<Rightarrow> ''80'' | Some p \<Rightarrow> p)" "\<not> cfg_tls cfg"
    by (simp_all add: cfg(1) client_cfg_def default_cfg_def split: option.split)
  have w: "wsd_cfg ?w = cfg"
    by (simp add: wscat_globals_def init_world_def)
  obtain w1 where w1: "wssk_init cn ?w = Ret (0, w1)" "heap w1 s = Some ?k" "wssk w1 = Some s" "wsd_cfg w1 = cfg"
    "epoll w1 = [cn_fd cn \<mapsto> EPOLLIN OR EPOLLPRI OR EPOLLRDHUP]"
    using wssk_init_connects [of cn ?w s] net c by (simp add: w)
  have r: "skb_wf (sk_sendbuf ?k)" "pending (sk_sendbuf ?k) = []" "room (sk_sendbuf ?k) = 1048576" "sk_fd ?k = cn_fd cn"
    "sk_events ?k = EPOLLIN OR EPOLLPRI OR EPOLLRDHUP"
    by (simp_all add: wssk_ready_def zero_sk_def)
  obtain b where b: "skb_put_http_req (cfg_tls cfg) (sk_sendbuf ?k) (http_request cfg) = Ret (0, b)"
    "skb_wf b" "pending b = request_of cfg"
    using put_request [OF cfg(2) r(1)] cfg(3) r(2,3) by (auto simp: grew_def)
  let ?k1 = "?k\<lparr>sk_sendbuf := b\<rparr>"
  let ?w2 = "set_events (put_sk w1 s ?k1) s ?k1 (EPOLLIN OR EPOLLPRI OR EPOLLRDHUP OR EPOLLOUT)"
  have on: "turn_on_events (put_sk w1 s ?k1) s EPOLLOUT = Ret ?w2"
    using turn_on_events_ok [of "put_sk w1 s ?k1" s ?k1 EPOLLOUT] w1(5) r(4,5) by (simp add: registered_def or.assoc)
  have start: "wscat_start cn ret ?w = pret ?w2"
    using w1 c b(1) on by (simp add: wscat_start_def create_http_req_def)
  then have run: "wscat_setup usable cn ret argv t = Inr (?w2, t)"
    using argv options config by (simp add: wscat_setup_def pbind_def plift_def wscat_uri_legal [OF uri] start pret_def)
  have "wsd_cfg ?w2 = cfg" "wssk ?w2 = Some s" "heap ?w2 s = Some (?k1\<lparr>sk_events := EPOLLIN OR EPOLLPRI OR EPOLLRDHUP OR EPOLLOUT\<rparr>)"
    "registered ?w2 (?k1\<lparr>sk_events := EPOLLIN OR EPOLLPRI OR EPOLLRDHUP OR EPOLLOUT\<rparr>)"
    using w1(3,4) by (simp_all add: registered_def set_events_def)
  then show ?thesis
    using run b(2,3) by (intro exI [of _ ?w2] exI [of _ "?k1\<lparr>sk_events := EPOLLIN OR EPOLLPRI OR EPOLLRDHUP OR EPOLLOUT\<rparr>"]) simp
qed


text \<open>\<open>wscat -v ws://wsd.io/chat\<close>\<close>

definition demo_wscat_argv :: "string list" where
  "demo_wscat_argv = [''-v'', ''ws://wsd.io/chat'']"

definition demo_client_cfg :: wsd_config where
  "demo_client_cfg = client_cfg (wscat_no_args\<lparr>ca_verbose := 1\<rparr>) False ''wsd.io'' None ''/chat''"

definition demo_connection :: connection where
  "demo_connection = \<lparr>cn_fd = 5, cn_gai = (\<lambda>h p. 0), cn_inet = True, cn_errno = EINPROGRESS, cn_ptr = Some 1, cn_mem = True,
     cn_tls = \<lparr>set_ctx = True, set_min_version = True, set_verify_paths = True, set_ssl = True, set_host = True, set_fd = True,
       set_host_name = True\<rparr>\<rparr>"

lemma demo_client_cfg_legal: "legal_client demo_client_cfg" "length (request_of demo_client_cfg) \<le> 1048576"
proof -
  have f: "demo_client_cfg = default_cfg\<lparr>cfg_uid := 0, cfg_lfd := -1, cfg_lport := 0, cfg_fport := ''80'', cfg_fhostname := [''wsd.io''],
     cfg_fhostname_num := 0, cfg_verbose := 1, cfg_idle_timeout := -1, cfg_ping_interval := -1000,
     cfg_closing_handshake_timeout := 0, cfg_user_agent := ''wscat'', cfg_request_target := ''/chat'', cfg_sec_ws_ver := ''13'',
     cfg_sec_ws_key := ''B9Pc1t39Tqoj+fidr/bzeg==''\<rparr>"
    by (simp add: demo_client_cfg_def client_cfg_def wscat_no_args_def default_cfg_def)
  have c: "list_all (\<lambda>s. list_all (\<lambda>c. is_rfc7230_field_value c \<and> c \<noteq> NUL) (bytes s)) [''wsd.io'', ''B9Pc1t39Tqoj+fidr/bzeg=='', ''wscat'']"
    "list_all (\<lambda>c. is_rfc7230_start_line c \<and> c \<noteq> SP) (bytes ''/chat'')" "hd (bytes ''/chat'') \<noteq> 0x2a" "bytes ''/chat'' \<noteq> []"
    "list_all (\<lambda>c. \<not> is_blank c) (bytes ''B9Pc1t39Tqoj+fidr/bzeg=='')"
    by code_simp+
  show "legal_client demo_client_cfg"
    using c by (simp add: legal_client_def f default_cfg_def field_chars_def token_chars_def legal_target_def list_all_iff)
  show "length (request_of demo_client_cfg) \<le> 1048576"
    by (simp add: request_of_def request_text_def request_line_def client_fields_def f default_cfg_def header_text_def
        field_line_def Let_def)
qed

theorem wscat_setup_requests_witness:
  "\<exists>w k. wscat_setup (\<lambda>n. n + 16) demo_connection None demo_wscat_argv ([] :: nat list) = Inr (w, []) \<and> heap w 1 = Some k
    \<and> pending (sk_sendbuf k) = request_of demo_client_cfg \<and> sk_events k AND EPOLLOUT \<noteq> 0"
proof -
  have argv: "getopt wscat_optstring long_opt demo_wscat_argv = ([(CHR ''v'', [])], uri_string False ''wsd.io'' None ''/chat'' # [])"
    by code_simp
  have opts: "wscat_options [(CHR ''v'', [])] wscat_no_args ([] :: nat list) = Inr (wscat_no_args\<lparr>ca_verbose := 1\<rparr>, [])"
    by (simp add: wscat_option_def pret_def wscat_no_args_def)
  have uri: "legal_wscat_uri False ''wsd.io'' None ''/chat''"
    by (simp add: legal_wscat_uri_def legal_uri_def uri_string_def bytes_def)
  have ints: "8 \<le> (2 :: nat) + 16" "int_ok (ca_ping_interval (wscat_no_args\<lparr>ca_verbose := 1\<rparr>) * 1000)"
    by (simp_all add: int_ok_def wscat_no_args_def)
  have net: "connects demo_connection ''wsd.io'' (case None of None \<Rightarrow> ''80'' | Some p \<Rightarrow> p) 1"
    by (simp add: connects_def demo_connection_def)
  have ev: "(EPOLLIN OR EPOLLPRI OR EPOLLRDHUP OR EPOLLOUT) AND EPOLLOUT \<noteq> 0"
    by code_simp
  from wscat_setup_requests [where usable = "\<lambda>n. n + 16" and ret = None, OF argv opts uri demo_client_cfg_def demo_client_cfg_legal ints net]
  show ?thesis
    using ev by metis
qed

subsection \<open>Who is at the other end\<close>

text \<open>What TLS checks of the server: its certificate, for the one host name of the configuration.\<close>

definition verifies :: "world \<Rightarrow> bool" where
  "verifies w \<longleftrightarrow> (\<exists>s k c. wssk w = Some s \<and> heap w s = Some k \<and> sk_ssl k = Some c \<and> tls_verify_peer c
     \<and> cfg_fhostname (wsd_cfg w) = [tls_host c] \<and> tls_host_name c = tls_host c \<and> tls_no_partial_wildcards c
     \<and> TLS1_VERSION \<le> tls_min_version c \<and> tls_fd c = sk_fd k \<and> tls_paired k)"

lemma turn_on_keeps_tls:
  assumes "turn_on_events w s ev = Ret w'" "verifies w" "wssk w = Some s"
  shows "verifies w' \<and> wssk w' = Some s"
  using assms by (auto simp: turn_on_events_def deref_def verifies_def outcome_simps Let_def split: option.splits)

lemma request_keeps_tls:
  assumes "create_http_req w s = Ret (rv, w')" "verifies w" "wssk w = Some s"
  shows "verifies w' \<and> wssk w' = Some s"
  using assms by (auto simp: create_http_req_def deref_def verifies_def outcome_simps split: option.splits if_splits)

lemma handshake_keeps_tls:
  assumes "wssk_tls_handshake ret w s = Ret (rv, w')" "verifies w" "wssk w = Some s"
  shows "verifies w'"
proof -
  obtain k where k: "heap w s = Some k"
    using assms(2,3) by (auto simp: verifies_def)
  have "verifies (put_sk w s (tls_data_mode k))"
    using assms(2,3) k by (auto simp: verifies_def tls_modes) (auto simp: tls_data_mode_def)
  then show ?thesis
    using assms k
    by (auto simp: wssk_tls_handshake_def outcome_simps split: option.splits ssl_error.splits if_splits
        dest!: turn_on_keeps_tls request_keeps_tls)
qed

lemma wssk_init_verifies:
  assumes "wssk_init cn w = Ret (rv, w')" "\<not> rv < 0" "cfg_tls (wsd_cfg w)" "\<not> cfg_no_check_cert (wsd_cfg w)" "cfg_fhostname (wsd_cfg w) = [host]"
  shows "verifies w' \<and> cfg_tls (wsd_cfg w')"
  using assms
  by (auto simp: wssk_init_def wssk_tls_init_def sk_init_def verifies_def outcome_simps Let_def register_for_events_def tls_paired_def
      tls_handshake_mode_def split: if_splits option.splits)


text \<open>What holds of every value a program goes on with.\<close>

definition yields :: "('a \<Rightarrow> bool) \<Rightarrow> ('c, 'a) prog \<Rightarrow> bool" where
  "yields P m \<longleftrightarrow> (\<forall>t y t'. m t = Inr (y, t') \<longrightarrow> P y)"

lemma yields_rules:
  "P x \<Longrightarrow> yields P (pret x)" "yields P (pend e)"
  "(\<And>x. yields P (f x)) \<Longrightarrow> yields P (pbind m' f)"
  "(b \<Longrightarrow> yields P m) \<Longrightarrow> (\<not> b \<Longrightarrow> yields P n) \<Longrightarrow> yields P (if b then m else n)"
  "(\<And>x y. yields P (g x y)) \<Longrightarrow> yields P (case xy of (x, y) \<Rightarrow> g x y)"
  by (auto simp: yields_def prog_cases split: prod.split)

lemma yields_pbind: "yields Q m \<Longrightarrow> (\<And>x. Q x \<Longrightarrow> yields P (f x)) \<Longrightarrow> yields P (pbind m f)"
  unfolding yields_def prog_cases by blast

lemma wscat_uri_keeps: "yields (\<lambda>a'. ca_no_check_cert a' = ca_no_check_cert a) (wscat_uri arg a)"
  unfolding wscat_uri_def Let_def
  by (intro yields_rules(2,4,5) yields_rules(3) [where m' = "plift m'" for m']
      yields_pbind [where Q = "\<lambda>a'. ca_no_check_cert a' = ca_no_check_cert a"])
    (auto intro!: yields_rules(1-4))

lemma wscat_config_checks:
  assumes "wscat_config usable a = Ret cfg"
  shows "cfg_no_check_cert cfg = ca_no_check_cert a \<and> (\<exists>host. cfg_fhostname cfg = [host])"
  using assms by (auto simp: wscat_config_def outcome_simps Let_def split: if_splits)

lemma wssk_init_keeps_cfg:
  "wssk_init cn w = Ret (rv, w') \<Longrightarrow> wsd_cfg w' = wsd_cfg w"
  by (auto simp: wssk_init_def register_for_events_def outcome_simps Let_def split: if_splits option.splits prod.splits sum.splits)

text \<open>
  C7: Whoever wscat talks to over TLS has shown a certificate for the host it was asked for: on
  every command line without the option x, a connection that is to use TLS is left by the set-up
  with the verification of the peer and of the one host name of the configuration turned on, and
  with the handlers of TLS only.
\<close>

theorem wscat_verifies_server:
  assumes run: "wscat_setup usable cn ret argv t = Inr (w, t')" and tls: "cfg_tls (wsd_cfg w)"
    and check: "CHR ''x'' \<notin> fst ` set (fst (getopt wscat_optstring long_opt argv))"
  shows "\<exists>s k c. wssk w = Some s \<and> heap w s = Some k \<and> sk_ssl k = Some c \<and> tls_verify_peer c
     \<and> cfg_fhostname (wsd_cfg w) = [tls_host c] \<and> tls_host_name c = tls_host c \<and> tls_no_partial_wildcards c
     \<and> TLS1_VERSION \<le> tls_min_version c \<and> tls_fd c = sk_fd k \<and> tls_paired k"
proof -
  obtain os rest where go: "getopt wscat_optstring long_opt argv = (os, rest)"
    by fastforce
  with run obtain a u a' u' cfg where
    a: "wscat_options os wscat_no_args t = Inr (a, u)" "(if rest \<noteq> [] then wscat_uri (hd rest) a else pret a) u = Inr (a', u')"
    "wscat_config usable a' = Ret cfg" "wscat_start cn ret (wscat_globals cfg a') u' = Inr (w, t')"
    by (auto simp: wscat_setup_def prog_cases)
  have "\<not> ca_no_check_cert a"
    using wscat_options_keep [OF a(1)] check by (simp add: go wscat_no_args_def)
  then have "\<not> ca_no_check_cert a'"
    using a(2) wscat_uri_keeps [of a "hd rest"] by (auto simp: prog_cases yields_def split: if_splits)
  then obtain host where cfg: "\<not> cfg_no_check_cert cfg" "cfg_fhostname cfg = [host]"
    using wscat_config_checks [OF a(3)] by auto
  have glob: "wsd_cfg (wscat_globals cfg a') = cfg"
    by (simp add: wscat_globals_def init_world_def)
  obtain rv w1 s where w1: "wssk_init cn (wscat_globals cfg a') = Ret (rv, w1)" "\<not> rv < 0" "wssk w1 = Some s"
    "(if cfg_tls (wsd_cfg w1) then \<exists>rv. wssk_tls_handshake ret w1 s = Ret (rv, w)
      else \<exists>rv w2. create_http_req w1 s = Ret (rv, w2) \<and> turn_on_events w2 s EPOLLOUT = Ret w)"
    using a(4) by (auto simp: wscat_start_def prog_cases deref_global_def split: if_splits option.splits)
  have same: "wsd_cfg w1 = cfg"
    using wssk_init_keeps_cfg [OF w1(1)] glob by simp
  have "cfg_tls cfg"
  proof (rule ccontr)
    assume no: "\<not> cfg_tls cfg"
    then obtain rv w2 where "create_http_req w1 s = Ret (rv, w2)" "turn_on_events w2 s EPOLLOUT = Ret w"
      using w1(4) same by auto
    then have "wsd_cfg w = cfg"
      using same by (auto simp: create_http_req_def turn_on_events_def outcome_simps Let_def split: if_splits)
    with tls no show False
      by simp
  qed
  then have "verifies w1" "\<exists>rv. wssk_tls_handshake ret w1 s = Ret (rv, w)"
    using wssk_init_verifies [OF w1(1,2)] cfg glob w1(4) same by auto
  then have "verifies w"
    using handshake_keeps_tls w1(3) by blast
  then show ?thesis
    unfolding verifies_def .
qed

text \<open>\<open>wscat wss://wsd.io\<close>, with a handshake that waits for the server.\<close>

lemma demo_tls_setup:
  "\<exists>w. wscat_setup (\<lambda>n. n + 16) demo_connection (Some SSL_ERROR_WANT_READ) [''wss://wsd.io''] ([] :: nat list) = Inr (w, [])
    \<and> cfg_tls (wsd_cfg w) \<and> cfg_fhostname (wsd_cfg w) = [''wsd.io'']"
proof -
  have shape: "uri_string True ''wsd.io'' None [] = ''wss://wsd.io''"
    by (simp add: uri_string_def)
  have uri: "legal_wscat_uri True ''wsd.io'' None []"
    by (simp add: legal_wscat_uri_def legal_uri_def uri_string_def bytes_def)
  have config: "wscat_config (\<lambda>n. n + 16) (with_uri True ''wsd.io'' None [] wscat_no_args) = Ret (client_cfg wscat_no_args True ''wsd.io'' None [])"
    by (rule wscat_config_client) (simp_all add: wscat_no_args_def int_ok_def)
  let ?w = "wscat_globals (client_cfg wscat_no_args True ''wsd.io'' None []) (with_uri True ''wsd.io'' None [] wscat_no_args)"
  have cfg: "cfg_tls (wsd_cfg ?w)" "cfg_fhostname (wsd_cfg ?w) = [''wsd.io'']"
    by (simp_all add: wscat_globals_def init_world_def client_cfg_def default_cfg_def)
  obtain w1 where w1: "wssk_init demo_connection ?w = Ret (0, w1)" "wssk w1 = Some 1" "wsd_cfg w1 = wsd_cfg ?w"
    "\<exists>k. heap w1 1 = Some k \<and> registered w1 k"
    using cfg by (simp add: wssk_init_def demo_connection_def wssk_tls_init_def sk_init_def register_for_events_def registered_def)
  then obtain k where "heap w1 1 = Some k" "registered w1 k"
    by blast
  then have "\<exists>w. wssk_tls_handshake (Some SSL_ERROR_WANT_READ) w1 1 = Ret (0, w) \<and> wsd_cfg w = wsd_cfg ?w"
    using turn_on_events_ok [of w1 1 k EPOLLIN] w1(3) by (simp add: wssk_tls_handshake_def)
  then obtain w2 where w2: "wssk_tls_handshake (Some SSL_ERROR_WANT_READ) w1 1 = Ret (0, w2)" "wsd_cfg w2 = wsd_cfg ?w"
    by blast
  have start: "wscat_start demo_connection (Some SSL_ERROR_WANT_READ) ?w = pret w2"
    using w1(1-3) w2(1) cfg by (simp add: wscat_start_def)
  have "wscat_setup (\<lambda>n. n + 16) demo_connection (Some SSL_ERROR_WANT_READ) [''wss://wsd.io''] ([] :: nat list) = Inr (w2, [])"
    by (simp add: wscat_setup_def wscat_uri_legal [OF uri, unfolded shape] config start) (simp add: pret_def)
  with cfg w2(2) show ?thesis
    by auto
qed

theorem wscat_verifies_server_witness:
  "\<exists>w s k c. wscat_setup (\<lambda>n. n + 16) demo_connection (Some SSL_ERROR_WANT_READ) [''wss://wsd.io''] ([] :: nat list) = Inr (w, [])
    \<and> wssk w = Some s \<and> heap w s = Some k \<and> sk_ssl k = Some c \<and> tls_verify_peer c \<and> tls_host c = ''wsd.io''"
proof -
  obtain w where w: "wscat_setup (\<lambda>n. n + 16) demo_connection (Some SSL_ERROR_WANT_READ) [''wss://wsd.io''] ([] :: nat list) = Inr (w, [])"
    "cfg_tls (wsd_cfg w)" "cfg_fhostname (wsd_cfg w) = [''wsd.io'']"
    using demo_tls_setup by blast
  have "CHR ''x'' \<notin> fst ` set (fst (getopt wscat_optstring long_opt [''wss://wsd.io'']))"
    by code_simp
  from wscat_verifies_server [OF w(1,2) this] obtain s k c where
    "wssk w = Some s" "heap w s = Some k" "sk_ssl k = Some c" "tls_verify_peer c" "cfg_fhostname (wsd_cfg w) = [tls_host c]"
    by blast
  moreover from this(5) have "tls_host c = ''wsd.io''"
    by (simp add: w(3))
  ultimately show ?thesis
    using w(1) by blast
qed

subsection \<open>What the configuration breaks\<close>

text \<open>
  The array for the host name has 2 bytes and takes a pointer: without slack in the allocator the
  program dies on every command line that gets so far.
\<close>

lemma wscat_config_overrun: "usable 2 < 8 \<Longrightarrow> int_ok (ca_ping_interval a * 1000) \<Longrightarrow> wscat_config usable a = Fault Out_of_bounds"
  by (simp add: wscat_config_def c_int_def Let_def)

text \<open>
  When standard input ends, wscat should start the closing handshake, unless it was told not to. It
  compares the ping interval with -1, but the default has become -1000: no closing handshake is
  ever started there, and the connection stays open.
\<close>

lemma c_int_eq: "c_int v = Ret u \<Longrightarrow> u = v"
  by (metis c_int_def outcome.distinct(3) outcome.inject(1))

lemma seconds_not_minus_one: "x * 1000 \<noteq> (-1 :: int)"
proof
  assume "x * 1000 = (-1 :: int)"
  then have "1000 dvd (-1 :: int)"
    using dvd_triv_right [of "1000 :: int" x] by simp
  then show False
    by simp
qed

lemma stdin_close_no_handshake:
  assumes "wscat_config usable a = Ret cfg" "wsd_cfg w = cfg" "repeat_last_num w \<le> 0" "heap w s = Some k"
  shows "stdin_close tmp mem_ok w s = Ret (0, (sk_destroy (close_fd w (sk_fd k)) s)\<lparr>fdin := None\<rparr>)"
proof -
  obtain ping where "c_int (ca_ping_interval a * 1000) = Ret ping" "cfg_ping_interval cfg = ping"
    using assms(1) by (auto simp: wscat_config_def outcome_simps Let_def split: if_splits)
  then have "cfg_ping_interval cfg = ca_ping_interval a * 1000"
    using c_int_eq by blast
  then have "cfg_ping_interval cfg \<noteq> -1"
    using seconds_not_minus_one by simp
  then show ?thesis
    using assms(3,4) by (simp add: stdin_close_def assms(2))
qed

end
