(* ===== verification/Traffic.thy ===== *)
theory Traffic
  imports Start
begin

text \<open>
  Data through wscat (src/wscat.c): what is read from standard input leaves as masked frames that
  wsd takes apart again, and what the server sends is printed.
\<close>

subsection \<open>One frame of standard input\<close>

definition WSCAT_KEY :: u32 where "WSCAT_KEY = 0xdeadbeef"

abbreviation text_frame :: "u8 list \<Rightarrow> u8 list" where
  "text_frame \<equiv> ws_masked_frame 0x81 WSCAT_KEY"

lemma length_text_frame: "length xs \<le> 32 \<Longrightarrow> length (text_frame xs) = 6 + length xs"
  by (simp add: ws_masked_frame_def length_ws_len_bytes word_less_nat_alt unat_of_nat take_bit_nat_eq_self)

lemma wssk_ws_encode_data_frame_run:
  assumes dst: "skb_wf dst" and src: "skb_wf src" and n: "unat maxlen \<le> length (pending src)" "unat maxlen \<le> 32"
    and room: "6 + unat maxlen \<le> room dst"
  shows "\<exists>d r. wssk_ws_encode_data_frame e dst src maxlen = Ret (0, d, r, e) \<and> skb_wf d \<and> skb_wf r
    \<and> pending d = pending dst @ text_frame (take (unat maxlen) (pending src)) \<and> pending r = drop (unat maxlen) (pending src)
    \<and> room d = room dst - (6 + unat maxlen)"
proof -
  let ?n = "unat maxlen" and ?len = "ucast maxlen :: u64"
  have le: "\<not> skb_rdsz src < maxlen \<or> skb_rdsz src = maxlen"
    using n(1) length_pending [OF src] by (simp add: word_less_nat_alt)
  then have pick: "(if skb_rdsz src < maxlen then skb_rdsz src else maxlen) = maxlen"
    by auto
  have "take_bit 64 ?n = ?n"
    using n(2) by (simp add: take_bit_nat_eq_self)
  then have u: "unat ?len = ?n"
    by (simp add: unsigned_ucast_eq)
  then have len: "unat ?len = ?n" "?len < 126" "?len < 2 ^ 63" "(of_nat ?n :: u64) = ?len"
    using n(2) by (simp_all add: word_less_nat_alt)
  let ?h = "0x81 # ws_len_bytes ?len 0x80"
  have lh: "length ?h = 2"
    using len(2) by (simp add: length_ws_len_bytes)
  have fl: "ws_calculate_frame_length e ?len = (int ?n + 1, e)"
    using ws_calculate_frame_length_small [of ?len e] len n(2) by simp
  have byte: "set_opcode (set_fin_bit 0) WS_TEXT_FRAME = 0x81" "set_mask_bit 0 = 0x80"
    by (simp_all add: header_bit_defs opcode_defs)
  obtain d0 where d0: "skb_put_mem dst (?h @ le_bytes 4 WSCAT_KEY) = Ret d0" "skb_wf d0"
    "pending d0 = pending dst @ ?h @ le_bytes 4 WSCAT_KEY" "room d0 = room dst - 6"
    using skbq.push_ok [OF dst, of "?h @ le_bytes 4 WSCAT_KEY"] lh room by auto
  have room0: "?n \<le> room d0"
    using d0(4) room n(2) by simp
  let ?f = "\<lambda>c i. ws_mask c (of_nat i) WSCAT_KEY"
  obtain d r1 r where mv: "skb_move ?f ?n d0 src = Ret (d, r1)" "skb_compact r1 = Ret r" "skb_wf d" "skb_wf r"
    "pending d = pending d0 @ map_at ?f 0 (take ?n (pending src))" "pending r = drop ?n (pending src)" "room d = room d0 - ?n"
    using move_compact [OF d0(2) src n(1) room0, of ?f] .
  have "uint maxlen = int ?n"
    by simp
  then have cmp: "\<not> uint maxlen + 1 < 0" "\<not> int (room dst) < uint maxlen + 1" "\<not> int (room dst) \<le> uint maxlen"
    using room n(2) by linarith+
  have "wssk_ws_encode_data_frame e dst src maxlen = Ret (0, d, r, e)"
    using fl cmp room byte d0(1) mv(1,2) lh
    by (simp add: null_wsframe_def wssk_ws_encode_data_frame_def pick room_uint skb_put8_def put_then_len [OF dst len(3)] put_then_put32 [OF dst]
        len(1) Let_def WSCAT_KEY_def)
  moreover have "pending d = pending dst @ text_frame (take ?n (pending src))"
    using n len(4) by (simp add: mv(5) d0(3) ws_masked_frame_def masked_def min_absorb2)
  ultimately show ?thesis
    using mv d0(4) by (intro exI [of _ d] exI [of _ r]) simp
qed


text \<open>Standard input \<open>f\<close> in text mode, with a connection \<open>q\<close> to send on.\<close>

definition typing :: "world \<Rightarrow> ptr \<Rightarrow> sk \<Rightarrow> ptr \<Rightarrow> sk \<Rightarrow> bool" where
  "typing w f k q qk \<longleftrightarrow> heap w f = Some k \<and> heap w q = Some qk \<and> f \<noteq> q \<and> wssk w = Some q
     \<and> encode_frame (sk_proto qk) = Some Wssk_ws_encode_frame \<and> \<not> is_json w \<and> repeat_last_num w \<le> 0
     \<and> skb_wf (sk_recvbuf k) \<and> skb_wf (sk_sendbuf qk)"

definition sent_on :: "world \<Rightarrow> ptr \<Rightarrow> sk \<Rightarrow> skb \<Rightarrow> ptr \<Rightarrow> sk \<Rightarrow> skb \<Rightarrow> world" where
  "sent_on w f k r q qk d = put_sk (put_sk w q (qk\<lparr>sk_sendbuf := d\<rparr>)) f (k\<lparr>sk_recvbuf := r\<rparr>)"

lemma stdin_decode_frame_run:
  assumes t: "typing w f k q qk" and ne: "pending (sk_recvbuf k) \<noteq> []"
    and n: "n = min 32 (length (pending (sk_recvbuf k)))" and room: "6 + n \<le> room (sk_sendbuf qk)"
  shows "\<exists>d r. stdin_decode_frame w f = Ret (0, sent_on w f k r q qk d) \<and> skb_wf d \<and> skb_wf r
    \<and> pending d = pending (sk_sendbuf qk) @ text_frame (take n (pending (sk_recvbuf k)))
    \<and> pending r = drop n (pending (sk_recvbuf k)) \<and> room d = room (sk_sendbuf qk) - (6 + n)"
proof -
  note T = t [unfolded typing_def]
  have rd: "unat (skb_rdsz (sk_recvbuf k)) = length (pending (sk_recvbuf k))"
    using T length_pending by simp
  define m :: u32 where "m = (if 32 < skb_rdsz (sk_recvbuf k) then 32 else skb_rdsz (sk_recvbuf k))"
  have m: "unat m = n"
    using rd by (simp add: m_def n word_less_nat_alt min_def)
  have "(of_int (uint m) :: u64) = ucast m"
    by (metis ucast_eq)
  moreover have "(ucast (ucast m :: u64) :: u32) = m"
    by (rule bit_word_eqI) (auto simp: bit_simps)
  ultimately have again: "(ucast (of_int (uint m) :: u64) :: u32) = m"
    by simp
  obtain d r where d: "wssk_ws_encode_data_frame (wsd_errno w) (sk_sendbuf qk) (sk_recvbuf k) m = Ret (0, d, r, wsd_errno w)"
    "skb_wf d" "skb_wf r" "pending d = pending (sk_sendbuf qk) @ text_frame (take n (pending (sk_recvbuf k)))"
    "pending r = drop n (pending (sk_recvbuf k))" "room d = room (sk_sendbuf qk) - (6 + n)"
    using wssk_ws_encode_data_frame_run [of "sk_sendbuf qk" "sk_recvbuf k" m "wsd_errno w"] T m n room by auto
  have z: "skb_rdsz (sk_recvbuf k) \<noteq> 0"
    using ne T rdsz_0_iff by blast
  have same: "w\<lparr>last_input := last_input w\<rparr> = w"
    by simp
  have "stdin_decode_frame w f = call_encode_frame (encode_frame (sk_proto qk)) w f (null_wsframe\<lparr>wsf_payload_len := of_int (uint m)\<rparr>)"
    using T z by (simp add: stdin_decode_frame_def m_def same split: if_splits)
  also have "\<dots> = Ret (0, sent_on w f k r q qk d)"
    using T d(1) again by (simp add: call_encode_frame_def wssk_ws_encode_frame_def sent_on_def put_sk_def)
  finally show ?thesis
    using d by (intro exI [of _ d] exI [of _ r]) simp
qed

text \<open>The lines of standard input in frames of at most 32 bytes.\<close>

function chunks :: "u8 list \<Rightarrow> u8 list list" where
  "chunks xs = (if xs = [] then [] else take 32 xs # chunks (drop 32 xs))"
  by auto

termination chunks
  by (relation "measure length") auto

declare chunks.simps [simp del]

lemma chunks_Nil [simp]: "chunks [] = []"
  by (simp add: chunks.simps)

lemma concat_chunks: "concat (chunks xs) = xs"
  by (induction xs rule: chunks.induct) (subst chunks.simps, simp)

definition text_frames :: "u8 list \<Rightarrow> u8 list" where
  "text_frames xs = concat (map text_frame (chunks xs))"

lemma text_frames_step: "xs \<noteq> [] \<Longrightarrow> text_frames xs = text_frame (take 32 xs) @ text_frames (drop 32 xs)"
  by (simp add: text_frames_def chunks.simps [of xs])

lemma length_chunks_step: "xs \<noteq> [] \<Longrightarrow> length (chunks xs) = Suc (length (chunks (drop 32 xs)))"
  by (simp add: chunks.simps [of xs])

lemma stdin_loop:
  "typing w f k q qk \<Longrightarrow> pending (sk_recvbuf k) = xs \<Longrightarrow> length (text_frames xs) \<le> room (sk_sendbuf qk)
   \<Longrightarrow> \<exists>d r. decode_frames stdin_decode_frame m w f
        = Some (Ret (-1, m + length (chunks xs), (sent_on w f k r q qk d)\<lparr>wsd_errno := WSD_EINPUT\<rparr>))
      \<and> skb_wf d \<and> skb_wf r \<and> pending d = pending (sk_sendbuf qk) @ text_frames xs \<and> pending r = []"
proof (induction xs arbitrary: w k qk m rule: chunks.induct)
  case (1 xs)
  note T = 1(2) [unfolded typing_def]
  show ?case
  proof (cases "xs = []")
    case True
    have "skb_rdsz (sk_recvbuf k) = 0"
      using T 1(3) True rdsz_0_iff by blast
    then have stop: "stdin_decode_frame w f = Ret (-1, w\<lparr>wsd_errno := WSD_EINPUT\<rparr>)"
      using T by (simp add: stdin_decode_frame_def)
    have "sent_on w f k (sk_recvbuf k) q qk (sk_sendbuf qk) = w"
      using T by (simp add: sent_on_def put_sk_def fun_upd_idem)
    with stop show ?thesis
      using T 1(3) True decode_frames_stop [where decode = stdin_decode_frame, OF stop, of m]
      by (intro exI [of _ "sk_sendbuf qk"] exI [of _ "sk_recvbuf k"]) (simp add: text_frames_def)
  next
    case False
    let ?n = "min 32 (length xs)"
    have tk: "take ?n xs = take 32 xs" "drop ?n xs = drop 32 xs" "length (take 32 xs) = ?n"
      by (simp_all add: min_def)
    have room: "6 + ?n + length (text_frames (drop 32 xs)) \<le> room (sk_sendbuf qk)"
      using 1(4) by (simp add: text_frames_step [OF False] length_text_frame)
    obtain d r where d: "stdin_decode_frame w f = Ret (0, sent_on w f k r q qk d)" "skb_wf d" "skb_wf r"
      "pending d = pending (sk_sendbuf qk) @ text_frame (take 32 xs)" "pending r = drop 32 xs" "room d = room (sk_sendbuf qk) - (6 + ?n)"
      using stdin_decode_frame_run [OF 1(2), of ?n] 1(3) False room tk by auto
    let ?w = "sent_on w f k r q qk d" and ?k = "k\<lparr>sk_recvbuf := r\<rparr>" and ?qk = "qk\<lparr>sk_sendbuf := d\<rparr>"
    have "typing ?w f ?k q ?qk"
      using T d(2,3) by (simp add: typing_def sent_on_def)
    moreover have "length (text_frames (drop 32 xs)) \<le> room (sk_sendbuf ?qk)"
      using room d(6) by simp
    ultimately obtain d' r' where ih: "decode_frames stdin_decode_frame (Suc m) ?w f
        = Some (Ret (-1, Suc m + length (chunks (drop 32 xs)), (sent_on ?w f ?k r' q ?qk d')\<lparr>wsd_errno := WSD_EINPUT\<rparr>))"
      "skb_wf d'" "skb_wf r'" "pending d' = pending d @ text_frames (drop 32 xs)" "pending r' = []"
      using 1(1) [OF False, of ?w ?k ?qk "Suc m"] d(5) by auto
    have "sent_on ?w f ?k r' q ?qk d' = sent_on w f k r' q qk d'"
      using T by (simp add: sent_on_def put_sk_def fun_upd_twist)
    with ih d(4) show ?thesis
      using decode_frames_step [where decode = stdin_decode_frame, OF d(1), of m]
      by (intro exI [of _ d'] exI [of _ r']) (simp add: text_frames_step [OF False] length_chunks_step [OF False])
  qed
qed


text \<open>All of it: the receive handler of standard input empties its buffer into the connection.\<close>

lemma stdin_recv_run:
  assumes t: "typing w f k q qk" and reg: "registered w qk" and ne: "pending (sk_recvbuf k) \<noteq> []"
    and flags: "\<not> sk_close_flag k" "\<not> sk_close_on_write k"
    and room: "length (text_frames (pending (sk_recvbuf k))) \<le> room (sk_sendbuf qk)"
  shows "\<exists>w' d r. stdin_recv w f = Ret (0, w') \<and> heap w' q = Some (qk\<lparr>sk_sendbuf := d, sk_events := sk_events qk OR EPOLLOUT\<rparr>)
    \<and> heap w' f = Some (k\<lparr>sk_recvbuf := r\<rparr>) \<and> epoll w' (sk_fd qk) = Some (sk_events qk OR EPOLLOUT)
    \<and> skb_wf d \<and> skb_wf r \<and> pending d = pending (sk_sendbuf qk) @ text_frames (pending (sk_recvbuf k)) \<and> pending r = []"
proof -
  note T = t [unfolded typing_def]
  obtain d r where d: "decode_frames stdin_decode_frame 0 w f
        = Some (Ret (-1, length (chunks (pending (sk_recvbuf k))), (sent_on w f k r q qk d)\<lparr>wsd_errno := WSD_EINPUT\<rparr>))"
    "skb_wf d" "skb_wf r" "pending d = pending (sk_sendbuf qk) @ text_frames (pending (sk_recvbuf k))" "pending r = []"
    using stdin_loop [OF t refl room, of 0] by auto
  let ?w = "(sent_on w f k r q qk d)\<lparr>wsd_errno := WSD_EINPUT\<rparr>" and ?qk = "qk\<lparr>sk_sendbuf := d\<rparr>"
  have h: "heap ?w q = Some ?qk" "heap ?w f = Some (k\<lparr>sk_recvbuf := r\<rparr>)" "registered ?w ?qk"
    using T reg by (simp_all add: sent_on_def registered_def)
  have "ensure_events ?w q EPOLLOUT = Ret (set_events ?w q ?qk (sk_events qk OR EPOLLOUT))"
    using ensure_events_ok [OF h(1,3), of EPOLLOUT] by simp
  moreover have "length (chunks (pending (sk_recvbuf k))) \<noteq> 0"
    using length_chunks_step [OF ne] by simp
  moreover have "skb_rdsz (sk_recvbuf k) \<noteq> 0"
    using ne T rdsz_0_iff by blast
  ultimately have "stdin_recv w f = Ret (0, set_events ?w q ?qk (sk_events qk OR EPOLLOUT))"
    using T d(1) h flags by (simp add: stdin_recv_def)
  then show ?thesis
    using d(2-5) h T by (intro exI [of _ "set_events ?w q ?qk (sk_events qk OR EPOLLOUT)"] exI [of _ d] exI [of _ r]) simp
qed

subsection \<open>Printing\<close>

lemma MASK_BIT_unmasked:
  assumes "ws_len_bytes len 0 = x # t"
  shows "MASK_BIT x = 0"
proof -
  have "\<not> bit (ucast len :: u8) 7" if "len < 126"
  proof -
    have "len < 2 ^ 7"
      using that by (simp add: word_less_nat_alt)
    then have "\<not> bit len 7"
      by (metis less_mask_eq bit_take_bit_iff take_bit_eq_mask and.commute less_irrefl)
    then show ?thesis
      by (simp add: bit_simps)
  qed
  moreover have "\<not> bit (126 :: u8) 7" "\<not> bit (127 :: u8) 7"
    by code_simp+
  ultimately show ?thesis
    using assms by (auto simp: ws_len_bytes_def MASK_BIT_iff bit_or_iff split: if_splits)
qed

lemma wssk_ws_decode_frame_data:
  assumes k: "heap w s = Some k" "skb_wf (sk_recvbuf k)" and byte1: "rsv_clear byte1" "data_opcode byte1"
    and p: "pending (sk_recvbuf k) = ws_frame byte1 payload @ rest"
  shows "\<exists>r. wssk_ws_decode_frame w s = Ret (0, payload, put_sk w s (k\<lparr>sk_recvbuf := r\<rparr>)) \<and> skb_wf r \<and> pending r = rest"
proof -
  let ?len = "of_nat (length payload) :: u64"
  have small: "length payload \<le> 1048576"
    using skbq.fits [OF k(2)] p by (simp add: ws_frame_def)
  then have len: "unat ?len = length payload" "?len < 2 ^ 63" "\<not> ucast SKB_SIZE < ?len"
    by (simp_all add: word_less_nat_alt unat_of_nat take_bit_nat_eq_self SKB_SIZE_def)
  obtain x t where xt: "ws_len_bytes ?len 0 = x # t"
    by (cases "ws_len_bytes ?len 0") (auto simp: ws_len_bytes_def split: if_splits)
  have p': "pending (sk_recvbuf k) = [byte1] @ [x] @ t @ payload @ rest"
    using p xt by (simp add: ws_frame_def)
  obtain b1 where b1: "skb_get_mem (sk_recvbuf k) 1 = Ret ([byte1], b1)" "skb_wf b1" "pending b1 = [x] @ t @ payload @ rest"
    using skb_get_some [OF k(2) p'] by auto
  obtain b2 where b2: "skb_get_mem b1 1 = Ret ([x], b2)" "skb_wf b2" "pending b2 = t @ payload @ rest"
    using skb_get_some [OF b1(2,3)] by auto
  obtain b3 where b3: "ws_decode_payload_len (wsd_errno w) b2 x = Ret (?len, b3, wsd_errno w)" "skb_wf b3" "pending b3 = payload @ rest"
    using ws_decode_payload_len_ok [OF b2(2) len(2) _ xt b2(3), of "wsd_errno w"] by auto
  obtain b4 where b4: "skb_get_mem b3 (length payload) = Ret (payload, b4)" "skb_wf b4" "pending b4 = rest"
    using skb_get_some [OF b3(2,3)] by auto
  obtain r where r: "skb_compact b4 = Ret r" "skb_wf r" "pending r = rest"
    using skb_compact_ok [OF b4(2)] b4(3) by auto
  have two: "\<not> skb_rdsz (sk_recvbuf k) < WS_UNMASKED_FRAME_LEN"
    using rdsz_less_iff [OF k(2)] p' by (simp add: ws_len_defs)
  have enough: "\<not> ucast (skb_rdsz b3) < ?len"
    using rdsz_le_iff [OF b3(2), of ?len] b3(3) len(1) by simp
  have "wssk_ws_decode_frame w s = Ret (0, payload, put_sk w s (k\<lparr>sk_recvbuf := r\<rparr>))"
    using k(1) byte1 b1(1) b2(1) b3(1) b4(1) r(1) two enough len(1,3) MASK_BIT_unmasked [OF xt]
    by (simp add: wssk_ws_decode_frame_def skb_get8_def rsv_clear_def data_opcode_def skb_print_def Let_def put_sk_def)
  with r show ?thesis
    by blast
qed

lemma print_frames_step:
  "wssk_ws_decode_frame w s = Ret (0, printed, w') \<Longrightarrow> print_frames out n w s = print_frames (out @ printed) (Suc n) w' s"
  by (subst print_frames.simps) simp

lemma print_frames_stop:
  "wssk_ws_decode_frame w s = Ret (rv, printed, w') \<Longrightarrow> rv \<noteq> 0 \<Longrightarrow> print_frames out n w s = Some (Ret (rv, n, out @ printed, w'))"
  by (subst print_frames.simps) simp

lemma print_loop:
  assumes "heap w s = Some k" "skb_wf (sk_recvbuf k)" "\<forall>(byte1, payload) \<in> set fs. rsv_clear byte1 \<and> data_opcode byte1"
    and "pending (sk_recvbuf k) = concat (map (\<lambda>(byte1, payload). ws_frame byte1 payload) fs) @ rest" "length rest < 2"
  shows "\<exists>r. print_frames out n w s = Some (Ret (-1, n + length fs, out @ concat (map snd fs),
      (put_sk w s (k\<lparr>sk_recvbuf := r\<rparr>))\<lparr>wsd_errno := WSD_EINPUT\<rparr>)) \<and> skb_wf r \<and> pending r = rest"
  using assms
proof (induction fs arbitrary: w k out n)
  case Nil
  have "skb_rdsz (sk_recvbuf k) < WS_UNMASKED_FRAME_LEN"
    using rdsz_less_iff [OF Nil.prems(2)] Nil.prems(4,5) by (simp add: ws_len_defs)
  then have stop: "wssk_ws_decode_frame w s = Ret (-1, [], w\<lparr>wsd_errno := WSD_EINPUT\<rparr>)"
    using Nil.prems(1) by (simp add: wssk_ws_decode_frame_def)
  have "put_sk w s (k\<lparr>sk_recvbuf := sk_recvbuf k\<rparr>) = w"
    using Nil.prems(1) by (simp add: put_sk_def fun_upd_idem)
  then show ?case
    using print_frames_stop [OF stop, of out n] Nil.prems by (intro exI [of _ "sk_recvbuf k"]) simp
next
  case (Cons f fs)
  obtain byte1 payload where f: "f = (byte1, payload)" by (cases f)
  obtain r where r: "wssk_ws_decode_frame w s = Ret (0, payload, put_sk w s (k\<lparr>sk_recvbuf := r\<rparr>))" "skb_wf r"
    "pending r = concat (map (\<lambda>(byte1, payload). ws_frame byte1 payload) fs) @ rest"
    using wssk_ws_decode_frame_data [OF Cons.prems(1,2), of byte1 payload] Cons.prems(3,4) by (auto simp: f)
  show ?case
    using Cons.IH [of "put_sk w s (k\<lparr>sk_recvbuf := r\<rparr>)" "k\<lparr>sk_recvbuf := r\<rparr>" "out @ payload" "Suc n"] Cons.prems r
      print_frames_step [OF r(1), of out n] by (auto simp: f)
qed


text \<open>The socket is \<open>k\<close>, apart from the events it waits for.\<close>

definition waits_as :: "sk \<Rightarrow> world \<Rightarrow> ptr \<Rightarrow> bool" where
  "waits_as k w s \<longleftrightarrow> (\<exists>e. heap w s = Some (k\<lparr>sk_events := e\<rparr>) \<and> registered w (k\<lparr>sk_events := e\<rparr>) \<and> wsd_errno w = WSD_EINPUT)"

lemma waits_as_events:
  assumes "waits_as k w s"
  shows "single_event ev \<Longrightarrow> \<exists>w'. ensure_events w s ev = Ret w' \<and> waits_as k w' s"
    "\<exists>w'. turn_off_events w s ev = Ret w' \<and> waits_as k w' s"
proof -
  obtain e where e: "heap w s = Some (k\<lparr>sk_events := e\<rparr>)" "registered w (k\<lparr>sk_events := e\<rparr>)" "wsd_errno w = WSD_EINPUT"
    using assms by (auto simp: waits_as_def)
  show "\<exists>w'. turn_off_events w s ev = Ret w' \<and> waits_as k w' s"
    using turn_off_events_ok [OF e(1,2), of ev] e by (auto simp: waits_as_def registered_def)
  show "\<exists>w'. ensure_events w s ev = Ret w' \<and> waits_as k w' s" if "single_event ev"
    using ensure_events_ok [OF e(1,2) that] e by (auto simp: waits_as_def registered_def)
qed

lemma waits_as_deref:
  assumes "waits_as k w s"
  shows "\<exists>k'. deref w s = Ret k' \<and> sk_sendbuf k' = sk_sendbuf k \<and> sk_close_on_write k' = sk_close_on_write k
    \<and> sk_close_flag k' = sk_close_flag k"
  using assms by (auto simp: waits_as_def)

lemma wssk_ws_recv_prints:
  assumes k: "heap w s = Some k" "registered w k" "skb_wf (sk_recvbuf k)" "pending (sk_recvbuf k) \<noteq> []"
    and data: "\<forall>(byte1, payload) \<in> set fs. rsv_clear byte1 \<and> data_opcode byte1"
    and p: "pending (sk_recvbuf k) = concat (map (\<lambda>(byte1, payload). ws_frame byte1 payload) fs) @ rest" "length rest < 2"
  shows "\<exists>w' r. wssk_ws_recv w s = Ret (-1, concat (map snd fs), w') \<and> waits_as (k\<lparr>sk_recvbuf := r\<rparr>) w' s
    \<and> skb_wf r \<and> pending r = rest"
proof -
  obtain r where r: "print_frames [] 0 w s = Some (Ret (-1, length fs, concat (map snd fs),
      (put_sk w s (k\<lparr>sk_recvbuf := r\<rparr>))\<lparr>wsd_errno := WSD_EINPUT\<rparr>))" "skb_wf r" "pending r = rest"
    using print_loop [OF k(1,3) data p, of "[]" 0] by auto
  let ?k = "k\<lparr>sk_recvbuf := r\<rparr>"
  let ?w = "(put_sk w s ?k)\<lparr>wsd_errno := WSD_EINPUT\<rparr>"
  have k_id: "k\<lparr>sk_recvbuf := r, sk_events := sk_events k\<rparr> = ?k"
    by simp
  have w0: "waits_as ?k ?w s"
    unfolding waits_as_def using k(2) by (intro exI [of _ "sk_events k"]) (simp add: k_id registered_def)
  have "\<exists>w1. (if length fs = 0 then Ret ?w
            else
              obind (deref ?w s) (\<lambda>k.
              obind (if 0 < skb_rdsz (sk_sendbuf k) then ensure_events ?w s EPOLLOUT else Ret ?w) (\<lambda>w.
              obind (deref w s) (\<lambda>k.
              if sk_close_on_write k then Ret w else ensure_events w s EPOLLIN)))) = Ret w1 \<and> waits_as ?k w1 s"
  proof -
    obtain w1 where w1: "(if 0 < skb_rdsz (sk_sendbuf ?k) then ensure_events ?w s EPOLLOUT else Ret ?w) = Ret w1" "waits_as ?k w1 s"
      using w0 waits_as_events(1) [OF w0, of EPOLLOUT] by (cases "0 < skb_rdsz (sk_sendbuf ?k)") auto
    obtain k1 where "deref w1 s = Ret k1" "sk_close_on_write k1 = sk_close_on_write ?k"
      using waits_as_deref [OF w1(2)] by blast
    with w0 w1 waits_as_events(1) [OF w1(2), of EPOLLIN] show ?thesis
      by auto
  qed
  then obtain w1 where w1: "(if length fs = 0 then Ret ?w
            else
              obind (deref ?w s) (\<lambda>k.
              obind (if 0 < skb_rdsz (sk_sendbuf k) then ensure_events ?w s EPOLLOUT else Ret ?w) (\<lambda>w.
              obind (deref w s) (\<lambda>k.
              if sk_close_on_write k then Ret w else ensure_events w s EPOLLIN)))) = Ret w1" "waits_as ?k w1 s"
    by blast
  obtain k1 where k1: "deref w1 s = Ret k1"
    using waits_as_deref [OF w1(2)] by blast
  obtain w2 where w2: "(if sk_close_flag k1 \<or> sk_close_on_write k1 then turn_off_events w1 s EPOLLIN else Ret w1) = Ret w2" "waits_as ?k w2 s"
    using w1(2) waits_as_events(2) [OF w1(2), of EPOLLIN] by (cases "sk_close_flag k1 \<or> sk_close_on_write k1") auto
  have "skb_rdsz (sk_recvbuf k) \<noteq> 0"
    using k(3,4) rdsz_0_iff by blast
  then have "wssk_ws_recv w s = obind (if length fs = 0 then Ret ?w
            else
              obind (deref ?w s) (\<lambda>k.
              obind (if 0 < skb_rdsz (sk_sendbuf k) then ensure_events ?w s EPOLLOUT else Ret ?w) (\<lambda>w.
              obind (deref w s) (\<lambda>k.
              if sk_close_on_write k then Ret w else ensure_events w s EPOLLIN)))) (\<lambda>w.
     obind (deref w s) (\<lambda>k.
     obind (if sk_close_flag k \<or> sk_close_on_write k then turn_off_events w s EPOLLIN else Ret w) (\<lambda>w.
     Ret (-1, concat (map snd fs), w))))"
    by (simp add: wssk_ws_recv_def k(1) r(1) del: obind_if length_0_conv)
  then have "wssk_ws_recv w s = Ret (-1, concat (map snd fs), w2)"
    unfolding w1(1) by (simp only: obind.simps k1 w2(1))
  with w2(2) r(2,3) show ?thesis
    by blast
qed

subsection \<open>From one side to the other\<close>

text \<open>
  C6: What is typed arrives. Text on the standard input of wscat is queued on its connection in
  frames of at most 32 bytes, standard input is empty and EPOLLOUT is asked for; and when wsd
  receives these bytes from a client, it takes every frame apart and hands the text on to its
  backend unmasked, complete and in order, each piece behind the proxy header of the client.
\<close>

theorem text_reaches_backend:
  assumes t: "typing w f k q qk" "registered w qk" "pending (sk_recvbuf k) \<noteq> []" "\<not> sk_close_flag k" "\<not> sk_close_on_write k"
    and empty: "pending (sk_sendbuf qk) = []" and room: "length (text_frames (pending (sk_recvbuf k))) \<le> room (sk_sendbuf qk)"
    and c: "heap v c = Some ck" "skb_wf (sk_recvbuf ck)" and p: "pp2sk v = Some p" "p \<noteq> c"
    and pk: "heap v p = Some pk" "skb_wf (sk_sendbuf pk)" "encode_frame (sk_proto pk) = Some Pp2_encode_frame"
    and ahead: "sum_list (map (\<lambda>x. 46 + length x) (chunks (pending (sk_recvbuf k)))) \<le> room (sk_sendbuf pk)"
  shows "\<exists>w' k' qk'. stdin_recv w f = Ret (0, w') \<and> heap w' f = Some k' \<and> pending (sk_recvbuf k') = []
    \<and> heap w' q = Some qk' \<and> sk_events qk' AND EPOLLOUT \<noteq> 0
    \<and> pending (sk_sendbuf qk') = text_frames (pending (sk_recvbuf k))
    \<and> (pending (sk_recvbuf ck) = pending (sk_sendbuf qk') \<longrightarrow> (\<exists>v' pk' ps. decode_frames ws_decode_frame 0 v c = Some (Ret (-1, length ps, v'))
        \<and> concat ps = pending (sk_recvbuf k) \<and> (\<forall>x \<in> set ps. x \<noteq> [] \<and> length x \<le> 32) \<and> heap v' p = Some pk'
        \<and> pending (sk_sendbuf pk') = pending (sk_sendbuf pk) @ concat (map (pp2_frame (sk_src_addr ck) (sk_dst_addr ck) (sk_hashval ck)) ps)))"
proof -
  let ?xs = "pending (sk_recvbuf k)"
  obtain w' d r where w': "stdin_recv w f = Ret (0, w')"
    "heap w' q = Some (qk\<lparr>sk_sendbuf := d, sk_events := sk_events qk OR EPOLLOUT\<rparr>)" "heap w' f = Some (k\<lparr>sk_recvbuf := r\<rparr>)"
    "pending d = text_frames ?xs" "pending r = []"
    using stdin_recv_run [OF t room] empty by auto
  let ?fs = "map (\<lambda>x. (0x81, WSCAT_KEY, x)) (chunks ?xs)"
  have byte: "rsv_clear 0x81" "data_opcode 0x81"
    by code_simp+
  then have data: "\<forall>(byte1, key, payload) \<in> set ?fs. rsv_clear byte1 \<and> data_opcode byte1"
    by auto
  have relay: "\<exists>v' pk'. decode_frames ws_decode_frame 0 v c = Some (Ret (-1, length (chunks ?xs), v')) \<and> heap v' p = Some pk'
      \<and> pending (sk_sendbuf pk') = pending (sk_sendbuf pk)
         @ concat (map (pp2_frame (sk_src_addr ck) (sk_dst_addr ck) (sk_hashval ck)) (chunks ?xs))"
    if arrived: "pending (sk_recvbuf ck) = text_frames ?xs"
  proof -
    have pend: "pending (sk_recvbuf ck) = concat (map (\<lambda>(byte1, key, payload). ws_masked_frame byte1 key payload) ?fs) @ []"
      using arrived by (simp add: text_frames_def comp_def)
    have rm: "sum_list (map (\<lambda>(byte1, key, payload). 46 + length payload) ?fs) \<le> room (sk_sendbuf pk)"
      using ahead by (simp add: comp_def)
    show ?thesis
      using client_stream_run [OF c p pk data pend _ rm] p(2) by (fastforce simp: comp_def)
  qed
  have small: "\<forall>x \<in> set (chunks xs). x \<noteq> [] \<and> length x \<le> 32" for xs
    by (induction xs rule: chunks.induct) (subst chunks.simps, simp)
  let ?qk = "qk\<lparr>sk_sendbuf := d, sk_events := sk_events qk OR EPOLLOUT\<rparr>"
  show ?thesis
  proof (rule exI [of _ w'], rule exI [of _ "k\<lparr>sk_recvbuf := r\<rparr>"], rule exI [of _ ?qk], intro conjI impI)
    show "sk_events ?qk AND EPOLLOUT \<noteq> 0"
      using event_bits(2) by simp
    assume "pending (sk_recvbuf ck) = pending (sk_sendbuf ?qk)"
    then have "pending (sk_recvbuf ck) = text_frames ?xs"
      using w'(4) by simp
    then show "\<exists>v' pk' ps. decode_frames ws_decode_frame 0 v c = Some (Ret (-1, length ps, v'))
        \<and> concat ps = ?xs \<and> (\<forall>x \<in> set ps. x \<noteq> [] \<and> length x \<le> 32) \<and> heap v' p = Some pk'
        \<and> pending (sk_sendbuf pk') = pending (sk_sendbuf pk) @ concat (map (pp2_frame (sk_src_addr ck) (sk_dst_addr ck) (sk_hashval ck)) ps)"
      using relay small [of ?xs] concat_chunks [of ?xs] by blast
  qed (use w' in simp_all)
qed

text \<open>
  C21: What the server sends is printed. A stream of complete unmasked data frames on the connection of
  wscat, followed by less than a header, is printed payload by payload in order and nothing else;
  the rest stays in the buffer, and nothing of the connection changes but this buffer and the
  events it waits for.
\<close>

theorem wscat_prints_stream:
  assumes "heap w s = Some k" "registered w k" "skb_wf (sk_recvbuf k)" "pending (sk_recvbuf k) \<noteq> []"
    and "\<forall>(byte1, payload) \<in> set fs. rsv_clear byte1 \<and> data_opcode byte1"
    and "pending (sk_recvbuf k) = concat (map (\<lambda>(byte1, payload). ws_frame byte1 payload) fs) @ rest" "length rest < 2"
  shows "\<exists>w' k'. wssk_ws_recv w s = Ret (-1, concat (map snd fs), w') \<and> heap w' s = Some k'
    \<and> k' = k\<lparr>sk_recvbuf := sk_recvbuf k', sk_events := sk_events k'\<rparr> \<and> pending (sk_recvbuf k') = rest
    \<and> registered w' k' \<and> wsd_errno w' = WSD_EINPUT"
proof -
  obtain w' r e where w': "wssk_ws_recv w s = Ret (-1, concat (map snd fs), w')" "pending r = rest" "wsd_errno w' = WSD_EINPUT"
    "heap w' s = Some (k\<lparr>sk_recvbuf := r, sk_events := e\<rparr>)" "registered w' (k\<lparr>sk_recvbuf := r, sk_events := e\<rparr>)"
    using wssk_ws_recv_prints [OF assms] unfolding waits_as_def by blast
  then show ?thesis
    by (intro exI [of _ w'] exI [of _ "k\<lparr>sk_recvbuf := r, sk_events := e\<rparr>"]) simp
qed


text \<open>Standard input with 40 letters next to a connection, and wsd with what they become.\<close>

definition demo_text :: "u8 list" where
  "demo_text = replicate 40 0x68"

definition demo_stdin :: sk where
  "demo_stdin = zero_sk\<lparr>sk_recvbuf := skb_of demo_text\<rparr>"

definition demo_wssk :: sk where
  "demo_wssk = (wssk_ready 5)\<lparr>sk_events := EPOLLIN\<rparr>"

definition demo_typing :: world where
  "demo_typing = (init_world demo_client_cfg)\<lparr>heap := [1 \<mapsto> demo_stdin, 2 \<mapsto> demo_wssk], epoll := [5 \<mapsto> EPOLLIN],
     wssk := Some 2, fdin := Some 1\<rparr>"

lemma demo_typing_ok: "typing demo_typing 1 demo_stdin 2 demo_wssk" "registered demo_typing demo_wssk"
  "pending (sk_recvbuf demo_stdin) = demo_text" "pending (sk_sendbuf demo_wssk) = []" "room (sk_sendbuf demo_wssk) = 1048576"
  "\<not> sk_close_flag demo_stdin" "\<not> sk_close_on_write demo_stdin"
  by (simp_all add: typing_def demo_typing_def demo_stdin_def demo_wssk_def wssk_ready_def zero_sk_def registered_def init_world_def
      skb_of_simps demo_text_def)

lemma demo_chunks: "chunks demo_text = [replicate 32 0x68, replicate 8 0x68]"
  by (simp add: demo_text_def chunks.simps [of "replicate 40 0x68"] chunks.simps [of "replicate 8 0x68"])

lemma demo_frames: "length (text_frames demo_text) = 52"
  by (simp add: text_frames_def demo_chunks length_text_frame)

theorem text_reaches_backend_witness:
  "\<exists>w' v' pk' ps. stdin_recv demo_typing 1 = Ret (0, w')
    \<and> decode_frames ws_decode_frame 0 (demo_pair (text_frames demo_text) []) 1 = Some (Ret (-1, length ps, v'))
    \<and> concat ps = demo_text \<and> heap v' 2 = Some pk'
    \<and> pending (sk_sendbuf pk') = concat (map (pp2_frame (sk_src_addr zero_sk) (sk_dst_addr zero_sk) 5) ps)"
proof -
  let ?cs = "text_frames demo_text"
  have ck: "heap (demo_pair ?cs []) 1 = Some (demo_client ?cs)" "skb_wf (sk_recvbuf (demo_client ?cs))"
    "heap (demo_pair ?cs []) 2 = Some (demo_backend [])" "pending (sk_recvbuf (demo_client ?cs)) = ?cs"
    using demo_frames by (simp_all add: skb_of_simps)
  have pk: "skb_wf (sk_sendbuf (demo_backend []))" "pending (sk_sendbuf (demo_backend [])) = []" "room (sk_sendbuf (demo_backend [])) = 1048576"
    by simp_all
  have addr: "sk_src_addr (demo_client ?cs) = sk_src_addr zero_sk" "sk_dst_addr (demo_client ?cs) = sk_dst_addr zero_sk"
    "sk_hashval (demo_client ?cs) = 5"
    by (simp_all add: demo_client_def demo_sk_def)
  have ne: "pending (sk_recvbuf demo_stdin) \<noteq> []"
    by (simp add: demo_typing_ok(3) demo_text_def)
  have room: "length (text_frames (pending (sk_recvbuf demo_stdin))) \<le> room (sk_sendbuf demo_wssk)"
    "sum_list (map (\<lambda>x. 46 + length x) (chunks (pending (sk_recvbuf demo_stdin)))) \<le> room (sk_sendbuf (demo_backend []))"
    using demo_frames by (simp_all add: demo_typing_ok(3,5) pk(3) demo_chunks)
  have p: "pp2sk (demo_pair ?cs []) = Some 2" "(2 :: ptr) \<noteq> 1" "encode_frame (sk_proto (demo_backend [])) = Some Pp2_encode_frame"
    by simp_all
  from text_reaches_backend [OF demo_typing_ok(1,2) ne demo_typing_ok(6,7,4) room(1) ck(1,2) p(1,2) ck(3) pk(1) p(3) room(2)]
  show ?thesis
    unfolding demo_typing_ok(3) addr pk(2) append_Nil ck(4) by fastforce
qed

theorem wscat_prints_stream_witness:
  "\<exists>w' k'. wssk_ws_recv ((init_world demo_client_cfg)\<lparr>heap := [2 \<mapsto> demo_wssk\<lparr>sk_recvbuf := skb_of [0x81, 2, 0x68, 0x69, 0x82, 1, 0x21]\<rparr>],
      epoll := [5 \<mapsto> EPOLLIN], wssk := Some 2\<rparr>) 2 = Ret (-1, [0x68, 0x69, 0x21], w') \<and> heap w' 2 = Some k' \<and> pending (sk_recvbuf k') = []"
proof -
  let ?in = "[0x81, 2, 0x68, 0x69, 0x82, 1, 0x21] :: u8 list"
  let ?k = "demo_wssk\<lparr>sk_recvbuf := skb_of ?in\<rparr>"
  let ?w = "(init_world demo_client_cfg)\<lparr>heap := [2 \<mapsto> ?k], epoll := [5 \<mapsto> EPOLLIN], wssk := Some 2\<rparr>"
  have k: "heap ?w 2 = Some ?k" "registered ?w ?k" "skb_wf (sk_recvbuf ?k)" "pending (sk_recvbuf ?k) \<noteq> []"
    by (simp_all add: demo_wssk_def wssk_ready_def registered_def skb_of_simps)
  have data: "\<forall>(byte1, payload) \<in> set [(0x81, [0x68, 0x69]), (0x82, [0x21])]. rsv_clear byte1 \<and> data_opcode (byte1 :: u8)"
    by code_simp
  have "ws_frame 0x81 [0x68, 0x69] @ ws_frame 0x82 [0x21] = ?in"
    by (simp add: ws_frame_def ws_len_bytes_def)
  then have p: "pending (sk_recvbuf ?k) = concat (map (\<lambda>(byte1, payload). ws_frame byte1 payload)
      [(0x81, [0x68, 0x69]), (0x82, [0x21])]) @ []"
    by (simp add: skb_of_simps)
  from wscat_prints_stream [OF k data p] show ?thesis
    by auto
qed

end
