(* ===== verification/Spec2Isabelle.thy ===== *)
theory Spec2Isabelle
  imports Lists Daemon Traffic
begin

text \<open>
  A model of the two programs of the repository. wsd is a daemon that takes websocket connections
  (RFC 6455), takes their frames apart and multiplexes the payloads to one backend connection
  behind headers of the proxy protocol, version 2; what the backend sends goes back to the client
  its header names. wscat is a client that sends what it reads from standard input in websocket
  frames, over TCP or TLS, and prints what it gets.

  The parts and how they interact. \<open>main\<close> of wsd reads the command line, becomes a daemon and runs
  the child process. The child and wscat share the event loop of src/common.c: it waits for
  events, reads into a socket's receive buffer and puts the socket on a work list, or writes its
  send buffer. Each round the child calls the receive handler of every socket on the work
  list. A client starts in HTTP mode: \<open>http_recv\<close> parses and checks the upgrade request and
  \<open>ws_decode_handshake\<close> answers and switches the handlers; from then on \<open>ws_recv\<close> decodes frames
  and \<open>pp2_encode_frame\<close> appends their payloads to the backend connection, which \<open>ws_recv\<close> opens
  on demand. In the other direction \<open>pp2_recv\<close> decodes, finds the client in the hash table and
  calls \<open>ws_encode_frame\<close>.

  How C is modelled (Prelude, Types). A function that can go wrong has an \<open>outcome\<close>: it returns, it
  exits (the macros \<open>A\<close>, \<open>AN\<close>, \<open>AZ\<close>), or it is a fault, that is undefined behaviour: an access out
  of bounds, a null or dangling pointer, a call through a null pointer, a signed overflow, a loop
  that does not end. Integers are words of their width. A pointer to a socket is the key of a heap
  of socket records, a pointer into bytes an index. The globals of a process, its heap, its
  lists and the interest set of epoll are the record \<open>world\<close>, which handlers take and return.
  Handler tables (\<open>struct ops\<close>, \<open>struct proto\<close>) hold constructors of the functions assigned to them,
  and an indirect call is a case distinction over them. The socket list and the work list are lists
  of cells; their links stand in the cells, so handing out a freed cell that is still on the
  work list, which cuts that list, is a fault of \<open>sk_accept\<close> and \<open>sk_open\<close> (\<open>wipe_cell\<close>).

  Theories and sources.
    Skb, Common: src/common.h and src/common.c without the event loop. Buffers refine the
      locale \<open>byte_queue\<close>, interpreted on the code's macros.
    Parser, Uri: src/parser.c and src/uri.c.
    Ws, Pp2, Wsk, Decode, Frames: src/ws.c, src/pp2.c and the frames of src/wscat.c; encoders, the
      decoders that call them, and what both do on whole frames and streams. The receive loops
      share the locale \<open>frame_decoder\<close>, interpreted on the decoders of the client, of any socket of
      a reachable state and of the serving child.
    Hashtable, Lists: src/hashtable.h and src/list.h. Lists has the pointer level and proves that
      it implements the buckets and lists of the other theories; the table is an instance of the
      locale \<open>socket_table\<close>.
    Sockets: the invariant of the socket heap, and that the operations on sockets keep it.
    Http, Handshake, Receive: src/http.c and src/ws_wsd.c, \<open>pp2_recv\<close> and \<open>pp2_close\<close>.
    Loop, Child: the event loop, and src/wschild.c with accepting, closing, timers and main.
    Steps, Session: the child as a step relation, its invariant in every reachable state, and
      sessions over several rounds.
    Options, Daemon: the command line, and src/wsd.c as a program that makes system calls.
    Request, Tls, Wscat, Client: src/wscat.c; its request, TLS, handlers and \<open>main\<close>.
    Together, Secure, Start, Traffic: wscat and wsd together, the TLS connection over a whole run, wscat
      from its command line to the first bytes, and its data in both directions.

  What the lemmas show.
    Safety and invariants: no input of a client and no order of accepting, reading, serving,
      writing, closing and timing out takes the child out of its invariant; the handlers with which a
      socket of the socket list is read, written, received, decoded and closed fit its role;
      receiving stays inside the buffers. The parsers stay inside a terminated buffer. The exceptions
      are theorems too: the backend connection that is freed while it waits on the work list, the ping
      of a client in HTTP mode, which is a call through a null pointer, and the faults listed below.
    Function: which upgrade requests are accepted and how they are answered, which are answered with
      400 and which are dropped without an answer; the exact frames of encoders and closing
      handshakes, with the wrong status bytes of a masked close frame; the relay of a stream of client frames to the backend and of
      backend frames to their client; what wscat prints; the configuration of a command line.
    Refinement and equivalence: the list and hash code against HOL lists; the header parser
      against an abstract header. Round trips: payload lengths, header fields, URIs, the upgrade
      request and its answer between both programs, and text from standard input to the backend.
    Termination and liveness: the receive loops end after at most as many frames as there are bytes
      (a measure, not fuel: the loops are \<open>partial_function\<close>s whose undefined result is the
      fault \<open>Diverges\<close>, and the theorems show that they return), and queued output drains.
    Daemon and client: the child is only run without privileges; TLS checks the peer without -x;
      what is handed to OpenSSL is the request once for every completed handshake.

  Arguments of the model. What the kernel answers (\<open>io_in\<close>, \<open>io_out\<close>, \<open>event\<close>, \<open>incoming\<close>, \<open>dial\<close>,
  \<open>connection\<close>, \<open>host_system\<close>), the cells that \<open>malloc\<close> returns, the clock and the answers of OpenSSL
  (\<open>ssl_error\<close>, \<open>tls_in\<close>, \<open>tls_out\<close>, \<open>tls_setup\<close>) are arguments of the operations that ask for them. SHA-1
  with base64 is the argument \<open>digest\<close>, of which the theorems only use that its result has 28 bytes
  and, for the round trip, that these may stand in a header field.
  \<open>usable\<close> says how many bytes of an allocation can be used. A run of an event loop is the list of
  its rounds, each with the events of one \<open>epoll_wait\<close>; an endless run is covered by all its finite
  parts. The buffers have the size of the code, 2 to the power of 20 bytes.

  Faults of the code that are proved: \<open>Session.backend_close_dangles\<close>, \<open>Daemon.wsd_main_frees_argument\<close>,
  \<open>Daemon.relative_pidfile\<close>, \<open>Secure.tls_renegotiation\<close>, \<open>Start.wscat_config_overrun\<close>,
  \<open>Steps.ping_before_upgrade_faults\<close>, \<open>Http.other_methods_pass\<close>, \<open>Start.stdin_close_no_handshake\<close>, \<open>Ws.ws_encode_frame_overrun\<close>, \<open>Ws.masked_close_status\<close>,
  \<open>Hashtable.hash_add_out_of_bounds\<close>, \<open>Parser.parse_header_field_overrun\<close>,
  \<open>Parser.parse_header_field_wraps\<close>, \<open>Parser.request_line_gap\<close>, \<open>Common.trim_eats_text\<close>, \<open>Handshake.generate_accept_val_overrun\<close>.

  Not modelled. Everything that only prints: the help texts, the diagnostics of verbose mode
  (\<open>ws_printf\<close>, \<open>pp2_printf\<close>, \<open>print_tls_error\<close>), messages before an exit, and syslog. The insides of
  OpenSSL, of the kernel and of name resolution; the signal handlers other than the flag that ends
  the loop. Builds without OpenSSL, in which wscat has no TLS. The list macros that the
  programs do not use, and the test drivers of the parsers under src/test.
\<close>

end
